(* ===== verification/Prelude.thy ===== *)
theory Prelude imports Main "HOL-Library.Word" begin

text \<open>
  What every component of the dashboard model shares: JavaScript strings as lists of
  UTF-16 code units, errors and results, the collections of simplification rules the
  component proofs use, and a few list lemmas.
\<close>

section \<open>Collections\<close>

named_theorems js_eval \<open>equations that evaluate the string layer on literals\<close>
named_theorems api_simps \<open>definitions of the request builders and response handlers\<close>
named_theorems ui_simps \<open>definitions of the event handlers of the components\<close>

section \<open>JavaScript strings\<close>

text \<open>
  A JavaScript string is a sequence of 16-bit code units, not of characters. \<open>js\<close> turns an
  ASCII literal into one; a literal outside ASCII is written with its code units.
\<close>

type_synonym code_unit = "16 word"
type_synonym jstr = "16 word list"

definition unit_of :: "char \<Rightarrow> code_unit" where
  "unit_of c = of_char c"

definition js :: "string \<Rightarrow> jstr" where
  "js s = map unit_of s"

abbreviation em_dash :: jstr where "em_dash \<equiv> [0x2014]"
abbreviation middle_dot :: jstr where "middle_dot \<equiv> [0x00B7]"
abbreviation check_mark :: jstr where "check_mark \<equiv> [0x2713]"
abbreviation ellipsis :: jstr where "ellipsis \<equiv> [0x2026]"
abbreviation right_arrow :: jstr where "right_arrow \<equiv> [0x2192]"

lemma of_char_less [simp]: "of_char c < (256 :: nat)"
  by (metis of_char_mod_256 mod_less_divisor zero_less_numeral)

lemma unat_unit_of [simp]: "unat (unit_of c) = of_char c"
proof -
  have "(of_char c :: nat) < 65536" by (rule less_trans [OF of_char_less]) simp
  moreover have "unit_of c = of_nat (of_char c)" by (simp add: unit_of_def of_nat_of_char)
  ultimately show ?thesis by (simp add: unat_of_nat)
qed

lemma unit_of_eq_iff [simp]: "unit_of c = unit_of d \<longleftrightarrow> c = d"
  by (metis unat_unit_of of_char_eq_iff)

lemma js_Nil [simp]: "js [] = []"
  by (simp add: js_def)

lemma js_append: "js (s @ t) = js s @ js t"
  by (simp add: js_def)

lemma length_js [simp]: "length (js s) = length s"
  by (simp add: js_def)

lemma js_eq_iff [simp]: "js s = js t \<longleftrightarrow> s = t"
proof -
  have "inj unit_of" by (rule injI) simp
  then show ?thesis by (simp add: js_def inj_map_eq_map)
qed

lemma js_eq_Nil [simp]: "js s = [] \<longleftrightarrow> s = []" "[] = js s \<longleftrightarrow> s = []"
  by (simp_all add: js_def)

section \<open>Errors and results\<close>

text \<open>
  A thrown JavaScript error has a class name and a message; \<open>new Error(m)\<close> is
  \<open>js_Error m\<close>. The message of an error raised by the browser itself (a failed \<open>fetch\<close>, a
  syntax error of the JSON parser) is the browser's and stays a parameter.
\<close>

record js_error =
  err_name :: jstr
  err_message :: jstr

type_synonym 'a result = "js_error + 'a"

definition js_Error :: "jstr \<Rightarrow> js_error" where
  "js_Error m = \<lparr>err_name = js ''Error'', err_message = m\<rparr>"

definition URIError :: js_error where
  "URIError = \<lparr>err_name = js ''URIError'', err_message = js ''URI malformed''\<rparr>"

text \<open>\<open>String(e)\<close> of an error, and the \<open>String(e.message || e)\<close> that the components show.\<close>

definition string_of_error :: "js_error \<Rightarrow> jstr" where
  "string_of_error e =
     (if err_message e = [] then err_name e
      else if err_name e = [] then err_message e
      else err_name e @ js '': '' @ err_message e)"

definition shown_error :: "js_error \<Rightarrow> jstr" where
  "shown_error e = (if err_message e = [] then string_of_error e else err_message e)"

lemma shown_js_Error [simp]: "m \<noteq> [] \<Longrightarrow> shown_error (js_Error m) = m"
  by (simp add: shown_error_def js_Error_def)

definition is_error :: "'a result \<Rightarrow> bool" where
  "is_error r = (case r of Inl _ \<Rightarrow> True | Inr _ \<Rightarrow> False)"

lemma is_error_simps [simp]: "is_error (Inl e)" "\<not> is_error (Inr x)"
  by (simp_all add: is_error_def)

text \<open>JavaScript's \<open>a || b\<close> and \<open>a ?? b\<close> on strings that may be absent.\<close>

definition or_else :: "jstr option \<Rightarrow> jstr \<Rightarrow> jstr" where
  "or_else a b = (case a of None \<Rightarrow> b | Some s \<Rightarrow> if s = [] then b else s)"

definition nullish :: "'a option \<Rightarrow> 'a \<Rightarrow> 'a" where
  "nullish a b = (case a of None \<Rightarrow> b | Some x \<Rightarrow> x)"

lemma or_else_simps [simp]:
  "or_else None b = b"
  "or_else (Some []) b = b"
  "s \<noteq> [] \<Longrightarrow> or_else (Some s) b = s"
  by (simp_all add: or_else_def)

lemma or_else_nonempty: "b \<noteq> [] \<Longrightarrow> or_else a b \<noteq> []"
  by (simp add: or_else_def split: option.splits)

lemma nullish_simps [simp]: "nullish None b = b" "nullish (Some x) b = x"
  by (simp_all add: nullish_def)

section \<open>Lists\<close>

text \<open>
  \<open>next.length > CAP ? next.slice(next.length - CAP) : next\<close>: the newest \<open>cap\<close> elements.
\<close>

definition keep_last :: "nat \<Rightarrow> 'a list \<Rightarrow> 'a list" where
  "keep_last cap xs = (if length xs > cap then drop (length xs - cap) xs else xs)"

lemma keep_last_drop: "keep_last cap xs = drop (length xs - cap) xs"
  by (simp add: keep_last_def)

lemma length_keep_last [simp]: "length (keep_last cap xs) = min cap (length xs)"
  by (simp add: keep_last_drop)

lemma keep_last_append: "keep_last cap (keep_last cap xs @ ys) = keep_last cap (xs @ ys)"
  by (cases "length xs \<le> cap") (simp_all add: keep_last_drop add.commute)

lemma keep_last_id: "length xs \<le> cap \<Longrightarrow> keep_last cap xs = xs"
  by (simp add: keep_last_def)

lemma set_keep_last: "set (keep_last cap xs) \<subseteq> set xs"
  by (simp add: keep_last_drop set_drop_subset)

text \<open>The index of the first element that satisfies \<open>p\<close>: \<open>Array.prototype.find\<close> as a value.\<close>

definition find_first :: "('a \<Rightarrow> bool) \<Rightarrow> 'a list \<Rightarrow> 'a option" where
  "find_first p xs = List.find p xs"

lemma find_first_simps [simp]:
  "find_first p [] = None"
  "find_first p (x # xs) = (if p x then Some x else find_first p xs)"
  by (simp_all add: find_first_def)

lemma find_first_append:
  "find_first p (xs @ ys) = (case find_first p xs of Some x \<Rightarrow> Some x | None \<Rightarrow> find_first p ys)"
  by (induction xs) auto

lemma find_first_Some: "find_first p xs = Some x \<Longrightarrow> x \<in> set xs \<and> p x"
  by (auto simp: find_first_def find_Some_iff)

lemma find_first_None: "find_first p xs = None \<longleftrightarrow> (\<forall>x \<in> set xs. \<not> p x)"
  by (auto simp: find_first_def find_None_iff)

end
