(* ===== verification/JsString.thy ===== *)
theory JsString imports Prelude begin

text \<open>
  The part of JavaScript's string library the dashboard uses, on code units: character
  classes, \<open>trim\<close>, \<open>includes\<close>, \<open>startsWith\<close>, \<open>split\<close> on one character, \<open>join\<close>,
  \<open>lastIndexOf\<close> and \<open>padStart\<close>, and the decimal text of an integer.
\<close>

section \<open>Character classes\<close>

definition is_digit :: "code_unit \<Rightarrow> bool" where
  "is_digit c \<longleftrightarrow> 0x30 \<le> c \<and> c \<le> 0x39"

definition is_upper :: "code_unit \<Rightarrow> bool" where
  "is_upper c \<longleftrightarrow> 0x41 \<le> c \<and> c \<le> 0x5A"

definition is_lower :: "code_unit \<Rightarrow> bool" where
  "is_lower c \<longleftrightarrow> 0x61 \<le> c \<and> c \<le> 0x7A"

text \<open>The characters \<open>\w\<close> and \<open>\b\<close> of a regular expression call word characters.\<close>

definition is_word_char :: "code_unit \<Rightarrow> bool" where
  "is_word_char c \<longleftrightarrow> is_digit c \<or> is_upper c \<or> is_lower c \<or> c = 0x5F"

text \<open>The line terminators, which \<open>.\<close> of a regular expression does not match.\<close>

definition is_line_terminator :: "code_unit \<Rightarrow> bool" where
  "is_line_terminator c \<longleftrightarrow> c = 0x0A \<or> c = 0x0D \<or> c = 0x2028 \<or> c = 0x2029"

text \<open>White space as \<open>trim\<close>, \<open>\s\<close> and \<open>Number\<close> see it.\<close>

definition is_space :: "code_unit \<Rightarrow> bool" where
  "is_space c \<longleftrightarrow> is_line_terminator c \<or> c = 0x09 \<or> c = 0x0B \<or> c = 0x0C \<or> c = 0x20 \<or>
     c = 0xA0 \<or> c = 0xFEFF \<or> c = 0x1680 \<or> (0x2000 \<le> c \<and> c \<le> 0x200A) \<or> c = 0x202F \<or>
     c = 0x205F \<or> c = 0x3000"

section \<open>Trimming\<close>

definition trim :: "jstr \<Rightarrow> jstr" where
  "trim s = rev (dropWhile is_space (rev (dropWhile is_space s)))"

lemma trim_Nil [simp]: "trim [] = []"
  by (simp add: trim_def)

lemma dropWhile_rev_id:
  "xs \<noteq> [] \<Longrightarrow> \<not> p (last xs) \<Longrightarrow> dropWhile p (rev xs) = rev xs"
  by (cases xs rule: rev_cases) simp_all

lemma last_dropWhile: "dropWhile p xs \<noteq> [] \<Longrightarrow> last (dropWhile p xs) = last xs"
  by (induction xs) (auto split: if_splits)

lemma hd_rev_dropWhile_rev:
  "ys \<noteq> [] \<Longrightarrow> \<not> p (hd ys) \<Longrightarrow> dropWhile p (rev (dropWhile p (rev ys))) = rev (dropWhile p (rev ys))"
proof (cases "dropWhile p (rev ys) = []")
  case False
  assume "ys \<noteq> []" "\<not> p (hd ys)"
  from False have "last (dropWhile p (rev ys)) = hd ys"
    by (simp add: last_dropWhile last_rev)
  with False \<open>\<not> p (hd ys)\<close> show ?thesis
    by (simp add: dropWhile_rev_id)
qed simp

lemma trim_idem [simp]: "trim (trim s) = trim s"
proof (cases "dropWhile is_space s = []")
  case False
  let ?y = "dropWhile is_space s"
  have "\<not> is_space (hd ?y)" using False by (rule hd_dropWhile)
  then have "dropWhile is_space (trim s) = trim s"
    using False by (simp add: trim_def hd_rev_dropWhile_rev)
  then show ?thesis by (simp add: trim_def)
next
  case True
  then have "trim s = []" by (simp only: trim_def) simp
  then show ?thesis by simp
qed

lemma trim_eq_Nil: "trim s = [] \<longleftrightarrow> (\<forall>c \<in> set s. is_space c)"
proof (cases "dropWhile is_space s = []")
  case True
  then have "trim s = []" by (simp only: trim_def) simp
  with True show ?thesis by simp
next
  case False
  let ?y = "dropWhile is_space s"
  have "\<not> is_space (hd ?y)" using False by (rule hd_dropWhile)
  moreover have "hd ?y \<in> set s"
    using False by (meson hd_in_set set_dropWhileD)
  moreover have "hd ?y \<in> set (rev ?y)" using False by simp
  ultimately have "dropWhile is_space (rev ?y) \<noteq> []"
    by (auto simp only: dropWhile_eq_Nil_conv)
  then show ?thesis
    using \<open>\<not> is_space (hd ?y)\<close> \<open>hd ?y \<in> set s\<close> by (auto simp: trim_def)
qed

section \<open>Searching\<close>

definition startsWith :: "jstr \<Rightarrow> jstr \<Rightarrow> bool" where
  "startsWith s p \<longleftrightarrow> take (length p) s = p"

fun str_includes :: "jstr \<Rightarrow> jstr \<Rightarrow> bool" where
  "str_includes [] p = (p = [])"
| "str_includes (c # s) p = (startsWith (c # s) p \<or> str_includes s p)"

lemma startsWith_iff: "startsWith s p \<longleftrightarrow> (\<exists>t. s = p @ t)"
  unfolding startsWith_def by (metis append_eq_conv_conj append_take_drop_id)

lemma startsWith_append [simp]: "startsWith (p @ t) p"
  by (auto simp: startsWith_iff)

lemma str_includes_iff: "str_includes s p \<longleftrightarrow> (\<exists>a b. s = a @ p @ b)"
proof (induction s)
  case (Cons c s)
  have "(\<exists>a b. c # s = a @ p @ b) \<longleftrightarrow> (\<exists>b. c # s = p @ b) \<or> (\<exists>a b. s = a @ p @ b)"
    by (metis append_Cons append_Nil list.exhaust list.inject)
  with Cons show ?case by (simp add: startsWith_iff)
qed simp

lemma str_includes_Nil [simp]: "str_includes s []"
  by (auto simp: str_includes_iff)

lemma str_includes_refl [simp]: "str_includes s s"
  by (subst str_includes_iff) (metis append_Nil append_Nil2)

lemma str_includes_trans: "str_includes s t \<Longrightarrow> str_includes t u \<Longrightarrow> str_includes s u"
  by (metis append.assoc str_includes_iff)

section \<open>Splitting and joining on one character\<close>

text \<open>\<open>s.split(d)\<close> for a one-character separator: never empty, \<open>""\<close> gives \<open>[""]\<close>.\<close>

fun split_on :: "code_unit \<Rightarrow> jstr \<Rightarrow> jstr list" where
  "split_on d [] = [[]]"
| "split_on d (c # s) =
     (if c = d then [] # split_on d s
      else (case split_on d s of w # ws \<Rightarrow> (c # w) # ws | [] \<Rightarrow> [[c]]))"

fun join :: "jstr \<Rightarrow> jstr list \<Rightarrow> jstr" where
  "join d [] = []"
| "join d [w] = w"
| "join d (w # ws) = w @ d @ join d ws"

lemma split_on_nonempty [simp]: "split_on d s \<noteq> []"
  by (induction s) (auto split: list.splits)

lemma join_split_on [simp]: "join [d] (split_on d s) = s"
proof (induction s)
  case (Cons c s)
  obtain w ws where w: "split_on d s = w # ws"
    using split_on_nonempty by (metis list.exhaust)
  with Cons show ?case by (cases ws) auto
qed simp

lemma split_on_no_sep: "d \<notin> set s \<Longrightarrow> split_on d s = [s]"
  by (induction s) auto

lemma split_on_append:
  "d \<notin> set w \<Longrightarrow> split_on d (w @ d # s) = w # split_on d s"
  by (induction w) auto

lemma split_on_join:
  "ws \<noteq> [] \<Longrightarrow> (\<And>w. w \<in> set ws \<Longrightarrow> d \<notin> set w) \<Longrightarrow> split_on d (join [d] ws) = ws"
proof (induction ws rule: induct_list012)
  case (3 w x xs)
  then show ?case by (simp add: split_on_append)
qed (auto simp: split_on_no_sep)

lemma split_on_parts: "w \<in> set (split_on d s) \<Longrightarrow> d \<notin> set w"
proof (induction s arbitrary: w)
  case (Cons c s)
  obtain v vs where v: "split_on d s = v # vs"
    using split_on_nonempty by (metis list.exhaust)
  with Cons show ?case by (auto split: if_splits)
qed simp

section \<open>Positions\<close>

text \<open>\<open>s.slice(0, s.lastIndexOf(d))\<close> when \<open>d\<close> occurs, \<open>None\<close> when \<open>lastIndexOf\<close> is -1.\<close>

definition before_last :: "code_unit \<Rightarrow> jstr \<Rightarrow> jstr option" where
  "before_last d s =
     (if d \<in> set s then Some (rev (tl (dropWhile (\<lambda>c. c \<noteq> d) (rev s)))) else None)"

lemma before_last_append: "d \<notin> set t \<Longrightarrow> before_last d (s @ d # t) = Some s"
proof -
  assume "d \<notin> set t"
  then have "dropWhile (\<lambda>c. c \<noteq> d) (rev t @ d # rev s) = d # rev s"
    by (subst dropWhile_append2) auto
  then show ?thesis by (simp add: before_last_def)
qed

lemma before_last_None [simp]: "d \<notin> set s \<Longrightarrow> before_last d s = None"
  by (simp add: before_last_def)

text \<open>\<open>s.padStart(n, f)\<close> for a one-character filler.\<close>

definition padStart :: "nat \<Rightarrow> code_unit \<Rightarrow> jstr \<Rightarrow> jstr" where
  "padStart n f s = replicate (n - length s) f @ s"

lemma length_padStart [simp]: "length (padStart n f s) = max n (length s)"
  by (simp add: padStart_def)

section \<open>Decimal text of integers\<close>

text \<open>\<open>String(n)\<close> for an integer below 10^21, where JavaScript writes all digits.\<close>

definition digit_unit :: "nat \<Rightarrow> code_unit" where
  "digit_unit d = of_nat (0x30 + d)"

fun dec_nat :: "nat \<Rightarrow> jstr" where
  "dec_nat n = (if n < 10 then [digit_unit n] else dec_nat (n div 10) @ [digit_unit (n mod 10)])"

declare dec_nat.simps [simp del]

definition dec_int :: "int \<Rightarrow> jstr" where
  "dec_int i = (if i < 0 then 0x2D # dec_nat (nat (- i)) else dec_nat (nat i))"

definition digit_value :: "code_unit \<Rightarrow> nat" where
  "digit_value c = unat c - 0x30"

text \<open>The value of a string of digits, the inverse of \<open>dec_nat\<close>.\<close>

definition value_of_digits :: "jstr \<Rightarrow> nat" where
  "value_of_digits s = foldl (\<lambda>v c. 10 * v + digit_value c) 0 s"

lemma unat_digit_unit: "d < 10 \<Longrightarrow> unat (digit_unit d) = 0x30 + d"
  unfolding digit_unit_def by (simp only: unat_of_nat) simp

lemma digit_value_unit [simp]: "d < 10 \<Longrightarrow> digit_value (digit_unit d) = d"
  by (simp add: digit_value_def unat_digit_unit)

lemma is_digit_unit [simp]: "d < 10 \<Longrightarrow> is_digit (digit_unit d)"
  by (simp add: is_digit_def word_le_nat_alt unat_digit_unit)

lemma dec_nat_nonempty [simp]: "dec_nat n \<noteq> []"
  by (subst dec_nat.simps) simp

lemma dec_nat_digits: "c \<in> set (dec_nat n) \<Longrightarrow> is_digit c"
proof (induction n rule: dec_nat.induct)
  case (1 n)
  then show ?case
    by (cases "n < 10") (auto simp: dec_nat.simps [of n])
qed

lemma value_dec_nat [simp]: "value_of_digits (dec_nat n) = n"
proof (induction n rule: dec_nat.induct)
  case (1 n)
  then show ?case
    by (cases "n < 10") (auto simp: dec_nat.simps [of n] value_of_digits_def)
qed

lemma dec_nat_inject [simp]: "dec_nat m = dec_nat n \<longleftrightarrow> m = n"
  by (metis value_dec_nat)

lemma dec_int_nonempty [simp]: "dec_int i \<noteq> []"
  by (simp add: dec_int_def)

lemma dec_int_inject [simp]: "dec_int i = dec_int j \<longleftrightarrow> i = j"
proof
  assume eq: "dec_int i = dec_int j"
  have no_minus: "0x2D \<notin> set (dec_nat n)" for n
    using dec_nat_digits [of "0x2D" n] by (auto simp: is_digit_def)
  then have "dec_nat n \<noteq> 0x2D # t" for n t
    by (metis list.set_intros(1))
  then have "dec_nat n \<noteq> 0x2D # t" "0x2D # t \<noteq> dec_nat n" for n t
    by metis+
  with eq show "i = j"
    by (auto simp: dec_int_def split: if_splits)
qed simp

end
