(* ===== verification/Uri.thy ===== *)
theory Uri imports Prelude JsString begin

text \<open>
  \<open>encodeURIComponent\<close>, \<open>decodeURIComponent\<close> and \<open>URLSearchParams.toString\<close> on UTF-16
  code units, with the errors they throw, and the laws the router and the API rely on: an
  encoded component decodes to itself, holds no path or query separator, and is empty only
  for the empty string.
\<close>

section \<open>UTF-16 and UTF-8\<close>

definition is_high :: "code_unit \<Rightarrow> bool" where
  "is_high c \<longleftrightarrow> 0xD800 \<le> unat c \<and> unat c \<le> 0xDBFF"

definition is_low :: "code_unit \<Rightarrow> bool" where
  "is_low c \<longleftrightarrow> 0xDC00 \<le> unat c \<and> unat c \<le> 0xDFFF"

definition surrogate_pair :: "code_unit \<Rightarrow> code_unit \<Rightarrow> nat" where
  "surrogate_pair h l = 0x10000 + (unat h - 0xD800) * 0x400 + (unat l - 0xDC00)"

text \<open>The code points of a string; \<open>None\<close> when it holds an unpaired surrogate.\<close>

fun code_points :: "jstr \<Rightarrow> nat list option" where
  "code_points [] = Some []"
| "code_points (c # s) =
     (if is_high c
      then (case s of
              [] \<Rightarrow> None
            | d # s' \<Rightarrow> if is_low d then map_option ((#) (surrogate_pair c d)) (code_points s') else None)
      else if is_low c then None
      else map_option ((#) (unat c)) (code_points s))"

text \<open>A well-formed string has no unpaired surrogate.\<close>

definition well_formed :: "jstr \<Rightarrow> bool" where
  "well_formed s \<longleftrightarrow> code_points s \<noteq> None"

text \<open>The conversion to a USVString: an unpaired surrogate becomes U+FFFD.\<close>

fun scalar_values :: "jstr \<Rightarrow> nat list" where
  "scalar_values [] = []"
| "scalar_values (c # s) =
     (if is_high c
      then (case s of
              [] \<Rightarrow> [0xFFFD]
            | d # s' \<Rightarrow> if is_low d then surrogate_pair c d # scalar_values s'
                        else 0xFFFD # scalar_values s)
      else if is_low c then 0xFFFD # scalar_values s
      else unat c # scalar_values s)"

definition is_scalar :: "nat \<Rightarrow> bool" where
  "is_scalar cp \<longleftrightarrow> cp < 0x110000 \<and> (cp < 0xD800 \<or> 0xDFFF < cp)"

definition utf16 :: "nat \<Rightarrow> jstr" where
  "utf16 cp =
     (if cp < 0x10000 then [of_nat cp]
      else [of_nat (0xD800 + (cp - 0x10000) div 0x400), of_nat (0xDC00 + (cp - 0x10000) mod 0x400)])"

definition utf8 :: "nat \<Rightarrow> nat list" where
  "utf8 cp =
     (if cp < 0x80 then [cp]
      else if cp < 0x800 then [0xC0 + cp div 64, 0x80 + cp mod 64]
      else if cp < 0x10000 then [0xE0 + cp div 4096, 0x80 + cp div 64 mod 64, 0x80 + cp mod 64]
      else [0xF0 + cp div 262144, 0x80 + cp div 4096 mod 64, 0x80 + cp div 64 mod 64, 0x80 + cp mod 64])"

text \<open>How many octets a leading octet announces, and the code point of the octets.\<close>

definition utf8_length :: "nat \<Rightarrow> nat option" where
  "utf8_length b =
     (if b < 0xC0 then None else if b < 0xE0 then Some 2
      else if b < 0xF0 then Some 3 else if b < 0xF8 then Some 4 else None)"

definition is_continuation :: "nat \<Rightarrow> bool" where
  "is_continuation b \<longleftrightarrow> 0x80 \<le> b \<and> b < 0xC0"

fun utf8_value :: "nat list \<Rightarrow> nat option" where
  "utf8_value [a, b] =
     (let v = (a - 0xC0) * 64 + (b - 0x80)
      in if is_continuation b \<and> 0x80 \<le> v then Some v else None)"
| "utf8_value [a, b, c] =
     (let v = (a - 0xE0) * 4096 + (b - 0x80) * 64 + (c - 0x80)
      in if is_continuation b \<and> is_continuation c \<and> 0x800 \<le> v \<and> is_scalar v then Some v else None)"
| "utf8_value [a, b, c, d] =
     (let v = (a - 0xF0) * 262144 + (b - 0x80) * 4096 + (c - 0x80) * 64 + (d - 0x80)
      in if is_continuation b \<and> is_continuation c \<and> is_continuation d \<and> 0x10000 \<le> v \<and> is_scalar v
         then Some v else None)"
| "utf8_value _ = None"

section \<open>Percent escapes\<close>

definition hex_unit :: "nat \<Rightarrow> code_unit" where
  "hex_unit d = of_nat (if d < 10 then 0x30 + d else 0x37 + d)"

definition hex_value :: "code_unit \<Rightarrow> nat option" where
  "hex_value c =
     (if 0x30 \<le> unat c \<and> unat c \<le> 0x39 then Some (unat c - 0x30)
      else if 0x41 \<le> unat c \<and> unat c \<le> 0x46 then Some (unat c - 0x37)
      else if 0x61 \<le> unat c \<and> unat c \<le> 0x66 then Some (unat c - 0x57)
      else None)"

definition pct :: "nat \<Rightarrow> jstr" where
  "pct b = [0x25, hex_unit (b div 16), hex_unit (b mod 16)]"

fun pct_octet :: "jstr \<Rightarrow> (nat \<times> jstr) option" where
  "pct_octet (p # a # b # s) =
     (if p = 0x25
      then (case hex_value a of None \<Rightarrow> None | Some x \<Rightarrow>
            case hex_value b of None \<Rightarrow> None | Some y \<Rightarrow> Some (16 * x + y, s))
      else None)"
| "pct_octet _ = None"

fun pct_octets :: "nat \<Rightarrow> jstr \<Rightarrow> (nat list \<times> jstr) option" where
  "pct_octets 0 s = Some ([], s)"
| "pct_octets (Suc n) s =
     (case pct_octet s of None \<Rightarrow> None | Some (b, s') \<Rightarrow>
      case pct_octets n s' of None \<Rightarrow> None | Some (bs, s'') \<Rightarrow> Some (b # bs, s''))"

lemma pct_octet_shorter: "pct_octet s = Some (b, t) \<Longrightarrow> length t < length s"
  by (induction s rule: pct_octet.induct) (auto split: option.splits if_splits)

lemma pct_octets_shorter: "pct_octets n s = Some (bs, t) \<Longrightarrow> length t \<le> length s"
proof (induction n arbitrary: s bs)
  case (Suc n)
  then obtain b s' cs where "pct_octet s = Some (b, s')" "pct_octets n s' = Some (cs, t)"
    by (auto split: option.splits)
  with Suc.IH [of s' cs] show ?case by (auto dest: pct_octet_shorter)
qed simp

section \<open>encodeURIComponent and decodeURIComponent\<close>

text \<open>The unreserved marks of \<open>encodeURIComponent\<close>: letters, digits and \<open>- _ . ! ~ * ' ( )\<close>.\<close>

definition uri_unreserved :: "nat \<Rightarrow> bool" where
  "uri_unreserved cp \<longleftrightarrow>
     (0x30 \<le> cp \<and> cp \<le> 0x39) \<or> (0x41 \<le> cp \<and> cp \<le> 0x5A) \<or> (0x61 \<le> cp \<and> cp \<le> 0x7A) \<or>
     cp = 0x2D \<or> cp = 0x5F \<or> cp = 0x2E \<or> cp = 0x21 \<or> cp = 0x7E \<or> cp = 0x2A \<or> cp = 0x27 \<or>
     cp = 0x28 \<or> cp = 0x29"

definition uri_escape :: "nat \<Rightarrow> jstr" where
  "uri_escape cp = (if uri_unreserved cp then [of_nat cp] else concat (map pct (utf8 cp)))"

definition encodeURIComponent :: "jstr \<Rightarrow> jstr result" where
  "encodeURIComponent s =
     (case code_points s of None \<Rightarrow> Inl URIError | Some cps \<Rightarrow> Inr (concat (map uri_escape cps)))"

function uri_decode :: "jstr \<Rightarrow> jstr option" where
  "uri_decode [] = Some []"
| "uri_decode (c # s) =
     (if c \<noteq> 0x25 then map_option ((#) c) (uri_decode s)
      else case pct_octet (c # s) of None \<Rightarrow> None | Some (b, r) \<Rightarrow>
        if b < 0x80 then map_option ((#) (of_nat b)) (uri_decode r)
        else case utf8_length b of None \<Rightarrow> None | Some n \<Rightarrow>
          case pct_octets (n - 1) r of None \<Rightarrow> None | Some (bs, r') \<Rightarrow>
            case utf8_value (b # bs) of None \<Rightarrow> None
            | Some cp \<Rightarrow> map_option ((@) (utf16 cp)) (uri_decode r'))"
  by pat_completeness auto
termination
  by (relation "measure length")
    (auto dest!: pct_octet_shorter dest: pct_octets_shorter [THEN le_less_trans])

definition decodeURIComponent :: "jstr \<Rightarrow> jstr result" where
  "decodeURIComponent s = (case uri_decode s of None \<Rightarrow> Inl URIError | Some t \<Rightarrow> Inr t)"

section \<open>The form encoding of URLSearchParams\<close>

definition form_safe :: "nat \<Rightarrow> bool" where
  "form_safe cp \<longleftrightarrow>
     (0x30 \<le> cp \<and> cp \<le> 0x39) \<or> (0x41 \<le> cp \<and> cp \<le> 0x5A) \<or> (0x61 \<le> cp \<and> cp \<le> 0x7A) \<or>
     cp = 0x2A \<or> cp = 0x2D \<or> cp = 0x2E \<or> cp = 0x5F"

definition form_escape :: "nat \<Rightarrow> jstr" where
  "form_escape cp =
     (if cp = 0x20 then [0x2B] else if form_safe cp then [of_nat cp] else concat (map pct (utf8 cp)))"

definition form_encode :: "jstr \<Rightarrow> jstr" where
  "form_encode s = concat (map form_escape (scalar_values s))"

definition search_params :: "(jstr \<times> jstr) list \<Rightarrow> jstr" where
  "search_params ps = join [0x26] (map (\<lambda>(k, v). form_encode k @ 0x3D # form_encode v) ps)"

section \<open>The laws of the two encodings\<close>

subsection \<open>UTF-16\<close>

lemma surrogate_pair_scalar:
  "is_high c \<Longrightarrow> is_low d \<Longrightarrow> is_scalar (surrogate_pair c d) \<and> 0x10000 \<le> surrogate_pair c d"
  by (auto simp: is_high_def is_low_def is_scalar_def surrogate_pair_def)

lemma utf16_surrogate_pair:
  assumes "is_high c" "is_low d" shows "utf16 (surrogate_pair c d) = [c, d]"
proof -
  define h l where "h = unat c - 0xD800" and "l = unat d - 0xDC00"
  then have h: "unat c = 0xD800 + h" and l: "unat d = 0xDC00 + l" and l': "l < 0x400"
    using assms by (auto simp: is_high_def is_low_def)
  then have p: "surrogate_pair c d = 0x10000 + (h * 0x400 + l)"
    by (simp add: surrogate_pair_def)
  have "(0x10000 + (h * 0x400 + l) - 0x10000) div 0x400 = h"
    "(0x10000 + (h * 0x400 + l) - 0x10000) mod 0x400 = l" using l' by simp_all
  then have "utf16 (surrogate_pair c d) = [of_nat (unat c), of_nat (unat d)]"
    by (simp only: p utf16_def h l) simp
  then show ?thesis by simp
qed

lemma code_points_small: "(\<And>c. c \<in> set s \<Longrightarrow> unat c < 0xD800) \<Longrightarrow> code_points s = Some (map unat s)"
proof (induction s)
  case (Cons c s)
  then have "unat c < 0xD800" by simp
  then have "\<not> is_high c" "\<not> is_low c" by (auto simp: is_high_def is_low_def)
  with Cons show ?case by simp
qed simp

lemma well_formed_js [simp]: "well_formed (js s)"
proof -
  have "unat c < 0xD800" if "c \<in> set (js s)" for c
  proof -
    from that obtain d where "c = unit_of d" by (auto simp: js_def)
    then have "unat c < 256" by simp
    then show ?thesis by simp
  qed
  then show ?thesis by (simp add: well_formed_def code_points_small)
qed

lemma well_formed_small: "(\<And>c. c \<in> set s \<Longrightarrow> unat c < 0xD800) \<Longrightarrow> well_formed s"
  by (simp add: well_formed_def code_points_small)

lemma well_formed_dec_int [simp]: "well_formed (dec_int i)"
proof -
  have "unat c < 0xD800" if "c \<in> set (0x2D # dec_nat n)" for c n
    using that dec_nat_digits [of c n] by (auto simp: is_digit_def word_le_nat_alt)
  then show ?thesis unfolding dec_int_def by (auto intro!: well_formed_small)
qed

lemma code_points_utf16:
  "code_points s = Some cps \<Longrightarrow> concat (map utf16 cps) = s \<and> (\<forall>cp \<in> set cps. is_scalar cp)"
proof (induction s arbitrary: cps rule: code_points.induct)
  case (2 c s)
  show ?case
  proof (cases "is_high c")
    case True
    with 2 obtain d s' cps' where "s = d # s'" "is_low d" "code_points s' = Some cps'"
      "cps = surrogate_pair c d # cps'"
      by (auto split: list.splits if_splits)
    with 2 True show ?thesis
      by (auto simp: utf16_surrogate_pair surrogate_pair_scalar)
  next
    case False
    with 2 obtain cps' where c: "\<not> is_low c" "code_points s = Some cps'" "cps = unat c # cps'"
      by (auto split: if_splits)
    have "unat c < 2 ^ LENGTH(16)" by (rule unsigned_less)
    then have "is_scalar (unat c)" "utf16 (unat c) = [c]"
      using False c
      by (auto simp: is_high_def is_low_def is_scalar_def utf16_def)
    with 2 False c show ?thesis by auto
  qed
qed simp

lemma scalar_values_code_points: "code_points s = Some cps \<Longrightarrow> scalar_values s = cps"
proof (induction s arbitrary: cps rule: code_points.induct)
  case (2 c s)
  show ?case
  proof (cases "is_high c")
    case True
    with 2 show ?thesis by (cases s) (auto split: if_splits)
  next
    case False
    with 2 show ?thesis by (auto split: if_splits)
  qed
qed simp

lemma code_points_eq_Nil [simp]: "code_points s = Some [] \<longleftrightarrow> s = []"
  by (cases s) (auto split: list.splits)

subsection \<open>UTF-8\<close>

lemma div_mod_64:
  fixes cp :: nat
  shows "cp div 64 * 64 + cp mod 64 = cp"
    "cp div 4096 * 4096 + cp div 64 mod 64 * 64 + cp mod 64 = cp"
    "cp div 262144 * 262144 + cp div 4096 mod 64 * 4096 + cp div 64 mod 64 * 64 + cp mod 64 = cp"
proof -
  define q where "q = cp div 64"
  define p where "p = q div 64"
  have d: "cp div 4096 = p" "cp div 262144 = p div 64"
    by (simp_all add: p_def q_def flip: div_mult2_eq)
  have "cp = q * 64 + cp mod 64" "q = p * 64 + q mod 64" "p = p div 64 * 64 + p mod 64"
    by (simp_all add: p_def q_def)
  then show "cp div 64 * 64 + cp mod 64 = cp"
    "cp div 4096 * 4096 + cp div 64 mod 64 * 64 + cp mod 64 = cp"
    "cp div 262144 * 262144 + cp div 4096 mod 64 * 4096 + cp div 64 mod 64 * 64 + cp mod 64 = cp"
    unfolding d q_def [symmetric] by linarith+
qed

lemma utf8_value_utf8:
  assumes "is_scalar cp" "0x80 \<le> cp" shows "utf8_value (utf8 cp) = Some cp"
proof -
  consider "cp < 0x800" | "0x800 \<le> cp" "cp < 0x10000" | "0x10000 \<le> cp" by linarith
  then show ?thesis
    using assms div_mod_64 [of cp]
    by cases (simp_all add: utf8_def Let_def is_continuation_def)
qed

lemma utf8_octets: "is_scalar cp \<Longrightarrow> b \<in> set (utf8 cp) \<Longrightarrow> b < 256"
  by (auto simp: utf8_def is_scalar_def split: if_splits)

lemma utf8_shape:
  assumes "is_scalar cp" "0x80 \<le> cp"
  obtains b bs where "utf8 cp = b # bs" "0x80 \<le> b" "utf8_length b = Some (Suc (length bs))"
proof -
  have "cp div 64 < 0x20" if "cp < 0x800" using that by simp
  moreover have "cp div 4096 < 0x10" if "cp < 0x10000" using that by simp
  moreover have "cp div 262144 < 8" using assms by (auto simp: is_scalar_def)
  moreover consider "cp < 0x800" | "0x800 \<le> cp" "cp < 0x10000" | "0x10000 \<le> cp" by linarith
  ultimately have "\<exists>b bs. utf8 cp = b # bs \<and> 0x80 \<le> b \<and> utf8_length b = Some (Suc (length bs))"
    using assms(2) by cases (simp_all add: utf8_def utf8_length_def)
  with that show ?thesis by blast
qed

subsection \<open>Percent escapes\<close>

lemma hex_value_unit [simp]: "d < 16 \<Longrightarrow> hex_value (hex_unit d) = Some d"
  unfolding hex_value_def hex_unit_def by (simp only: unat_of_nat) simp

lemma pct_octet_pct: "b < 256 \<Longrightarrow> pct_octet (pct b @ s) = Some (b, s)"
  by (simp add: pct_def)

lemma pct_octets_pct:
  "(\<And>b. b \<in> set bs \<Longrightarrow> b < 256) \<Longrightarrow> pct_octets (length bs) (concat (map pct bs) @ s) = Some (bs, s)"
  by (induction bs) (simp_all add: pct_octet_pct)

subsection \<open>decodeURIComponent undoes encodeURIComponent\<close>

lemma unat_of_unreserved: "uri_unreserved cp \<Longrightarrow> unat (of_nat cp :: code_unit) = cp"
  unfolding uri_unreserved_def by (subst unat_of_nat) auto

lemma unreserved_unit: "uri_unreserved cp \<Longrightarrow> (of_nat cp :: code_unit) \<notin> {0x25, 0x2F, 0x23, 0x3F, 0x26}"
proof -
  assume u: "uri_unreserved cp"
  have "(of_nat cp :: code_unit) = c \<Longrightarrow> unat c = cp" for c
    using unat_of_unreserved [OF u] by auto
  from this [of "0x25"] this [of "0x2F"] this [of "0x23"] this [of "0x3F"] this [of "0x26"] u
  show ?thesis by (auto simp: uri_unreserved_def)
qed

lemma uri_decode_octets:
  assumes "is_scalar cp"
  shows "uri_decode (concat (map pct (utf8 cp)) @ s) = map_option ((@) (utf16 cp)) (uri_decode s)"
proof (cases "cp < 0x80")
  case True
  then have "pct_octet (pct cp @ s) = Some (cp, s)" by (simp add: pct_octet_pct)
  moreover obtain a b where "pct cp = [0x25, a, b]" by (simp add: pct_def)
  ultimately show ?thesis using True by (simp add: utf8_def utf16_def) (metis append_Cons append_Nil)
next
  case False
  with assms obtain b bs where b: "utf8 cp = b # bs" "0x80 \<le> b" "utf8_length b = Some (Suc (length bs))"
    by (auto elim: utf8_shape)
  have small: "x < 256" if "x \<in> set (b # bs)" for x
    using utf8_octets [OF assms] that b by simp
  then have "pct_octets (length bs) (concat (map pct bs) @ s) = Some (bs, s)"
    by (intro pct_octets_pct) simp
  moreover have "pct_octet (pct b @ (concat (map pct bs) @ s)) = Some (b, concat (map pct bs) @ s)"
    using small by (simp add: pct_octet_pct)
  moreover obtain x y where "pct b = [0x25, x, y]" by (simp add: pct_def)
  moreover have "utf8_value (b # bs) = Some cp"
    using utf8_value_utf8 assms False b by (metis not_le)
  ultimately show ?thesis using b by simp
qed

lemma uri_decode_escape:
  "is_scalar cp \<Longrightarrow> uri_decode (uri_escape cp @ s) = map_option ((@) (utf16 cp)) (uri_decode s)"
proof (cases "uri_unreserved cp")
  case True
  then have "cp < 0x10000" by (auto simp: uri_unreserved_def)
  then show ?thesis
    using True unreserved_unit [OF True]
    by (cases "uri_decode s") (simp_all add: uri_escape_def utf16_def)
next
  case False
  assume "is_scalar cp"
  then show ?thesis using False by (simp add: uri_escape_def uri_decode_octets)
qed

lemma uri_decode_escapes:
  "(\<And>cp. cp \<in> set cps \<Longrightarrow> is_scalar cp) \<Longrightarrow>
   uri_decode (concat (map uri_escape cps)) = Some (concat (map utf16 cps))"
  by (induction cps) (simp_all add: uri_decode_escape)

lemma decode_encode: "encodeURIComponent s = Inr e \<Longrightarrow> decodeURIComponent e = Inr s"
  by (auto simp: encodeURIComponent_def decodeURIComponent_def uri_decode_escapes
      dest!: code_points_utf16 split: option.splits)

lemma encode_well_formed: "well_formed s \<longleftrightarrow> (\<exists>e. encodeURIComponent s = Inr e)"
  by (auto simp: well_formed_def encodeURIComponent_def split: option.splits)

lemma hex_unit_range: "d < 16 \<Longrightarrow> is_digit (hex_unit d) \<or> is_upper (hex_unit d)"
  unfolding hex_unit_def is_digit_def is_upper_def word_le_nat_alt
  by (simp only: unat_of_nat) auto

lemma pct_units: "b < 256 \<Longrightarrow> c \<in> set (pct b) \<Longrightarrow> c = 0x25 \<or> is_digit c \<or> is_upper c"
  using hex_unit_range [of "b div 16"] hex_unit_range [of "b mod 16"] by (auto simp: pct_def)

lemma uri_escape_no_separator:
  assumes "is_scalar cp" shows "set (uri_escape cp) \<inter> {0x2F, 0x23, 0x3F, 0x26} = {}"
proof (cases "uri_unreserved cp")
  case True
  then show ?thesis using unreserved_unit [OF True] by (simp add: uri_escape_def)
next
  case False
  have "c = 0x25 \<or> is_digit c \<or> is_upper c" if "c \<in> set (uri_escape cp)" for c
    using that False utf8_octets [OF assms] pct_units by (auto simp: uri_escape_def)
  from this [of "0x2F"] this [of "0x23"] this [of "0x3F"] this [of "0x26"]
  show ?thesis by (auto simp: is_digit_def is_upper_def)
qed

lemma encode_no_separator:
  "encodeURIComponent s = Inr e \<Longrightarrow> set e \<inter> {0x2F, 0x23, 0x3F, 0x26} = {}"
  using uri_escape_no_separator
  by (fastforce simp: encodeURIComponent_def dest!: code_points_utf16 split: option.splits)

lemma uri_escape_nonempty [simp]: "uri_escape cp \<noteq> []"
  by (simp add: uri_escape_def utf8_def pct_def)

lemma encode_eq_Nil: "encodeURIComponent s = Inr e \<Longrightarrow> e = [] \<longleftrightarrow> s = []"
proof -
  assume "encodeURIComponent s = Inr e"
  then obtain cps where "code_points s = Some cps" "e = concat (map uri_escape cps)"
    by (auto simp: encodeURIComponent_def split: option.splits)
  then show ?thesis
    using code_points_eq_Nil [of s] by (cases cps) auto
qed

subsection \<open>The form encoding and its reference decoder\<close>

text \<open>
  What a server does with a query string: split at \<open>&\<close>, split each part at its first
  \<open>=\<close>, turn \<open>+\<close> into a space and undo the percent escapes.
\<close>

definition plus_to_space :: "code_unit \<Rightarrow> code_unit" where
  "plus_to_space c = (if c = 0x2B then 0x20 else c)"

definition form_decode :: "jstr \<Rightarrow> jstr result" where
  "form_decode t = decodeURIComponent (map plus_to_space t)"

definition split_pair :: "jstr \<Rightarrow> jstr \<times> jstr" where
  "split_pair t = (takeWhile (\<lambda>c. c \<noteq> 0x3D) t, drop 1 (dropWhile (\<lambda>c. c \<noteq> 0x3D) t))"

definition parse_query :: "jstr \<Rightarrow> (jstr result \<times> jstr result) list" where
  "parse_query t = map (\<lambda>p. map_prod form_decode form_decode (split_pair p)) (split_on 0x26 t)"

lemma form_safe_unit:
  "form_safe cp \<Longrightarrow> unat (of_nat cp :: code_unit) = cp \<and> cp < 0x10000"
  unfolding form_safe_def by (subst unat_of_nat) auto

lemma form_escape_units:
  assumes "is_scalar cp" "c \<in> set (form_escape cp)"
  shows "c \<noteq> 0x26 \<and> c \<noteq> 0x3D \<and> c \<noteq> 0x2F \<and> c \<noteq> 0x23 \<and> c \<noteq> 0x3F \<and> (c = 0x2B \<longrightarrow> cp = 0x20)"
proof -
  consider "cp = 0x20" | "cp \<noteq> 0x20" "form_safe cp" | "cp \<noteq> 0x20" "\<not> form_safe cp" by blast
  then show ?thesis
  proof cases
    case 2
    then have "unat c = cp" using assms form_safe_unit by (simp add: form_escape_def)
    with 2 show ?thesis by (auto simp: form_safe_def)
  next
    case 3
    then have "c = 0x25 \<or> is_digit c \<or> is_upper c"
      using assms utf8_octets [OF assms(1)] pct_units by (auto simp: form_escape_def)
    then show ?thesis by (auto simp: is_digit_def is_upper_def)
  qed (use assms in \<open>simp add: form_escape_def\<close>)
qed

lemma map_plus_to_space:
  assumes "is_scalar cp" "cp \<noteq> 0x20" shows "map plus_to_space (form_escape cp) = form_escape cp"
proof (rule map_idI)
  fix c assume "c \<in> set (form_escape cp)"
  with form_escape_units [OF assms(1) this] assms(2) show "plus_to_space c = c"
    by (auto simp: plus_to_space_def)
qed

lemma uri_decode_form_safe:
  assumes "form_safe cp" shows "uri_decode (of_nat cp # s) = map_option ((@) (utf16 cp)) (uri_decode s)"
proof -
  note unit = form_safe_unit [OF assms]
  have "cp \<noteq> 0x25" using assms by (auto simp: form_safe_def)
  with unit have "(of_nat cp :: code_unit) \<noteq> 0x25" by auto
  moreover have "cp < 0x10000" using unit by blast
  ultimately show ?thesis by (cases "uri_decode s") (simp_all add: utf16_def)
qed

lemma uri_decode_form_escape:
  assumes "is_scalar cp"
  shows "uri_decode (map plus_to_space (form_escape cp) @ s) =
    map_option ((@) (utf16 cp)) (uri_decode s)"
proof -
  consider "cp = 0x20" | "cp \<noteq> 0x20" "form_safe cp" | "cp \<noteq> 0x20" "\<not> form_safe cp" by blast
  then show ?thesis
  proof cases
    case 1
    then have "map plus_to_space (form_escape cp) @ s = 0x20 # s"
      by (simp add: form_escape_def plus_to_space_def)
    with 1 show ?thesis by (cases "uri_decode s") (simp_all add: utf16_def)
  next
    case 2
    then have "map plus_to_space (form_escape cp) @ s = of_nat cp # s"
      by (simp only: map_plus_to_space [OF assms 2(1)]) (use 2 in \<open>simp add: form_escape_def\<close>)
    then show ?thesis by (simp only: uri_decode_form_safe [OF 2(2)])
  next
    case 3
    then have "map plus_to_space (form_escape cp) @ s = concat (map pct (utf8 cp)) @ s"
      by (simp only: map_plus_to_space [OF assms 3(1)]) (use 3 in \<open>simp add: form_escape_def\<close>)
    then show ?thesis by (simp only: uri_decode_octets [OF assms])
  qed
qed

lemma form_decode_escapes:
  "(\<And>cp. cp \<in> set cps \<Longrightarrow> is_scalar cp) \<Longrightarrow>
   uri_decode (map plus_to_space (concat (map form_escape cps))) =
   Some (concat (map utf16 cps))"
  by (induction cps) (simp_all add: uri_decode_form_escape)

lemma form_decode_encode: "well_formed s \<Longrightarrow> form_decode (form_encode s) = Inr s"
proof -
  assume "well_formed s"
  then obtain cps where cps: "code_points s = Some cps" by (auto simp: well_formed_def)
  note utf = code_points_utf16 [OF cps]
  have "form_decode (form_encode s) = (case Some (concat (map utf16 cps)) of
      None \<Rightarrow> Inl URIError | Some t \<Rightarrow> Inr t)"
    unfolding form_decode_def decodeURIComponent_def form_encode_def
      scalar_values_code_points [OF cps]
    by (subst form_decode_escapes) (use utf in auto)
  with utf show ?thesis by simp
qed

lemma scalar_values_scalar: "cp \<in> set (scalar_values s) \<Longrightarrow> is_scalar cp"
proof (induction s rule: scalar_values.induct)
  case (2 c s)
  have "unat c < 2 ^ LENGTH(16)" by (rule unsigned_less)
  then have c: "\<not> is_high c \<Longrightarrow> \<not> is_low c \<Longrightarrow> is_scalar (unat c)" "is_scalar 0xFFFD"
    by (auto simp: is_high_def is_low_def is_scalar_def)
  show ?case
  proof (cases "is_high c")
    case True
    with 2 c show ?thesis
      by (cases s) (auto split: if_splits simp: surrogate_pair_scalar)
  next
    case False
    with 2 c show ?thesis by (auto split: if_splits)
  qed
qed simp

lemma form_encode_units: "c \<in> set (form_encode s) \<Longrightarrow> c \<notin> {0x26, 0x3D, 0x2F, 0x23, 0x3F}"
  using form_escape_units scalar_values_scalar by (fastforce simp: form_encode_def)

lemma scalar_values_eq_Nil [simp]: "scalar_values s = [] \<longleftrightarrow> s = []"
  by (cases s) (auto split: list.splits)

lemma form_encode_eq_Nil: "form_encode s = [] \<longleftrightarrow> s = []"
proof -
  have "form_escape cp \<noteq> []" for cp by (simp add: form_escape_def utf8_def pct_def)
  then show ?thesis
    by (cases "scalar_values s") (use scalar_values_eq_Nil in \<open>force simp: form_encode_def\<close>)+
qed

section \<open>The alphabet of the encodings\<close>

text \<open>
  The printable ASCII characters a URL of the client is made of: word characters, the marks the
  encodings leave alone, \<open>%\<close> and \<open>+\<close>, and the separators of a path and of a query.
\<close>

definition url_unit :: "code_unit \<Rightarrow> bool" where
  "url_unit c \<longleftrightarrow> is_word_char c \<or>
     c \<in> {0x21, 0x25, 0x26, 0x27, 0x28, 0x29, 0x2A, 0x2B, 0x2D, 0x2E, 0x2F, 0x3D, 0x3F, 0x7E}"

lemma unreserved_url_unit: "uri_unreserved cp \<Longrightarrow> url_unit (of_nat cp)"
  using unat_of_unreserved [of cp]
  by (auto simp: uri_unreserved_def url_unit_def is_word_char_def is_digit_def is_upper_def is_lower_def word_le_nat_alt)

lemma form_safe_url_unit: "form_safe cp \<Longrightarrow> url_unit (of_nat cp)"
  using form_safe_unit [of cp]
  by (auto simp: form_safe_def url_unit_def is_word_char_def is_digit_def is_upper_def is_lower_def word_le_nat_alt)

lemma pct_url_unit: "is_scalar cp \<Longrightarrow> list_all url_unit (concat (map pct (utf8 cp)))"
  using pct_units utf8_octets by (fastforce simp: list_all_iff url_unit_def is_word_char_def)

lemma encode_url_units: "encodeURIComponent s = Inr e \<Longrightarrow> list_all url_unit e"
proof -
  assume "encodeURIComponent s = Inr e"
  then obtain cps where "e = concat (map uri_escape cps)" "\<forall>cp \<in> set cps. is_scalar cp"
    using code_points_utf16 by (fastforce simp: encodeURIComponent_def split: option.splits)
  moreover have "list_all url_unit (uri_escape cp)" if "is_scalar cp" for cp
    using that pct_url_unit unreserved_url_unit by (simp add: uri_escape_def)
  ultimately show ?thesis by (auto simp: list_all_iff)
qed

lemma form_encode_url_units: "list_all url_unit (form_encode s)"
proof -
  have "list_all url_unit (form_escape cp)" if "is_scalar cp" for cp
    using that pct_url_unit form_safe_url_unit by (simp add: form_escape_def url_unit_def)
  then show ?thesis using scalar_values_scalar by (fastforce simp: form_encode_def list_all_iff)
qed

lemma search_params_url_units: "list_all url_unit (search_params ps)"
proof -
  have "list_all url_unit (join [0x26] xs)" if "list_all (list_all url_unit) xs" for xs
    using that by (induction "[0x26] :: jstr" xs rule: join.induct) (simp_all add: url_unit_def)
  note join = this
  have "url_unit 0x3D" by (simp add: url_unit_def)
  then show ?thesis
    unfolding search_params_def using form_encode_url_units
    by (intro join) (auto simp: list.pred_map list_all_iff)
qed

section \<open>The codec interface\<close>

text \<open>
  What the router and the request builders use of an encoding: on well-formed strings it
  succeeds, decodes to the same string, avoids the separators, and is empty only for the
  empty string.
\<close>

locale component_codec =
  fixes enc dec :: "jstr \<Rightarrow> jstr result"
    and wf :: "jstr \<Rightarrow> bool"
    and separators :: "code_unit set"
  assumes total: "wf s \<Longrightarrow> \<exists>e. enc s = Inr e"
    and inverse: "wf s \<Longrightarrow> enc s = Inr e \<Longrightarrow> dec e = Inr s"
    and no_separator: "wf s \<Longrightarrow> enc s = Inr e \<Longrightarrow> set e \<inter> separators = {}"
    and empty: "wf s \<Longrightarrow> enc s = Inr e \<Longrightarrow> e = [] \<longleftrightarrow> s = []"
begin

lemma enc_inject: "wf a \<Longrightarrow> wf b \<Longrightarrow> enc a = Inr e \<Longrightarrow> enc b = Inr e \<Longrightarrow> a = b"
  by (metis inverse sum.inject(2))

lemma split_two:
  assumes "wf a" "wf b" "enc a = Inr x" "enc b = Inr y" "d \<in> separators"
  shows "split_on d (x @ d # y) = [x, y]"
proof -
  have "d \<notin> set x" "d \<notin> set y"
    using no_separator [OF assms(1,3)] no_separator [OF assms(2,4)] assms(5) by auto
  then show ?thesis by (simp add: split_on_append split_on_no_sep)
qed

lemma split_pair_enc:
  assumes "wf a" "enc a = Inr x" "0x3D \<in> separators"
  shows "split_pair (x @ 0x3D # y) = (x, y)"
proof -
  have "takeWhile (\<lambda>c. c \<noteq> 0x3D) (x @ 0x3D # y) = x"
    "dropWhile (\<lambda>c. c \<noteq> 0x3D) (x @ 0x3D # y) = 0x3D # y"
    using no_separator [OF assms(1,2)] assms(3)
    by (subst takeWhile_append2 dropWhile_append2; auto)+
  then show ?thesis by (simp add: split_pair_def)
qed

end

interpretation uri: component_codec encodeURIComponent decodeURIComponent well_formed
  "{0x2F, 0x23, 0x3F, 0x26}"
proof unfold_locales
  show "well_formed s \<Longrightarrow> \<exists>e. encodeURIComponent s = Inr e" for s
    by (simp add: encode_well_formed)
qed (simp_all add: decode_encode encode_no_separator encode_eq_Nil)

interpretation form: component_codec "\<lambda>s. Inr (form_encode s)" form_decode well_formed
  "{0x26, 0x3D, 0x2F, 0x23, 0x3F}"
proof unfold_locales
  show "set e \<inter> {0x26, 0x3D, 0x2F, 0x23, 0x3F} = {}" if "Inr (form_encode s) = Inr e" for s e
    using that form_encode_units by auto
qed (auto simp: form_decode_encode form_encode_eq_Nil)

definition wf_params :: "(jstr \<times> jstr) list \<Rightarrow> bool" where
  "wf_params ps = list_all (\<lambda>(k, v). well_formed k \<and> well_formed v) ps"

lemma wf_params_simps [simp]:
  "wf_params []" "wf_params ((k, v) # ps) \<longleftrightarrow> well_formed k \<and> well_formed v \<and> wf_params ps"
  by (simp_all add: wf_params_def)

lemma parse_search_params:
  assumes "ps \<noteq> []" "wf_params ps"
  shows "parse_query (search_params ps) = map (map_prod Inr Inr) ps"
proof -
  let ?part = "\<lambda>(k, v). form_encode k @ 0x3D # form_encode v"
  have "0x26 \<notin> set w" if "w \<in> set (map ?part ps)" for w
    using that form_encode_units by fastforce
  then have "split_on 0x26 (search_params ps) = map ?part ps"
    unfolding search_params_def using assms(1) by (intro split_on_join) auto
  moreover have "map_prod form_decode form_decode (split_pair (?part p)) = map_prod Inr Inr p"
    if "p \<in> set ps" for p
  proof (cases p)
    case (Pair k v)
    with that have "well_formed k" "well_formed v"
      using assms(2) by (auto simp: wf_params_def list_all_iff)
    with Pair show ?thesis by (simp add: form.split_pair_enc form_decode_encode)
  qed
  ultimately show ?thesis by (simp add: parse_query_def)
qed

end
