(* ===== verification/Router.thy ===== *)
theory Router imports Prelude JsString Uri begin

text \<open>
  The hash router (web/src/router.ts) and the navigation rail's mapping (web/src/lib/nav.ts):
  the routes, the parser of \<open>location.hash\<close>, the two link builders, and the state the
  \<open>useRoute\<close> hook keeps. The link builders rest on the codec interface of \<open>Uri\<close>.
\<close>

section \<open>Routes\<close>

datatype route =
    ROverview
  | RDetail (route_agent: jstr) (route_proc: jstr)
  | RCredentials
  | RNotifications
  | RErrors
  | RLogs (logs_agent: "jstr option") (logs_proc: "jstr option")

text \<open>
  The two regular expressions of \<open>parseHash\<close>: \<open>^#/logs/([^/]+)/([^/]+)$\<close> and
  \<open>^#/a/([^/]+)/p/([^/]+)$\<close>, as a prefix and the segments between slashes.
\<close>

definition match_logs :: "jstr \<Rightarrow> (jstr \<times> jstr) option" where
  "match_logs hash =
     (if startsWith hash (js ''#/logs/'')
      then (case split_on 0x2F (drop 7 hash) of
              [a, p] \<Rightarrow> if a \<noteq> [] \<and> p \<noteq> [] then Some (a, p) else None
            | _ \<Rightarrow> None)
      else None)"

definition match_detail :: "jstr \<Rightarrow> (jstr \<times> jstr) option" where
  "match_detail hash =
     (if startsWith hash (js ''#/a/'')
      then (case split_on 0x2F (drop 4 hash) of
              [a, k, p] \<Rightarrow> if a \<noteq> [] \<and> k = js ''p'' \<and> p \<noteq> [] then Some (a, p) else None
            | _ \<Rightarrow> None)
      else None)"

definition decode_pair :: "jstr \<times> jstr \<Rightarrow> (jstr \<Rightarrow> jstr \<Rightarrow> route) \<Rightarrow> route result" where
  "decode_pair m f =
     (case decodeURIComponent (fst m) of Inl e \<Rightarrow> Inl e | Inr a \<Rightarrow>
      case decodeURIComponent (snd m) of Inl e \<Rightarrow> Inl e | Inr p \<Rightarrow> Inr (f a p))"

definition parseHash :: "jstr \<Rightarrow> route result" where
  "parseHash hash =
     (if hash = js ''#/errors'' then Inr RErrors
      else if hash = js ''#/notifications'' then Inr RNotifications
      else if hash = js ''#/credentials'' then Inr RCredentials
      else if hash = js ''#/logs'' then Inr (RLogs None None)
      else case match_logs hash of
        Some m \<Rightarrow> decode_pair m (\<lambda>a p. RLogs (Some a) (Some p))
      | None \<Rightarrow>
        (case match_detail hash of
           Some m \<Rightarrow> decode_pair m RDetail
         | None \<Rightarrow> Inr ROverview))"

section \<open>Links\<close>

definition procHref :: "jstr \<Rightarrow> jstr \<Rightarrow> jstr result" where
  "procHref agent proc =
     (case encodeURIComponent agent of Inl e \<Rightarrow> Inl e | Inr a \<Rightarrow>
      case encodeURIComponent proc of Inl e \<Rightarrow> Inl e | Inr p \<Rightarrow>
      Inr (js ''#/a/'' @ a @ js ''/p/'' @ p))"

definition logsHref :: "jstr option \<Rightarrow> jstr option \<Rightarrow> jstr result" where
  "logsHref agent proc =
     (case (agent, proc) of
        (Some ag, Some pr) \<Rightarrow>
          (case encodeURIComponent ag of Inl e \<Rightarrow> Inl e | Inr a \<Rightarrow>
           case encodeURIComponent pr of Inl e \<Rightarrow> Inl e | Inr p \<Rightarrow>
           Inr (js ''#/logs/'' @ a @ 0x2F # p))
      | _ \<Rightarrow> Inr (js ''#/logs''))"

section \<open>The useRoute hook\<close>

text \<open>
  The initial state parses the current hash during the first render; the \<open>hashchange\<close>
  listener parses the new one. An error thrown by the initial parse leaves no state (the
  render fails), one thrown in the listener leaves the route as it was.
\<close>

record router =
  location_hash :: jstr
  current :: route

definition use_route_init :: "jstr \<Rightarrow> router result" where
  "use_route_init h =
     (case parseHash h of Inl e \<Rightarrow> Inl e | Inr r \<Rightarrow> Inr \<lparr>location_hash = h, current = r\<rparr>)"

definition on_hashchange :: "router \<Rightarrow> router" where
  "on_hashchange r =
     (case parseHash (location_hash r) of Inl _ \<Rightarrow> r | Inr x \<Rightarrow> r\<lparr>current := x\<rparr>)"

definition navigate :: "jstr \<Rightarrow> router \<Rightarrow> router" where
  "navigate h r = on_hashchange (r\<lparr>location_hash := h\<rparr>)"

section \<open>The navigation rail\<close>

datatype nav_item = NavFleet | NavErrors | NavLogs | NavNotif | NavCreds

fun navItemFor :: "route \<Rightarrow> nav_item option" where
  "navItemFor ROverview = Some NavFleet"
| "navItemFor (RDetail _ _) = Some NavFleet"
| "navItemFor RErrors = Some NavErrors"
| "navItemFor (RLogs _ _) = Some NavLogs"
| "navItemFor RNotifications = Some NavNotif"
| "navItemFor RCredentials = Some NavCreds"

section \<open>Lemmas\<close>

lemma slash_js: "js ''/p/'' = [0x2F, 0x70, 0x2F]"
  by (simp add: js_def unit_of_def)

lemma match_logs_intro:
  assumes "0x2F \<notin> set a" "0x2F \<notin> set p" "a \<noteq> []" "p \<noteq> []"
  shows "match_logs (js ''#/logs/'' @ a @ 0x2F # p) = Some (a, p)"
  using assms by (simp add: match_logs_def split_on_append split_on_no_sep)

lemma match_detail_intro:
  assumes "0x2F \<notin> set a" "0x2F \<notin> set p" "a \<noteq> []" "p \<noteq> []"
  shows "match_detail (js ''#/a/'' @ a @ js ''/p/'' @ p) = Some (a, p)"
proof -
  have "split_on 0x2F (a @ 0x2F # [0x70] @ 0x2F # p) = [a, [0x70], p]"
    using assms by (simp add: split_on_append split_on_no_sep)
  then show ?thesis
    using assms by (simp add: match_detail_def slash_js) (simp add: js_def unit_of_def)
qed

lemma detail_not_logs: "match_logs (js ''#/a/'' @ s) = None"
  by (simp add: match_logs_def startsWith_def js_def unit_of_def)

lemma detail_not_fixed:
  "js ''#/a/'' @ s \<noteq> js ''#/errors''" "js ''#/a/'' @ s \<noteq> js ''#/notifications''"
  "js ''#/a/'' @ s \<noteq> js ''#/credentials''" "js ''#/a/'' @ s \<noteq> js ''#/logs''"
  by (simp_all add: js_def unit_of_def)

lemma logs_not_fixed:
  "js ''#/logs/'' @ s \<noteq> js ''#/errors''" "js ''#/logs/'' @ s \<noteq> js ''#/notifications''"
  "js ''#/logs/'' @ s \<noteq> js ''#/credentials''" "js ''#/logs/'' @ s \<noteq> js ''#/logs''"
  by (simp_all add: js_def unit_of_def)

lemma encoded_segment:
  "encodeURIComponent s = Inr e \<Longrightarrow> s \<noteq> [] \<Longrightarrow>
   0x2F \<notin> set e \<and> e \<noteq> [] \<and> decodeURIComponent e = Inr s"
  using uri.no_separator [of s e] uri.empty [of s e] uri.inverse [of s e] encode_well_formed
  by auto

lemma procHref_cases:
  assumes "procHref agent proc = Inr h"
  obtains a p where "encodeURIComponent agent = Inr a" "encodeURIComponent proc = Inr p"
    "h = js ''#/a/'' @ a @ js ''/p/'' @ p"
  using assms by (auto simp: procHref_def split: sum.splits)

lemma parse_proc:
  assumes "procHref agent proc = Inr h" "agent \<noteq> []" "proc \<noteq> []"
  shows "parseHash h = Inr (RDetail agent proc)"
proof -
  obtain a p where ap: "encodeURIComponent agent = Inr a" "encodeURIComponent proc = Inr p"
    and h: "h = js ''#/a/'' @ a @ js ''/p/'' @ p"
    using assms(1) by (rule procHref_cases)
  note a = encoded_segment [OF ap(1) assms(2)] and p = encoded_segment [OF ap(2) assms(3)]
  have "match_detail h = Some (a, p)"
    unfolding h by (rule match_detail_intro) (use a p in auto)
  then show ?thesis
    using a p unfolding h
    by (simp add: parseHash_def detail_not_fixed detail_not_logs decode_pair_def)
qed

lemma parse_logs:
  assumes "logsHref (Some agent) (Some proc) = Inr h" "agent \<noteq> []" "proc \<noteq> []"
  shows "parseHash h = Inr (RLogs (Some agent) (Some proc))"
proof -
  obtain a p where ap: "encodeURIComponent agent = Inr a" "encodeURIComponent proc = Inr p"
    and h: "h = js ''#/logs/'' @ a @ 0x2F # p"
    using assms(1) by (auto simp: logsHref_def split: sum.splits)
  note a = encoded_segment [OF ap(1) assms(2)] and p = encoded_segment [OF ap(2) assms(3)]
  have "match_logs h = Some (a, p)"
    unfolding h by (rule match_logs_intro) (use a p in auto)
  then show ?thesis
    using a p unfolding h
    by (simp add: parseHash_def logs_not_fixed decode_pair_def)
qed

lemma procHref_total: "well_formed agent \<Longrightarrow> well_formed proc \<Longrightarrow> \<exists>h. procHref agent proc = Inr h"
  using uri.total [of agent] uri.total [of proc] by (auto simp: procHref_def)

section \<open>Properties\<close>

text \<open>C17. The link to a process and the hash parser agree: for every agent and process name
  that is a non-empty string without unpaired surrogates, \<open>procHref\<close> yields a link, and
  \<open>parseHash\<close> of that link is the detail route of exactly these two names, whatever slashes,
  percent signs or non-ASCII characters they hold.\<close>

theorem parseHash_procHref:
  assumes "well_formed agent" "well_formed proc" "agent \<noteq> []" "proc \<noteq> []"
  shows "\<exists>h. procHref agent proc = Inr h \<and> parseHash h = Inr (RDetail agent proc)"
  using procHref_total [OF assms(1,2)] parse_proc assms(3,4) by blast

theorem parseHash_procHref_witness:
  "\<exists>h. procHref (js ''dev/1'') [0x00E9, 0x25] = Inr h \<and>
       parseHash h = Inr (RDetail (js ''dev/1'') [0x00E9, 0x25])"
  by (rule parseHash_procHref) (simp_all add: well_formed_def js_def unit_of_def is_high_def is_low_def)

text \<open>Navigating to a log link opens the log page of the two names it was built from, and
  the navigation rail highlights Logs there.\<close>

lemma navigate_logsHref:
  assumes "logsHref (Some agent) (Some proc) = Inr h" "agent \<noteq> []" "proc \<noteq> []"
  shows "current (navigate h r) = RLogs (Some agent) (Some proc) \<and>
         navItemFor (current (navigate h r)) = Some NavLogs"
  using parse_logs [OF assms] by (simp add: navigate_def on_hashchange_def)

text \<open>Exactly which location hashes break the first render: \<open>useRoute\<close> has no initial route
  when the hash has the shape of a log or detail link and one of its two segments is not a
  valid percent encoding; every other hash yields a route. \<open>#/logs/%/web\<close> is such a hash.\<close>

lemma use_route_init_throws:
  "(is_error (use_route_init hash) \<longleftrightarrow>
    (\<exists>a p. (match_logs hash = Some (a, p) \<or> match_detail hash = Some (a, p)) \<and>
           (uri_decode a = None \<or> uri_decode p = None))) \<and>
   is_error (use_route_init (js ''#/logs/%/web''))"
proof -
  have excl: "match_detail hash = None" if "match_logs hash = Some m" for m
    using that by (auto simp: match_logs_def match_detail_def startsWith_iff js_def unit_of_def
        split: if_splits)
  have fixed: "match_logs h = None \<and> match_detail h = None"
    if "h \<in> {js ''#/errors'', js ''#/notifications'', js ''#/credentials'', js ''#/logs''}" for h
    using that by (auto simp: match_logs_def match_detail_def startsWith_def js_def unit_of_def)
  have iff: "is_error (parseHash hash) \<longleftrightarrow>
    (\<exists>a p. (match_logs hash = Some (a, p) \<or> match_detail hash = Some (a, p)) \<and>
           (uri_decode a = None \<or> uri_decode p = None))"
  proof (cases "hash \<in> {js ''#/errors'', js ''#/notifications'', js ''#/credentials'', js ''#/logs''}")
    case True
    then show ?thesis using fixed [OF True] by (auto simp: parseHash_def)
  next
    case False
    then show ?thesis
      using excl by (auto simp: parseHash_def decode_pair_def decodeURIComponent_def
          split: option.splits)
  qed
  have "uri_decode (js ''%'') = None" "match_logs (js ''#/logs/%/web'') = Some (js ''%'', js ''web'')"
    by (simp_all add: js_def unit_of_def match_logs_def startsWith_def)
  then have "is_error (parseHash (js ''#/logs/%/web''))"
    by (simp add: parseHash_def decode_pair_def decodeURIComponent_def)
  with iff show ?thesis
    by (auto simp: use_route_init_def is_error_def split: sum.splits)
qed

end
