(* ===== verification/JsNumber.thy ===== *)
theory JsNumber imports Complex_Main Prelude JsString begin

text \<open>
  JavaScript numbers. A value the code computes with is an exact rational (the rounding of
  each operation to a double is not modelled; integers below 2^53 are exact in both); a value
  that comes from \<open>Number(text)\<close> may also be NaN or an infinity.
\<close>

section \<open>Rounding and fixed-point text\<close>

text \<open>\<open>Math.round\<close> rounds halves up.\<close>

definition Math_round :: "rat \<Rightarrow> int" where
  "Math_round x = \<lfloor>x + 1 / 2\<rfloor>"

text \<open>\<open>x.toFixed(f)\<close> for \<open>|x| < 10^21\<close>: the nearest multiple of \<open>10^-f\<close>, the larger of two.\<close>

definition fixed_digits :: "nat \<Rightarrow> rat \<Rightarrow> jstr" where
  "fixed_digits f x =
     (let s = dec_nat (nat \<lfloor>x * 10 ^ f + 1 / 2\<rfloor>)
      in if f = 0 then s
         else let z = padStart (f + 1) 0x30 s
              in take (length z - f) z @ 0x2E # drop (length z - f) z)"

definition toFixed :: "nat \<Rightarrow> rat \<Rightarrow> jstr" where
  "toFixed f x = (if x < 0 then 0x2D # fixed_digits f (- x) else fixed_digits f x)"

lemma Math_round_bounds: "of_int (Math_round x) - 1 / 2 \<le> x \<and> x < of_int (Math_round x) + 1 / 2"
  unfolding Math_round_def by linarith

lemma Math_round_mono: "x \<le> y \<Longrightarrow> Math_round x \<le> Math_round y"
  unfolding Math_round_def by (simp add: floor_mono)

lemma Math_round_of_int [simp]: "Math_round (of_int i) = i"
  unfolding Math_round_def by linarith

text \<open>The value a text of digits and one point stands for.\<close>

definition fixed_value :: "nat \<Rightarrow> jstr \<Rightarrow> rat" where
  "fixed_value f s = of_nat (value_of_digits (filter (\<lambda>c. c \<noteq> 0x2E) s)) / 10 ^ f"

lemma value_padStart [simp]: "value_of_digits (padStart n 0x30 s) = value_of_digits s"
proof -
  have "foldl (\<lambda>v c. 10 * v + digit_value c) 0 (replicate k 0x30) = 0" for k
    by (induction k) (simp_all add: digit_value_def)
  then show ?thesis by (simp add: padStart_def value_of_digits_def)
qed

lemma digits_no_point: "(\<And>c. c \<in> set s \<Longrightarrow> is_digit c) \<Longrightarrow> filter (\<lambda>c. c \<noteq> 0x2E) s = s"
proof (rule filter_True, rule ballI)
  fix c assume "\<And>c. c \<in> set s \<Longrightarrow> is_digit c" "c \<in> set s"
  then have "is_digit c" by blast
  then show "c \<noteq> 0x2E" by (auto simp: is_digit_def)
qed

lemma filter_insert: "\<not> p x \<Longrightarrow> filter p (take k z @ x # drop k z) = filter p z"
proof -
  assume "\<not> p x"
  then have "filter p (take k z @ x # drop k z) = filter p (take k z) @ filter p (drop k z)"
    by simp
  also have "\<dots> = filter p (take k z @ drop k z)" by (simp only: filter_append)
  finally show ?thesis by simp
qed

lemma fixed_value_digits:
  "fixed_value f (fixed_digits f x) = of_nat (nat \<lfloor>x * 10 ^ f + 1 / 2\<rfloor>) / 10 ^ f"
proof -
  define n where "n = nat \<lfloor>x * 10 ^ f + 1 / 2\<rfloor>"
  define z where "z = padStart (f + 1) 0x30 (dec_nat n)"
  have "is_digit c" if "c \<in> set z" for c
    using that dec_nat_digits [of c n] by (auto simp: z_def padStart_def is_digit_def)
  then have z: "filter (\<lambda>c. c \<noteq> 0x2E) z = z" by (rule digits_no_point)
  have s: "filter (\<lambda>c. c \<noteq> 0x2E) (dec_nat n) = dec_nat n"
    by (rule digits_no_point) (rule dec_nat_digits)
  have "filter (\<lambda>c. c \<noteq> 0x2E) (fixed_digits f x) = (if f = 0 then dec_nat n else z)"
    using s z by (simp only: fixed_digits_def Let_def filter_insert n_def [symmetric] z_def [symmetric]
        if_distrib [of "filter _"])
  then show ?thesis
    by (simp add: fixed_value_def z_def n_def [symmetric])
qed

lemma fixed_digits_close:
  assumes "0 \<le> x" shows "\<bar>fixed_value f (fixed_digits f x) - x\<bar> \<le> 1 / (2 * 10 ^ f)"
proof -
  let ?n = "\<lfloor>x * 10 ^ f + 1 / 2\<rfloor>"
  have "0 \<le> ?n" using assms by simp
  then have "fixed_value f (fixed_digits f x) = of_int ?n / 10 ^ f"
    by (simp add: fixed_value_digits of_nat_nat)
  then have "fixed_value f (fixed_digits f x) - x = (of_int ?n - x * 10 ^ f) / 10 ^ f"
    by (simp add: diff_divide_distrib)
  then have "\<bar>fixed_value f (fixed_digits f x) - x\<bar> = \<bar>of_int ?n - x * 10 ^ f\<bar> / 10 ^ f"
    by (simp add: abs_divide)
  also have "\<dots> \<le> (1 / 2) / 10 ^ f"
  proof (rule divide_right_mono)
    show "\<bar>of_int ?n - x * 10 ^ f\<bar> \<le> 1 / 2" by linarith
  qed simp
  finally show ?thesis by simp
qed

section \<open>Number(text)\<close>

datatype jsnum = NaN | Infinity bool | Fin rat

definition num_of_digits :: "jstr \<Rightarrow> rat" where
  "num_of_digits s = of_nat (value_of_digits s)"

text \<open>An optional exponent \<open>e[+-]digits\<close> that ends the text.\<close>

definition parse_exponent :: "jstr \<Rightarrow> int option" where
  "parse_exponent s =
     (case s of
        [] \<Rightarrow> Some 0
      | e # r \<Rightarrow>
          if e = 0x65 \<or> e = 0x45
          then (let neg = (r \<noteq> [] \<and> hd r = 0x2D);
                    ds = (if r \<noteq> [] \<and> (hd r = 0x2D \<or> hd r = 0x2B) then tl r else r)
                in if ds \<noteq> [] \<and> list_all is_digit ds
                   then Some (if neg then - int (value_of_digits ds) else int (value_of_digits ds))
                   else None)
          else None)"

definition power10 :: "int \<Rightarrow> rat" where
  "power10 i = (if 0 \<le> i then 10 ^ nat i else 1 / 10 ^ nat (- i))"

definition parse_decimal :: "jstr \<Rightarrow> jsnum" where
  "parse_decimal s =
     (let ip = takeWhile is_digit s; r = dropWhile is_digit s;
          has_point = (r \<noteq> [] \<and> hd r = 0x2E);
          fp = (if has_point then takeWhile is_digit (tl r) else []);
          r' = (if has_point then dropWhile is_digit (tl r) else r)
      in if ip = [] \<and> fp = [] then NaN
         else case parse_exponent r' of None \<Rightarrow> NaN
            | Some e \<Rightarrow> Fin ((num_of_digits ip + num_of_digits fp / 10 ^ length fp) * power10 e))"

fun negate :: "jsnum \<Rightarrow> jsnum" where
  "negate (Fin x) = Fin (- x)"
| "negate (Infinity neg) = Infinity (\<not> neg)"
| "negate NaN = NaN"

definition parse_unsigned :: "jstr \<Rightarrow> jsnum" where
  "parse_unsigned s = (if s = js ''Infinity'' then Infinity False else parse_decimal s)"

text \<open>The value of a digit of a hexadecimal, octal or binary literal.\<close>

definition radix_digit :: "code_unit \<Rightarrow> nat" where
  "radix_digit c =
     (if is_digit c then unat c - 0x30
      else if is_upper c then unat c - 0x37
      else if is_lower c then unat c - 0x57 else 99)"

definition parse_radix :: "nat \<Rightarrow> jstr \<Rightarrow> jsnum" where
  "parse_radix b s =
     (if s \<noteq> [] \<and> list_all (\<lambda>c. radix_digit c < b) s
      then Fin (of_nat (foldl (\<lambda>v c. b * v + radix_digit c) 0 s)) else NaN)"

definition Number :: "jstr \<Rightarrow> jsnum" where
  "Number text =
     (case trim text of
        [] \<Rightarrow> Fin 0
      | c # r \<Rightarrow>
          if c = 0x30 \<and> r \<noteq> [] \<and> hd r \<in> {0x78, 0x58} then parse_radix 16 (tl r)
          else if c = 0x30 \<and> r \<noteq> [] \<and> hd r \<in> {0x6F, 0x4F} then parse_radix 8 (tl r)
          else if c = 0x30 \<and> r \<noteq> [] \<and> hd r \<in> {0x62, 0x42} then parse_radix 2 (tl r)
          else if c = 0x2D then negate (parse_unsigned r)
          else if c = 0x2B then parse_unsigned r
          else parse_unsigned (c # r))"

text \<open>Multiplication by a positive constant, as the forms use it.\<close>

fun scale :: "rat \<Rightarrow> jsnum \<Rightarrow> jsnum" where
  "scale k (Fin x) = Fin (x * k)"
| "scale k (Infinity neg) = Infinity neg"
| "scale k NaN = NaN"

lemma digit_not_space: "is_digit c \<Longrightarrow> \<not> is_space c"
  by (auto simp: is_digit_def is_space_def is_line_terminator_def word_le_nat_alt)

lemma trim_digits: "(\<And>c. c \<in> set s \<Longrightarrow> is_digit c) \<Longrightarrow> trim s = s"
proof -
  assume d: "\<And>c. c \<in> set s \<Longrightarrow> is_digit c"
  then have n: "\<not> is_space c" if "c \<in> set s" for c
    using that digit_not_space by blast
  then have "dropWhile is_space s = s" by (cases s) auto
  moreover have "dropWhile is_space (rev s) = rev s"
    using n by (cases s rule: rev_cases) auto
  ultimately show ?thesis by (simp add: trim_def)
qed

lemma Number_dec_nat: "Number (dec_nat n) = Fin (of_nat n)"
proof -
  let ?s = "dec_nat n"
  have d: "\<And>c. c \<in> set ?s \<Longrightarrow> is_digit c" by (rule dec_nat_digits)
  obtain c r where s: "?s = c # r" by (metis dec_nat_nonempty list.exhaust)
  have c: "c \<notin> {0x2D, 0x2B}" "hd ?s \<noteq> 0x49" using d [of c] s by (auto simp: is_digit_def)
  have r: "r \<noteq> [] \<longrightarrow> hd r \<notin> {0x78, 0x58, 0x6F, 0x4F, 0x62, 0x42}"
    using d [of "hd r"] s by (cases r) (auto simp: is_digit_def)
  have tw: "takeWhile is_digit ?s = ?s" "dropWhile is_digit ?s = []"
    using d by (auto simp: takeWhile_eq_all_conv)
  have "parse_decimal ?s = Fin (of_nat n)"
    by (simp add: parse_decimal_def tw Let_def parse_exponent_def num_of_digits_def power10_def)
      (simp add: value_of_digits_def)
  moreover have "?s \<noteq> js ''Infinity''"
    using c s by (auto simp: js_def unit_of_def)
  ultimately have "parse_unsigned ?s = Fin (of_nat n)" by (simp add: parse_unsigned_def)
  then show ?thesis
    using c r s trim_digits [of ?s] d by (auto simp: Number_def)
qed

end
