(* ===== verification/Format.thy ===== *)
theory Format imports JsNumber begin

text \<open>
  The text of durations and sizes (web/src/lib/format.ts and the local formatters of
  ProcessDetail.tsx and MetricChart.tsx).
\<close>

section \<open>relativeTime\<close>

definition relativeTime :: "int \<Rightarrow> rat \<Rightarrow> jstr" where
  "relativeTime unixSec nowSec =
     (if unixSec = 0 then em_dash
      else let s = max 0 \<lfloor>nowSec - of_int unixSec\<rfloor>
           in if s < 60 then dec_int s @ js ''s''
              else if s < 3600 then dec_int (s div 60) @ js ''m''
              else if s < 86400 then dec_int (s div 3600) @ js ''h''
              else let d = s div 86400; h = (s mod 86400) div 3600
                   in if h \<noteq> 0 then dec_int d @ js ''d '' @ dec_int h @ js ''h''
                      else dec_int d @ js ''d'')"

section \<open>formatBytes\<close>

definition formatBytes :: "rat \<Rightarrow> jstr" where
  "formatBytes n =
     (if n \<le> 0 then js ''0 B''
      else let gb = n / 1024 ^ 3; mb = n / 1024 ^ 2; kb = n / 1024
           in if 1 \<le> gb then toFixed 1 gb @ js '' GB''
              else if 1 \<le> mb then dec_int (Math_round mb) @ js '' MB''
              else if 1 \<le> kb then dec_int (Math_round kb) @ js '' KB''
              else dec_int (Math_round n) @ js '' B'')"

section \<open>formatDateShort\<close>

text \<open>
  The text of a date is the browser's: \<open>toLocaleDateString\<close> of a time in milliseconds, for a time a
  \<open>Date\<close> can hold (at most 8.64e15 milliseconds from the epoch).
\<close>

definition formatDateShort :: "(int \<Rightarrow> jstr) \<Rightarrow> int \<Rightarrow> jstr" where
  "formatDateShort toLocaleDateString unixSec =
     (let ms = unixSec * 1000
      in if \<bar>ms\<bar> \<le> 8640000000000000 then toLocaleDateString ms else js ''Invalid Date'')"

section \<open>Formatters of single components\<close>

definition mib :: "rat \<Rightarrow> jstr" where
  "mib b = (if b \<le> 0 then em_dash else toFixed 1 (b / 1048576))"

datatype metric = Cpu | Mem

definition fmt :: "metric \<Rightarrow> rat \<Rightarrow> jstr" where
  "fmt m v = (case m of Cpu \<Rightarrow> toFixed 0 v @ js ''%'' | Mem \<Rightarrow> toFixed 0 (v / (1024 * 1024)) @ js '' MB'')"

definition fmtPrecise :: "metric \<Rightarrow> rat \<Rightarrow> jstr" where
  "fmtPrecise m v = (case m of Cpu \<Rightarrow> toFixed 1 v @ js ''%'' | Mem \<Rightarrow> toFixed 1 (v / (1024 * 1024)) @ js '' MB'')"

section \<open>What the texts say\<close>

text \<open>
  A duration as a reader understands it: the whole units shown, the seconds they stand for
  and the length of the smallest unit shown.
\<close>

datatype duration = Seconds int | Minutes int | Hours int | Days int | DaysHours int int

fun duration_text :: "duration \<Rightarrow> jstr" where
  "duration_text (Seconds k) = dec_int k @ js ''s''"
| "duration_text (Minutes k) = dec_int k @ js ''m''"
| "duration_text (Hours k) = dec_int k @ js ''h''"
| "duration_text (Days d) = dec_int d @ js ''d''"
| "duration_text (DaysHours d h) = dec_int d @ js ''d '' @ dec_int h @ js ''h''"

fun duration_seconds :: "duration \<Rightarrow> int" where
  "duration_seconds (Seconds k) = k"
| "duration_seconds (Minutes k) = 60 * k"
| "duration_seconds (Hours k) = 3600 * k"
| "duration_seconds (Days d) = 86400 * d"
| "duration_seconds (DaysHours d h) = 86400 * d + 3600 * h"

fun duration_unit :: "duration \<Rightarrow> int" where
  "duration_unit (Seconds _) = 1"
| "duration_unit (Minutes _) = 60"
| "duration_unit (Hours _) = 3600"
| "duration_unit (Days _) = 3600"
| "duration_unit (DaysHours _ _) = 3600"

text \<open>The number shown is in the range of its unit: no \<open>60s\<close>, \<open>60m\<close>, \<open>24h\<close> or \<open>1d 24h\<close>.\<close>

fun normalised :: "duration \<Rightarrow> bool" where
  "normalised (Seconds k) \<longleftrightarrow> 0 \<le> k \<and> k < 60"
| "normalised (Minutes k) \<longleftrightarrow> 1 \<le> k \<and> k < 60"
| "normalised (Hours k) \<longleftrightarrow> 1 \<le> k \<and> k < 24"
| "normalised (Days d) \<longleftrightarrow> 1 \<le> d"
| "normalised (DaysHours d h) \<longleftrightarrow> 1 \<le> d \<and> 1 \<le> h \<and> h < 24"

definition duration_of :: "int \<Rightarrow> duration" where
  "duration_of s =
     (if s < 60 then Seconds s else if s < 3600 then Minutes (s div 60)
      else if s < 86400 then Hours (s div 3600)
      else if (s mod 86400) div 3600 = 0 then Days (s div 86400)
      else DaysHours (s div 86400) ((s mod 86400) div 3600))"

lemma relativeTime_duration:
  "unixSec \<noteq> 0 \<Longrightarrow>
   relativeTime unixSec nowSec = duration_text (duration_of (max 0 \<lfloor>nowSec - of_int unixSec\<rfloor>))"
  by (simp add: relativeTime_def duration_of_def Let_def)

lemma duration_of_normalised: "0 \<le> s \<Longrightarrow> normalised (duration_of s)"
proof -
  assume "0 \<le> s"
  have "0 \<le> (s mod 86400) div 3600" "(s mod 86400) div 3600 < 24"
    by (simp_all add: pos_imp_zdiv_nonneg_iff div_less_iff_less_mult)
  then show ?thesis
    using \<open>0 \<le> s\<close> by (auto simp: duration_of_def div_less_iff_less_mult)
qed

lemma div_close: "0 < k \<Longrightarrow> k * (s div k) \<le> s \<and> s < k * (s div k) + k" for s k :: int
  using pos_mod_bound [of k s] pos_mod_sign [of k s] mult_div_mod_eq [of k s] by linarith

lemma duration_of_close:
  assumes "0 \<le> s"
  shows "duration_seconds (duration_of s) \<le> s \<and>
    s < duration_seconds (duration_of s) + duration_unit (duration_of s)"
proof -
  define d r h where "d = s div 86400" and "r = s mod 86400" and "h = r div 3600"
  have days: "s = 86400 * d + r" "3600 * h \<le> r" "r < 3600 * h + 3600"
    using div_close [of 3600 r] by (simp_all add: d_def r_def h_def)
  consider "s < 60" | "60 \<le> s" "s < 3600" | "3600 \<le> s" "s < 86400" | "86400 \<le> s" by linarith
  then show ?thesis
  proof cases
    case 4
    then have "duration_of s = (if h = 0 then Days d else DaysHours d h)"
      by (simp add: duration_of_def d_def r_def h_def)
    with days show ?thesis by auto
  qed (use div_close [of 60 s] div_close [of 3600 s] in \<open>simp_all add: duration_of_def\<close>)
qed

text \<open>What \<open>relativeTime\<close> shows for a timestamp is a duration in normal form (no 60s, 60m
  or 24h) that is at most the elapsed whole seconds and falls short of them by less than the
  smallest unit shown; a timestamp in the future counts as zero seconds ago.\<close>

lemma relativeTime_correct:
  assumes "unixSec \<noteq> 0"
  shows "\<exists>d. relativeTime unixSec nowSec = duration_text d \<and> normalised d \<and>
    duration_seconds d \<le> max 0 \<lfloor>nowSec - of_int unixSec\<rfloor> \<and>
    max 0 \<lfloor>nowSec - of_int unixSec\<rfloor> < duration_seconds d + duration_unit d"
proof (intro exI conjI)
  let ?s = "max 0 \<lfloor>nowSec - of_int unixSec\<rfloor>"
  show "relativeTime unixSec nowSec = duration_text (duration_of ?s)"
    using assms by (rule relativeTime_duration)
  show "normalised (duration_of ?s)" by (simp add: duration_of_normalised)
qed (use duration_of_close [of "max 0 \<lfloor>nowSec - of_int unixSec\<rfloor>"] in auto)

text \<open>
  A size as a reader understands it: a whole number of B, KB or MB, or tenths of a GB, and
  when such a reading fits a size.
\<close>

datatype size_reading = Bytes int | Kilobytes int | Megabytes int | Gigabytes rat

fun reading_text :: "size_reading \<Rightarrow> jstr" where
  "reading_text (Bytes k) = dec_int k @ js '' B''"
| "reading_text (Kilobytes k) = dec_int k @ js '' KB''"
| "reading_text (Megabytes k) = dec_int k @ js '' MB''"
| "reading_text (Gigabytes x) = toFixed 1 x @ js '' GB''"

fun reading_fits :: "rat \<Rightarrow> size_reading \<Rightarrow> bool" where
  "reading_fits n (Bytes k) \<longleftrightarrow> n < 1024 \<and> k \<le> 1024 \<and> \<bar>n - of_int k\<bar> \<le> 1 / 2"
| "reading_fits n (Kilobytes k) \<longleftrightarrow>
     1024 \<le> n \<and> n < 1024 ^ 2 \<and> 1 \<le> k \<and> k \<le> 1024 \<and> \<bar>n - 1024 * of_int k\<bar> \<le> 1024 / 2"
| "reading_fits n (Megabytes k) \<longleftrightarrow>
     1024 ^ 2 \<le> n \<and> n < 1024 ^ 3 \<and> 1 \<le> k \<and> k \<le> 1024 \<and> \<bar>n - 1024 ^ 2 * of_int k\<bar> \<le> 1024 ^ 2 / 2"
| "reading_fits n (Gigabytes x) \<longleftrightarrow> 1024 ^ 3 \<le> n \<and> n = x * 1024 ^ 3 \<and>
     \<bar>x - fixed_value 1 (toFixed 1 x)\<bar> \<le> 1 / 20"

lemma Math_round_close: "\<bar>x - of_int (Math_round x)\<bar> \<le> 1 / 2"
  using Math_round_bounds [of x] by linarith

lemma round_reading:
  assumes "1 \<le> x" "x < 1024"
  shows "1 \<le> Math_round x \<and> Math_round x \<le> 1024 \<and> \<bar>x - of_int (Math_round x)\<bar> \<le> 1 / 2"
  using Math_round_mono [of x 1024] Math_round_mono [of 1 x] Math_round_of_int [of 1024]
    Math_round_of_int [of 1] Math_round_close [of x] assms by simp

text \<open>\<open>formatBytes\<close> of a positive size shows a reading that fits it: the largest binary unit
  the size reaches, a number that is off by at most half of that unit (a twentieth for GB),
  and never more than 1024 of a unit.\<close>

lemma formatBytes_correct:
  assumes "0 < n" shows "\<exists>r. formatBytes n = reading_text r \<and> reading_fits n r"
proof -
  consider (B) "n < 1024" | (KB) "1024 \<le> n" "n < 1024 ^ 2" | (MB) "1024 ^ 2 \<le> n" "n < 1024 ^ 3"
    | (GB) "1024 ^ 3 \<le> n" by linarith
  then show ?thesis
  proof cases
    case B
    have "Math_round n \<le> 1024"
      using Math_round_mono [of n 1024] Math_round_of_int [of 1024] B by simp
    with B assms Math_round_close [of n] show ?thesis
      by (intro exI [of _ "Bytes (Math_round n)"]) (simp add: formatBytes_def Let_def)
  next
    case KB
    let ?k = "Math_round (n / 1024)"
    have r: "1 \<le> ?k" "?k \<le> 1024" "\<bar>n / 1024 - of_int ?k\<bar> \<le> 1 / 2"
      using round_reading [of "n / 1024"] KB by auto
    from r(3) have "\<bar>n - 1024 * of_int ?k\<bar> \<le> 1024 / 2" by linarith
    with KB r show ?thesis
      by (intro exI [of _ "Kilobytes ?k"]) (simp add: formatBytes_def Let_def)
  next
    case MB
    let ?k = "Math_round (n / 1024 ^ 2)"
    have r: "1 \<le> ?k" "?k \<le> 1024" "\<bar>n / 1024 ^ 2 - of_int ?k\<bar> \<le> 1 / 2"
      using round_reading [of "n / 1024 ^ 2"] MB by auto
    then have "\<bar>n / 1048576 - of_int ?k\<bar> \<le> 1 / 2" by simp
    then have "\<bar>n - 1048576 * of_int ?k\<bar> \<le> 1048576 / 2" by linarith
    with MB r show ?thesis
      by (intro exI [of _ "Megabytes ?k"]) (simp add: formatBytes_def Let_def)
  next
    case GB
    then have "0 \<le> n / 1024 ^ 3" by simp
    with GB fixed_digits_close [of "n / 1024 ^ 3" 1] show ?thesis
      by (intro exI [of _ "Gigabytes (n / 1024 ^ 3)"])
        (auto simp: formatBytes_def Let_def toFixed_def abs_minus_commute)
  qed
qed

end
