(* ===== verification/ApiTypes.thy ===== *)
theory ApiTypes imports JsNumber begin

text \<open>
  The data the dashboard exchanges with the server (the types of web/src/api.ts), JSON
  documents as request bodies, and HTTP requests and responses as the code sees them.
\<close>

section \<open>JSON documents\<close>

datatype json =
    JNull
  | JBool bool
  | JNum jsnum
  | JStr jstr
  | JArr "json list"
  | JObj "(jstr \<times> json) list"

text \<open>
  \<open>JSON.stringify\<close> as a map on documents: NaN and the infinities become \<open>null\<close>. A property
  whose value is undefined is not written; \<open>opt_field\<close> builds such a property.
\<close>

fun stringify :: "json \<Rightarrow> json" where
  "stringify (JNum (Fin x)) = JNum (Fin x)"
| "stringify (JNum _) = JNull"
| "stringify (JArr xs) = JArr (map stringify xs)"
| "stringify (JObj ps) = JObj (map (\<lambda>(k, v). (k, stringify v)) ps)"
| "stringify d = d"

definition opt_field :: "jstr \<Rightarrow> ('a \<Rightarrow> json) \<Rightarrow> 'a option \<Rightarrow> (jstr \<times> json) list" where
  "opt_field k f v = (case v of None \<Rightarrow> [] | Some x \<Rightarrow> [(k, f x)])"

definition json_int :: "int \<Rightarrow> json" where "json_int i = JNum (Fin (of_int i))"

definition json_strs :: "jstr list \<Rightarrow> json" where "json_strs xs = JArr (map JStr xs)"

definition json_record :: "(jstr \<times> jstr) list \<Rightarrow> json" where
  "json_record ps = JObj (map (\<lambda>(k, v). (k, JStr v)) ps)"

text \<open>Looking a property up, as a server does.\<close>

fun field :: "jstr \<Rightarrow> json \<Rightarrow> json option" where
  "field k (JObj ps) = map_of ps k"
| "field k _ = None"

section \<open>Requests and responses\<close>

datatype http_method = GET | POST | PUT | DELETE

record request =
  req_method :: http_method
  req_url :: jstr
  req_body :: "json option"

text \<open>
  A response as the handlers observe it: its status, the value of \<open>r.json()\<close> at the type
  the code asserts for it, the \<open>error\<close> property of the same document, and \<open>r.text()\<close>. Both
  views of the document are \<open>Inl\<close> when the body is not JSON.
\<close>

record 'a response =
  status :: nat
  json_body :: "'a result"
  error_field :: "jstr option result"
  body_text :: jstr

text \<open>A response with a status and no readable body.\<close>

definition empty_response :: "nat \<Rightarrow> 'a response" where
  "empty_response n =
     \<lparr>status = n, json_body = Inl (js_Error (js ''no json'')),
      error_field = Inl (js_Error (js ''no json'')), body_text = []\<rparr>"

lemma empty_response_simps [simp]:
  "status (empty_response n) = n"
  "json_body (empty_response n) = Inl (js_Error (js ''no json''))"
  "error_field (empty_response n) = Inl (js_Error (js ''no json''))"
  "body_text (empty_response n) = []"
  by (simp_all add: empty_response_def)

text \<open>A 200 with a document.\<close>

definition answered :: "'a \<Rightarrow> 'a response" where
  "answered x = \<lparr>status = 200, json_body = Inr x, error_field = Inr None, body_text = []\<rparr>"

text \<open>\<open>fetch\<close> rejects with an error of the browser, or resolves to a response.\<close>

datatype 'a fetched = NetworkError js_error | Response "'a response"

definition resp_ok :: "'a response \<Rightarrow> bool" where
  "resp_ok r \<longleftrightarrow> 200 \<le> status r \<and> status r \<le> 299"

text \<open>
  Awaiting a request: building it may throw, the network may reject it, and otherwise the
  handler of the response decides.
\<close>

definition await_fetch ::
  "request result \<Rightarrow> (request \<Rightarrow> 'a fetched) \<Rightarrow> ('a response \<Rightarrow> 'b result) \<Rightarrow> 'b result" where
  "await_fetch req net handle =
     (case req of Inl e \<Rightarrow> Inl e | Inr r \<Rightarrow>
      case net r of NetworkError e \<Rightarrow> Inl e | Response resp \<Rightarrow> handle resp)"

text \<open>The same for a request that is known to have been sent.\<close>

definition reply :: "'a fetched \<Rightarrow> ('a response \<Rightarrow> 'b result) \<Rightarrow> 'b result" where
  "reply f handle = (case f of NetworkError e \<Rightarrow> Inl e | Response resp \<Rightarrow> handle resp)"

lemma reply_simps [simp]:
  "reply (NetworkError e) h = Inl e" "reply (Response r) h = h r"
  by (simp_all add: reply_def)

lemma await_fetch_simps [simp]:
  "await_fetch (Inl e) net h = Inl e"
  "await_fetch (Inr r) net h = (case net r of NetworkError e \<Rightarrow> Inl e | Response resp \<Rightarrow> h resp)"
  by (simp_all add: await_fetch_def)

section \<open>The data of the API\<close>

datatype source_kind = SrcCommand | SrcGit

record proc =
  p_name :: jstr
  p_state :: jstr
  p_pid :: int
  p_uptime_ms :: int
  p_restarts :: int
  p_cpu :: rat
  p_mem :: int
  p_source :: "source_kind option"
  p_detail :: "jstr option"
  p_credential :: "jstr option"
  p_threads :: int
  p_open_fds :: int
  p_exit_code :: int
  p_exit_reason :: "jstr option"
  p_restarts_24h :: int
  p_last_restart_unix :: "int option"

record agent_host =
  cpu_percent :: rat
  load1 :: rat
  load5 :: rat
  load15 :: rat
  mem_total :: int
  mem_used :: int
  mem_used_pct :: rat
  net_rx_bps :: rat
  net_tx_bps :: rat

record agent =
  a_name :: jstr
  a_connected :: bool
  a_last_seen_unix :: int
  a_procs :: "proc list"
  a_hostname :: "jstr option"
  a_ip :: "jstr option"
  a_os :: "jstr option"
  a_arch :: "jstr option"
  a_version :: "jstr option"
  a_boot_unix :: "int option"
  a_host :: "agent_host option"

record bucket =
  b_ts :: int
  cpu_avg :: rat
  cpu_max :: rat
  mem_avg :: rat
  mem_max :: rat

record proc_metrics =
  pm_name :: jstr
  pm_buckets :: "bucket list"

record agent_metrics =
  am_agent :: jstr
  am_procs :: "proc_metrics list"

record log_line =
  l_ts :: int
  l_name :: jstr
  l_instance :: int
  l_stderr :: bool
  l_text :: jstr

record logs_response =
  lr_cursor :: int
  lr_lines :: "log_line list"

record control_result =
  cr_ok :: bool
  cr_error :: "jstr option"

record command_source =
  cs_name :: jstr
  cs_cmd :: jstr
  cs_args :: "jstr list option"
  cs_cwd :: "jstr option"
  cs_instances :: "jsnum option"
  cs_env :: "(jstr \<times> jstr) list option"
  cs_restart :: "jstr option"
  cs_max_restarts :: "jsnum option"
  cs_kill_timeout :: "jstr option"
  cs_max_memory_restart :: "jsnum option"

record git_source =
  gs_name :: jstr
  gs_cmd :: jstr
  gs_args :: "jstr list option"
  gs_instances :: "jsnum option"
  gs_env :: "(jstr \<times> jstr) list option"
  gs_restart :: "jstr option"
  gs_repo :: jstr
  gs_ref :: "jstr option"
  gs_build :: "jstr option"
  gs_subdir :: "jstr option"
  gs_credential :: "jstr option"
  gs_max_memory_restart :: "jsnum option"

datatype app_source = CommandApp command_source | GitApp git_source

record credential_meta =
  cm_name :: jstr
  cm_type :: jstr
  cm_username :: jstr
  cm_public_key :: "jstr option"
  cm_created_at :: int

record dir_entry =
  de_name :: jstr
  de_is_dir :: bool
  de_size :: int
  de_mod_unix :: int
  de_mode :: int

record dir_listing =
  dl_path :: jstr
  dl_entries :: "dir_entry list"

record file_content =
  fc_path :: jstr
  fc_content :: jstr
  fc_size :: int
  fc_truncated :: bool
  fc_binary :: bool

record commit_result =
  sha :: jstr
  branch :: jstr

datatype channel_type = Webhook | Telegram | Slack | Email

record notif_channel =
  nc_name :: jstr
  nc_type :: channel_type
  nc_enabled :: bool
  nc_config :: "(jstr \<times> jstr) list"
  nc_has_secret :: bool

record notif_rule =
  nr_name :: jstr
  nr_enabled :: bool
  nr_events :: "jstr list"
  nr_agent :: jstr
  nr_process :: jstr
  nr_channels :: "jstr list"

record notif_settings =
  ns_cooldown :: jsnum
  ns_suppress_recovery :: "bool option"
  ns_overrides :: "(jstr \<times> jsnum) list option"
  ns_coalesce :: "jsnum option"

record notif_config =
  ng_channels :: "notif_channel list"
  ng_rules :: "notif_rule list"
  ng_settings :: notif_settings

record ssh_result =
  ssh_ok :: bool
  ssh_public_key :: "jstr option"
  ssh_error :: "jstr option"

record test_result =
  tr_name :: jstr
  tr_ok :: bool
  tr_error :: "jstr option"

record test_all_result =
  ta_ok :: bool
  ta_sent :: int
  ta_results :: "test_result list"
  ta_error :: "jstr option"

record connect_info =
  ci_token :: jstr
  ci_fingerprint :: jstr
  ci_default_address :: jstr

record err_signature =
  es_id :: jstr
  es_sample :: jstr
  es_source :: "jstr option"
  es_agent :: jstr
  es_proc :: jstr
  es_affected :: "jstr list"
  es_count :: int
  es_first_unix :: int
  es_last_unix :: int
  es_buckets :: "int list"
  es_acknowledged :: bool

record err_cluster =
  ec_errors :: int
  ec_signatures :: int
  ec_unacknowledged :: int
  ec_affected_procs :: int
  ec_last_error_unix :: int

record errors_response =
  er_range :: jstr
  er_since :: int
  er_now :: int
  er_cluster :: err_cluster
  er_signatures :: "err_signature list"
  er_truncated :: bool

record update_status =
  us_enabled :: bool
  us_current :: jstr
  us_latest :: jstr
  us_outdated :: bool
  us_checked_at :: jstr
  us_outdated_agents :: "jstr list option"

end
