(* ===== verification/Api.thy ===== *)
theory Api imports ApiTypes Uri begin

text \<open>
  web/src/api.ts, function by function: what request each call sends (\<open>_req\<close>), how it turns
  the response into a value or a thrown error (\<open>_res\<close>), and the call itself, which awaits
  the network, a parameter. A handler with a \<open>Inl\<close> result throws.
\<close>

section \<open>Shared shapes of requests and handlers\<close>

definition get :: "jstr \<Rightarrow> request" where
  "get u = \<lparr>req_method = GET, req_url = u, req_body = None\<rparr>"

definition send :: "http_method \<Rightarrow> jstr \<Rightarrow> (jstr \<times> json) list \<Rightarrow> request" where
  "send m u ps = \<lparr>req_method = m, req_url = u, req_body = Some (stringify (JObj ps))\<rparr>"

definition bare :: "http_method \<Rightarrow> jstr \<Rightarrow> request" where
  "bare m u = \<lparr>req_method = m, req_url = u, req_body = None\<rparr>"

text \<open>A URL with one component, as in \<open>`/api/credentials/${encodeURIComponent(name)}`\<close>.\<close>

definition url1 :: "jstr \<Rightarrow> jstr \<Rightarrow> jstr \<Rightarrow> jstr result" where
  "url1 pre s post =
     (case encodeURIComponent s of Inl e \<Rightarrow> Inl e | Inr x \<Rightarrow> Inr (pre @ x @ post))"

definition app_url :: "jstr \<Rightarrow> jstr \<Rightarrow> jstr \<Rightarrow> jstr result" where
  "app_url agent app rest =
     (case encodeURIComponent agent of Inl e \<Rightarrow> Inl e | Inr a \<Rightarrow>
      case encodeURIComponent app of Inl e \<Rightarrow> Inl e | Inr p \<Rightarrow>
      Inr (js ''/api/fleet/'' @ a @ js ''/apps/'' @ p @ rest))"

definition map_result :: "('a \<Rightarrow> 'b) \<Rightarrow> 'a result \<Rightarrow> 'b result" where
  "map_result f r = (case r of Inl e \<Rightarrow> Inl e | Inr x \<Rightarrow> Inr (f x))"

definition unauthorized :: js_error where
  "unauthorized = js_Error (js ''unauthorized'')"

text \<open>\<open>(j.error as string) ?? `error ${r.status}`\<close> in a \<open>try\<close> whose \<open>catch\<close> gives the same text.\<close>

definition status_error :: "'a response \<Rightarrow> jstr" where
  "status_error r = js ''error '' @ dec_nat (status r)"

definition error_or_status :: "'a response \<Rightarrow> jstr" where
  "error_or_status r =
     (case error_field r of Inl _ \<Rightarrow> status_error r | Inr e \<Rightarrow> nullish e (status_error r))"

definition failed :: "jstr \<Rightarrow> control_result" where
  "failed e = \<lparr>cr_ok = False, cr_error = Some e\<rparr>"

definition succeeded :: control_result where
  "succeeded = \<lparr>cr_ok = True, cr_error = None\<rparr>"

text \<open>\<open>if (r.status === 401) throw new Error("unauthorized"); return r.json()\<close>\<close>

definition json_or_401 :: "'a response \<Rightarrow> 'a result" where
  "json_or_401 r = (if status r = 401 then Inl unauthorized else json_body r)"

section \<open>Session\<close>

text \<open>The JSON view of the session endpoint is its \<open>user\<close> property.\<close>

definition getSession_req :: request where
  "getSession_req = get (js ''/api/session'')"

definition getSession_res :: "jstr response \<Rightarrow> jstr option result" where
  "getSession_res r = (if status r = 200 then map_result Some (json_body r) else Inr None)"

definition login_req :: "jstr \<Rightarrow> jstr \<Rightarrow> request" where
  "login_req user pass =
     send POST (js ''/api/login'') [(js ''User'', JStr user), (js ''Pass'', JStr pass)]"

definition login_res :: "'a response \<Rightarrow> bool result" where
  "login_res r = Inr (status r = 200)"

definition logout_req :: request where
  "logout_req = bare POST (js ''/api/logout'')"

definition logout_res :: "'a response \<Rightarrow> unit result" where
  "logout_res r = Inr ()"

section \<open>Fleet, metrics and logs\<close>

definition getFleet_req :: request where
  "getFleet_req = get (js ''/api/fleet'')"

definition getFleet_res :: "agent list response \<Rightarrow> agent list result" where
  "getFleet_res = json_or_401"

definition getMetrics_req :: "int \<Rightarrow> request" where
  "getMetrics_req sinceMs = get (js ''/api/metrics?since='' @ dec_int sinceMs)"

definition getMetrics_res :: "agent_metrics list response \<Rightarrow> agent_metrics list result" where
  "getMetrics_res = json_or_401"

definition getMetricsForProc_req :: "jstr \<Rightarrow> jstr \<Rightarrow> int \<Rightarrow> int \<Rightarrow> request" where
  "getMetricsForProc_req agent selector sinceMs bucketMs =
     get (js ''/api/metrics?'' @ search_params
       [(js ''agent'', agent), (js ''selector'', selector), (js ''since'', dec_int sinceMs),
        (js ''bucket'', dec_int bucketMs)])"

definition getMetricsForProc_res :: "agent_metrics list response \<Rightarrow> agent_metrics list result" where
  "getMetricsForProc_res = json_or_401"

record log_opts =
  lo_stream :: jstr
  lo_limit :: int
  lo_after :: int
  lo_q :: jstr

definition getLogs_req :: "jstr \<Rightarrow> jstr \<Rightarrow> log_opts \<Rightarrow> request" where
  "getLogs_req agent selector opts =
     get (js ''/api/logs?'' @ search_params
       [(js ''agent'', agent), (js ''selector'', selector), (js ''stream'', lo_stream opts),
        (js ''limit'', dec_int (lo_limit opts)), (js ''after'', dec_int (lo_after opts)),
        (js ''q'', lo_q opts)])"

definition getLogs_res :: "logs_response response \<Rightarrow> logs_response result" where
  "getLogs_res = json_or_401"

text \<open>The JSON view of the log statistics is the \<open>counts\<close> property, which may be absent.\<close>

definition getLogStats_req :: "jstr \<Rightarrow> request result" where
  "getLogStats_req agent = map_result get (url1 (js ''/api/logstats?agent='') agent [])"

definition getLogStats_res :: "(jstr \<times> int) list option response \<Rightarrow> (jstr \<times> int) list result" where
  "getLogStats_res r = map_result (\<lambda>c. nullish c []) (json_or_401 r)"

section \<open>Control and deployment\<close>

datatype control_action = Restart | Stop | Delete | Reload | Reset | Flush

fun action_text :: "control_action \<Rightarrow> jstr" where
  "action_text Restart = js ''restart''"
| "action_text Stop = js ''stop''"
| "action_text Delete = js ''delete''"
| "action_text Reload = js ''reload''"
| "action_text Reset = js ''reset''"
| "action_text Flush = js ''flush''"

definition control_req :: "jstr \<Rightarrow> jstr \<Rightarrow> control_action \<Rightarrow> request" where
  "control_req agent selector action =
     send POST (js ''/api/control'')
       [(js ''agent'', JStr agent), (js ''selector'', JStr selector),
        (js ''action'', JStr (action_text action))]"

definition control_res :: "control_result response \<Rightarrow> control_result result" where
  "control_res r =
     (if status r = 200 then json_body r else Inr (failed (error_or_status r)))"

definition control ::
  "(request \<Rightarrow> control_result fetched) \<Rightarrow> jstr \<Rightarrow> jstr \<Rightarrow> control_action \<Rightarrow> control_result result" where
  "control net agent selector action =
     await_fetch (Inr (control_req agent selector action)) net control_res"

fun source_json :: "app_source \<Rightarrow> json" where
  "source_json (CommandApp s) = JObj
     ([(js ''type'', JStr (js ''command'')), (js ''name'', JStr (cs_name s)), (js ''cmd'', JStr (cs_cmd s))]
      @ opt_field (js ''args'') json_strs (cs_args s)
      @ opt_field (js ''cwd'') JStr (cs_cwd s)
      @ opt_field (js ''instances'') JNum (cs_instances s)
      @ opt_field (js ''env'') json_record (cs_env s)
      @ opt_field (js ''restart'') JStr (cs_restart s)
      @ opt_field (js ''max_restarts'') JNum (cs_max_restarts s)
      @ opt_field (js ''kill_timeout'') JStr (cs_kill_timeout s)
      @ opt_field (js ''max_memory_restart'') JNum (cs_max_memory_restart s))"
| "source_json (GitApp s) = JObj
     ([(js ''type'', JStr (js ''git'')), (js ''name'', JStr (gs_name s)), (js ''cmd'', JStr (gs_cmd s)),
       (js ''repo'', JStr (gs_repo s))]
      @ opt_field (js ''args'') json_strs (gs_args s)
      @ opt_field (js ''instances'') JNum (gs_instances s)
      @ opt_field (js ''env'') json_record (gs_env s)
      @ opt_field (js ''restart'') JStr (gs_restart s)
      @ opt_field (js ''ref'') JStr (gs_ref s)
      @ opt_field (js ''build'') JStr (gs_build s)
      @ opt_field (js ''subdir'') JStr (gs_subdir s)
      @ opt_field (js ''credential'') JStr (gs_credential s)
      @ opt_field (js ''max_memory_restart'') JNum (gs_max_memory_restart s))"

definition addApp_req :: "jstr \<Rightarrow> app_source \<Rightarrow> request" where
  "addApp_req agent src =
     send POST (js ''/api/apps'') [(js ''agent'', JStr agent), (js ''source'', source_json src)]"

definition addApp_res :: "control_result response \<Rightarrow> control_result result" where
  "addApp_res r =
     (if status r = 200 then json_body r else Inr (failed (error_or_status r)))"

definition redeploy_req :: "jstr \<Rightarrow> jstr \<Rightarrow> jstr option \<Rightarrow> request" where
  "redeploy_req agent name credential =
     send POST (js ''/api/apps/redeploy'')
       ([(js ''agent'', JStr agent), (js ''name'', JStr name)]
        @ opt_field (js ''credential'') JStr credential)"

definition redeploy_res :: "control_result response \<Rightarrow> control_result result" where
  "redeploy_res r =
     (if status r = 401 then Inl (js_Error (js ''error 401''))
      else case json_body r of Inl _ \<Rightarrow> Inr (failed (status_error r)) | Inr j \<Rightarrow> Inr j)"

section \<open>Credentials\<close>

definition listCredentials_req :: request where
  "listCredentials_req = get (js ''/api/credentials'')"

definition listCredentials_res :: "credential_meta list response \<Rightarrow> credential_meta list result" where
  "listCredentials_res r = (if status r \<noteq> 200 then Inr [] else json_body r)"

definition createCredential_req :: "jstr \<Rightarrow> jstr \<Rightarrow> jstr \<Rightarrow> request" where
  "createCredential_req name username token =
     send POST (js ''/api/credentials'')
       [(js ''name'', JStr name), (js ''username'', JStr username), (js ''token'', JStr token)]"

definition createCredential_res :: "'a response \<Rightarrow> control_result result" where
  "createCredential_res r =
     (if status r = 201 \<or> status r = 200 then Inr succeeded else Inr (failed (error_or_status r)))"

definition createSSHCredential_req :: "jstr \<Rightarrow> request" where
  "createSSHCredential_req name =
     send POST (js ''/api/credentials'') [(js ''name'', JStr name), (js ''type'', JStr (js ''ssh-key''))]"

text \<open>The JSON view is the \<open>public_key\<close> property.\<close>

definition createSSHCredential_res :: "jstr option response \<Rightarrow> ssh_result result" where
  "createSSHCredential_res r =
     (if status r = 201 \<or> status r = 200
      then (case json_body r of
              Inl _ \<Rightarrow> Inr \<lparr>ssh_ok = True, ssh_public_key = None, ssh_error = None\<rparr>
            | Inr k \<Rightarrow> Inr \<lparr>ssh_ok = True, ssh_public_key = k, ssh_error = None\<rparr>)
      else Inr \<lparr>ssh_ok = False, ssh_public_key = None, ssh_error = Some (error_or_status r)\<rparr>)"

definition deleteCredential_req :: "jstr \<Rightarrow> request result" where
  "deleteCredential_req name = map_result (bare DELETE) (url1 (js ''/api/credentials/'') name [])"

definition deleteCredential_res :: "'a response \<Rightarrow> control_result result" where
  "deleteCredential_res r =
     (if status r = 204 then Inr succeeded else Inr (failed (status_error r)))"

section \<open>Files of a git app\<close>

text \<open>
  \<open>(await r.json().catch(() => ({}))).error || `what failed (${r.status})`\<close>, thrown as an
  \<open>Error\<close> for every status outside 200-299; 401 is thrown first.
\<close>

definition failure_text :: "string \<Rightarrow> 'a response \<Rightarrow> jstr" where
  "failure_text what r =
     or_else (case error_field r of Inl _ \<Rightarrow> None | Inr e \<Rightarrow> e)
       (js what @ js '' failed ('' @ dec_nat (status r) @ js '')'')"

definition file_res :: "string \<Rightarrow> 'a response \<Rightarrow> 'a result" where
  "file_res what r =
     (if status r = 401 then Inl unauthorized
      else if \<not> resp_ok r then Inl (js_Error (failure_text what r))
      else json_body r)"

definition path_query :: "string \<Rightarrow> (jstr \<times> jstr) list \<Rightarrow> jstr" where
  "path_query kind ps = js ''/'' @ js kind @ js ''?'' @ search_params ps"

definition listDir_req :: "jstr \<Rightarrow> jstr \<Rightarrow> jstr \<Rightarrow> request result" where
  "listDir_req agent app path =
     map_result get (app_url agent app (path_query ''dir'' [(js ''path'', path)]))"

definition listDir_res :: "dir_listing response \<Rightarrow> dir_listing result" where
  "listDir_res = file_res ''dir''"

definition readFile_req :: "jstr \<Rightarrow> jstr \<Rightarrow> jstr \<Rightarrow> request result" where
  "readFile_req agent app path =
     map_result get (app_url agent app (path_query ''file'' [(js ''path'', path)]))"

definition readFile_res :: "file_content response \<Rightarrow> file_content result" where
  "readFile_res = file_res ''file''"

definition logsDownloadURL :: "jstr \<Rightarrow> jstr \<Rightarrow> jstr \<Rightarrow> jstr \<Rightarrow> jstr" where
  "logsDownloadURL agent selector stream q =
     js ''/api/logs/download?'' @ search_params
       [(js ''agent'', agent), (js ''selector'', selector), (js ''stream'', stream), (js ''q'', q)]"

definition fileDownloadURL :: "jstr \<Rightarrow> jstr \<Rightarrow> jstr \<Rightarrow> jstr result" where
  "fileDownloadURL agent app path =
     app_url agent app (path_query ''file'' [(js ''path'', path), (js ''raw'', js ''1'')])"

text \<open>\<open>credential || ""\<close>: an absent credential is sent as the empty string.\<close>

definition commit_fields :: "jstr \<Rightarrow> jstr option \<Rightarrow> (jstr \<times> json) list" where
  "commit_fields message credential =
     [(js ''message'', JStr message), (js ''credential'', JStr (or_else credential []))]"

definition writeFile_req ::
  "jstr \<Rightarrow> jstr \<Rightarrow> jstr \<Rightarrow> jstr \<Rightarrow> jstr \<Rightarrow> jstr option \<Rightarrow> request result" where
  "writeFile_req agent app path content message credential =
     map_result (\<lambda>u. send PUT u ((js ''content'', JStr content) # commit_fields message credential))
       (app_url agent app (path_query ''file'' [(js ''path'', path)]))"

definition writeFile_res :: "commit_result response \<Rightarrow> commit_result result" where
  "writeFile_res = file_res ''save''"

definition createFile_req ::
  "jstr \<Rightarrow> jstr \<Rightarrow> jstr \<Rightarrow> jstr \<Rightarrow> jstr \<Rightarrow> jstr option \<Rightarrow> request result" where
  "createFile_req agent app path content message credential =
     map_result (\<lambda>u. send PUT u ((js ''content'', JStr content) # commit_fields message credential))
       (app_url agent app (path_query ''file'' [(js ''path'', path), (js ''create'', js ''1'')]))"

definition createFile_res :: "commit_result response \<Rightarrow> commit_result result" where
  "createFile_res = file_res ''save''"

definition deleteFile_req ::
  "jstr \<Rightarrow> jstr \<Rightarrow> jstr \<Rightarrow> jstr \<Rightarrow> jstr option \<Rightarrow> request result" where
  "deleteFile_req agent app path message credential =
     map_result (\<lambda>u. send DELETE u (commit_fields message credential))
       (app_url agent app (path_query ''file'' [(js ''path'', path)]))"

definition deleteFile_res :: "commit_result response \<Rightarrow> commit_result result" where
  "deleteFile_res = file_res ''delete''"

definition renameFile_req ::
  "jstr \<Rightarrow> jstr \<Rightarrow> jstr \<Rightarrow> jstr \<Rightarrow> jstr \<Rightarrow> jstr option \<Rightarrow> request result" where
  "renameFile_req agent app from_path to_path message credential =
     map_result (\<lambda>u. send POST u
         ((js ''from'', JStr from_path) # (js ''to'', JStr to_path) # commit_fields message credential))
       (app_url agent app (js ''/rename''))"

definition renameFile_res :: "commit_result response \<Rightarrow> commit_result result" where
  "renameFile_res = file_res ''rename''"

section \<open>Notifications\<close>

definition getNotifications_req :: request where
  "getNotifications_req = get (js ''/api/notifications'')"

definition getNotifications_res :: "notif_config response \<Rightarrow> notif_config result" where
  "getNotifications_res r =
     (if status r = 401 then Inl unauthorized
      else if status r = 503
        then Inl (js_Error (or_else (Some (trim (body_text r))) (js ''notifications unavailable'')))
      else if \<not> resp_ok r
        then Inl (js_Error (js ''failed to load notifications ('' @ dec_nat (status r) @ js '')''))
      else json_body r)"

text \<open>\<open>if (r.ok) return { ok: true }; return { ok: false, error: await r.text() }\<close>\<close>

definition ok_or_text :: "'a response \<Rightarrow> control_result result" where
  "ok_or_text r = (if resp_ok r then Inr succeeded else Inr (failed (body_text r)))"

definition channel_text :: "channel_type \<Rightarrow> jstr" where
  "channel_text c =
     (case c of Webhook \<Rightarrow> js ''webhook'' | Telegram \<Rightarrow> js ''telegram''
      | Slack \<Rightarrow> js ''slack'' | Email \<Rightarrow> js ''email'')"

definition putChannel_req ::
  "jstr \<Rightarrow> channel_type \<Rightarrow> bool \<Rightarrow> (jstr \<times> jstr) list \<Rightarrow> (jstr \<times> jstr) list \<Rightarrow> request" where
  "putChannel_req name type enabled config secrets =
     send POST (js ''/api/notifications/channels'')
       [(js ''name'', JStr name), (js ''type'', JStr (channel_text type)), (js ''enabled'', JBool enabled),
        (js ''config'', json_record config), (js ''secrets'', json_record secrets)]"

definition putChannel_res :: "'a response \<Rightarrow> control_result result" where
  "putChannel_res = ok_or_text"

definition deleteChannel_req :: "jstr \<Rightarrow> request result" where
  "deleteChannel_req name =
     map_result (bare DELETE) (url1 (js ''/api/notifications/channels/'') name [])"

definition deleteChannel_res :: "'a response \<Rightarrow> bool result" where
  "deleteChannel_res r = Inr (resp_ok r)"

definition testChannel_req :: "jstr \<Rightarrow> request result" where
  "testChannel_req name =
     map_result (bare POST) (url1 (js ''/api/notifications/channels/'') name (js ''/test''))"

definition testChannel_res :: "control_result response \<Rightarrow> control_result result" where
  "testChannel_res r = (if \<not> resp_ok r then Inr (failed (body_text r)) else json_body r)"

definition text_or_status :: "'a response \<Rightarrow> jstr" where
  "text_or_status r = or_else (Some (trim (body_text r))) (status_error r)"

definition testAllChannels_req :: request where
  "testAllChannels_req = bare POST (js ''/api/notifications/test'')"

definition testAllChannels_res :: "test_all_result response \<Rightarrow> test_all_result result" where
  "testAllChannels_res r =
     (if \<not> resp_ok r
      then Inr \<lparr>ta_ok = False, ta_sent = 0, ta_results = [], ta_error = Some (text_or_status r)\<rparr>
      else json_body r)"

definition putRule_req :: "notif_rule \<Rightarrow> request" where
  "putRule_req rule =
     send POST (js ''/api/notifications/rules'')
       [(js ''name'', JStr (nr_name rule)), (js ''enabled'', JBool (nr_enabled rule)),
        (js ''events'', json_strs (nr_events rule)), (js ''agent'', JStr (nr_agent rule)),
        (js ''process'', JStr (nr_process rule)), (js ''channels'', json_strs (nr_channels rule))]"

definition putRule_res :: "'a response \<Rightarrow> control_result result" where
  "putRule_res = ok_or_text"

definition deleteRule_req :: "jstr \<Rightarrow> request result" where
  "deleteRule_req name = map_result (bare DELETE) (url1 (js ''/api/notifications/rules/'') name [])"

definition deleteRule_res :: "'a response \<Rightarrow> bool result" where
  "deleteRule_res r = Inr (resp_ok r)"

definition json_numbers :: "(jstr \<times> jsnum) list \<Rightarrow> json" where
  "json_numbers ps = JObj (map (\<lambda>(k, v). (k, JNum v)) ps)"

definition putNotifSettings_req :: "notif_settings \<Rightarrow> request" where
  "putNotifSettings_req s =
     send PUT (js ''/api/notifications/settings'')
       ([(js ''cooldown_seconds'', JNum (ns_cooldown s))]
        @ opt_field (js ''suppress_recovery'') JBool (ns_suppress_recovery s)
        @ opt_field (js ''cooldown_overrides'') json_numbers (ns_overrides s)
        @ opt_field (js ''coalesce_window_seconds'') JNum (ns_coalesce s))"

definition putNotifSettings_res :: "'a response \<Rightarrow> control_result result" where
  "putNotifSettings_res r = (if resp_ok r then Inr succeeded else Inr (failed (text_or_status r)))"

section \<open>Connecting agents\<close>

definition connectToken_req :: "jstr \<Rightarrow> jstr \<Rightarrow> request" where
  "connectToken_req address name =
     send POST (js ''/api/fleet/connect-token'')
       ((if address \<noteq> [] then [(js ''address'', JStr address)] else [])
        @ (if name \<noteq> [] then [(js ''name'', JStr name)] else []))"

definition connectToken_res :: "connect_info response \<Rightarrow> connect_info result" where
  "connectToken_res r =
     (if \<not> resp_ok r then Inl (js_Error (js ''connect-token failed: '' @ dec_nat (status r)))
      else json_body r)"

section \<open>Errors and updates\<close>

definition ackError_req :: "jstr \<Rightarrow> bool \<Rightarrow> request" where
  "ackError_req i ack = send POST (js ''/api/errors/ack'') [(js ''id'', JStr i), (js ''ack'', JBool ack)]"

definition ackError_res :: "'a response \<Rightarrow> unit result" where
  "ackError_res r =
     (if \<not> resp_ok r then Inl (js_Error (js ''ack '' @ dec_nat (status r))) else Inr ())"

text \<open>\<open>401\<close> throws \<open>unauthorized\<close>, another failure its own text.\<close>

definition json_or_status :: "string \<Rightarrow> 'a response \<Rightarrow> 'a result" where
  "json_or_status what r =
     (if status r = 401 then Inl unauthorized
      else if \<not> resp_ok r then Inl (js_Error (js what @ js '' '' @ dec_nat (status r)))
      else json_body r)"

definition getUpdate_req :: request where
  "getUpdate_req = get (js ''/api/update'')"

definition getUpdate_res :: "update_status response \<Rightarrow> update_status result" where
  "getUpdate_res = json_or_status ''update''"

definition getErrors_req :: "jstr \<Rightarrow> jstr option \<Rightarrow> request" where
  "getErrors_req window agent =
     get (js ''/api/errors?'' @ search_params
       ((js ''range'', window) #
        (case agent of None \<Rightarrow> [] | Some a \<Rightarrow> if a = [] then [] else [(js ''agent'', a)])))"

definition getErrors_res :: "errors_response response \<Rightarrow> errors_response result" where
  "getErrors_res = json_or_status ''errors''"

lemmas file_handlers = listDir_res_def readFile_res_def writeFile_res_def createFile_res_def
  deleteFile_res_def renameFile_res_def

lemmas unauthorized_handlers = getFleet_res_def getMetrics_res_def getMetricsForProc_res_def
  getLogs_res_def getUpdate_res_def getErrors_res_def file_handlers

section \<open>What a server reads from a request\<close>

text \<open>
  The server splits the path at slashes and undoes the percent escapes of the two variable
  segments, and reads the parameters from the query. \<open>app_target\<close> is that reading of the
  file endpoints: agent, app, last segment and parameters.
\<close>

definition url_path :: "jstr \<Rightarrow> jstr" where
  "url_path u = takeWhile (\<lambda>c. c \<noteq> 0x3F) u"

definition url_params :: "jstr \<Rightarrow> (jstr result \<times> jstr result) list" where
  "url_params u =
     (let q = drop 1 (dropWhile (\<lambda>c. c \<noteq> 0x3F) u) in if q = [] then [] else parse_query q)"

definition app_target ::
  "jstr \<Rightarrow> (jstr \<times> jstr \<times> jstr \<times> (jstr result \<times> jstr result) list) option" where
  "app_target u =
     (case split_on 0x2F (url_path u) of
        [s0, s1, s2, a, s4, p, k] \<Rightarrow>
          if s0 = [] \<and> s1 = js ''api'' \<and> s2 = js ''fleet'' \<and> s4 = js ''apps''
          then (case (decodeURIComponent a, decodeURIComponent p) of
                  (Inr x, Inr y) \<Rightarrow> Some (x, y, k, url_params u)
                | _ \<Rightarrow> None)
          else None
      | _ \<Rightarrow> None)"

lemma url_path_append: "0x3F \<notin> set s \<Longrightarrow> url_path (s @ 0x3F # q) = s"
  by (simp add: url_path_def takeWhile_append takeWhile_eq_all_conv)

lemma url_params_append: "0x3F \<notin> set s \<Longrightarrow> q \<noteq> [] \<Longrightarrow> url_params (s @ 0x3F # q) = parse_query q"
proof -
  assume a: "0x3F \<notin> set s" "q \<noteq> []"
  then have "dropWhile (\<lambda>c. c \<noteq> 0x3F) (s @ 0x3F # q) = 0x3F # q"
    by (subst dropWhile_append2) auto
  with a show ?thesis by (simp add: url_params_def)
qed

lemma url_no_params: "0x3F \<notin> set s \<Longrightarrow> url_path s = s \<and> url_params s = []"
proof -
  assume "0x3F \<notin> set s"
  then have whole: "dropWhile (\<lambda>c. c \<noteq> 0x3F) s = []" "takeWhile (\<lambda>c. c \<noteq> 0x3F) s = s" by auto
  show ?thesis by (simp add: url_path_def url_params_def whole)
qed

lemma search_params_nonempty: "ps \<noteq> [] \<Longrightarrow> search_params ps \<noteq> []"
proof -
  assume "ps \<noteq> []"
  then obtain k v r where "ps = (k, v) # r" by (metis list.exhaust surj_pair)
  then show ?thesis by (cases r) (simp_all add: search_params_def)
qed

lemma fleet_prefix:
  "js ''/api/fleet/'' = 0x2F # js ''api'' @ 0x2F # js ''fleet'' @ [0x2F]"
  "js ''/apps/'' = 0x2F # js ''apps'' @ [0x2F]"
  by (simp_all add: js_def unit_of_def)

lemma plain_segments:
  "0x2F \<notin> set (js ''api'')" "0x2F \<notin> set (js ''fleet'')" "0x2F \<notin> set (js ''apps'')"
  "0x3F \<notin> set (js ''api'')" "0x3F \<notin> set (js ''fleet'')" "0x3F \<notin> set (js ''apps'')"
  by (simp_all add: js_def unit_of_def)

lemma app_url_cases:
  assumes "well_formed agent" "well_formed app"
  obtains a p where "decodeURIComponent a = Inr agent" "decodeURIComponent p = Inr app"
    "0x2F \<notin> set a" "0x2F \<notin> set p" "0x3F \<notin> set a" "0x3F \<notin> set p"
    "\<And>rest. app_url agent app rest = Inr (js ''/api/fleet/'' @ a @ js ''/apps/'' @ p @ rest)"
proof -
  obtain a p where "encodeURIComponent agent = Inr a" "encodeURIComponent app = Inr p"
    using uri.total assms by blast
  with that show ?thesis
    using uri.inverse [OF assms(1)] uri.inverse [OF assms(2)] uri.no_separator [OF assms(1)]
      uri.no_separator [OF assms(2)] by (auto simp: app_url_def)
qed

lemma app_target_path:
  assumes "decodeURIComponent a = Inr agent" "decodeURIComponent p = Inr app"
    "0x2F \<notin> set a" "0x2F \<notin> set p" "0x2F \<notin> set k"
    "url_path u = js ''/api/fleet/'' @ a @ js ''/apps/'' @ p @ 0x2F # k"
  shows "app_target u = Some (agent, app, k, url_params u)"
proof -
  have "split_on 0x2F (url_path u) = [[], js ''api'', js ''fleet'', a, js ''apps'', p, k]"
    using assms plain_segments
    by (simp add: fleet_prefix split_on_append split_on_no_sep)
  with assms(1,2) show ?thesis by (simp add: app_target_def)
qed

lemma app_target_query:
  assumes "well_formed agent" "well_formed app" "ps \<noteq> []" "wf_params ps"
    "0x2F \<notin> set (js kind)" "0x3F \<notin> set (js kind)"
  shows "\<exists>u. app_url agent app (path_query kind ps) = Inr u \<and>
    app_target u = Some (agent, app, js kind, map (map_prod Inr Inr) ps)"
proof -
  obtain a p where ap: "decodeURIComponent a = Inr agent" "decodeURIComponent p = Inr app"
    "0x2F \<notin> set a" "0x2F \<notin> set p" "0x3F \<notin> set a" "0x3F \<notin> set p"
    and url: "\<And>rest. app_url agent app rest = Inr (js ''/api/fleet/'' @ a @ js ''/apps/'' @ p @ rest)"
    using app_url_cases [OF assms(1,2)] by blast
  define s where "s = js ''/api/fleet/'' @ a @ js ''/apps/'' @ p @ 0x2F # js kind"
  define u where "u = s @ 0x3F # search_params ps"
  have s: "0x3F \<notin> set s"
    using ap assms(6) plain_segments by (simp add: s_def fleet_prefix)
  have "js ''/'' = [0x2F]" "js ''?'' = [0x3F]" by (simp_all add: js_def unit_of_def)
  then have "app_url agent app (path_query kind ps) = Inr u"
    by (simp add: url path_query_def u_def s_def)
  moreover have "url_path u = s" using s by (simp add: u_def url_path_append)
  moreover have "url_params u = map (map_prod Inr Inr) ps"
    using s assms(3,4) by (simp add: u_def url_params_append search_params_nonempty parse_search_params)
  ultimately show ?thesis
    using app_target_path [OF ap(1-4) assms(5), of u] by (auto simp: s_def)
qed

lemma app_target_plain:
  assumes "well_formed agent" "well_formed app"
  shows "\<exists>u. app_url agent app (js ''/rename'') = Inr u \<and> app_target u = Some (agent, app, js ''rename'', [])"
proof -
  obtain a p where ap: "decodeURIComponent a = Inr agent" "decodeURIComponent p = Inr app"
    "0x2F \<notin> set a" "0x2F \<notin> set p" "0x3F \<notin> set a" "0x3F \<notin> set p"
    and url: "\<And>rest. app_url agent app rest = Inr (js ''/api/fleet/'' @ a @ js ''/apps/'' @ p @ rest)"
    using app_url_cases [OF assms] by blast
  define u where "u = js ''/api/fleet/'' @ a @ js ''/apps/'' @ p @ js ''/rename''"
  have k: "js ''/rename'' = 0x2F # js ''rename''" "0x2F \<notin> set (js ''rename'')" "0x3F \<notin> set (js ''rename'')"
    by (simp_all add: js_def unit_of_def)
  have "0x3F \<notin> set u" using ap plain_segments k by (simp add: u_def fleet_prefix)
  then have "url_path u = u" "url_params u = []" using url_no_params by auto
  then show ?thesis
    using app_target_path [OF ap(1-4) k(2), of u] url [of "js ''/rename''"] k(1) by (auto simp: u_def)
qed

text \<open>
  The type of a request URL: a path of the server's API in the printable ASCII alphabet of URLs.
  A builder that encodes a path component may throw instead.
\<close>

definition url_typed :: "jstr \<Rightarrow> bool" where
  "url_typed u \<longleftrightarrow> startsWith u (js ''/api/'') \<and> list_all url_unit u"

definition built_typed :: "bool \<Rightarrow> jstr result \<Rightarrow> bool" where
  "built_typed ok u = (case u of Inl e \<Rightarrow> \<not> ok | Inr v \<Rightarrow> ok \<and> url_typed v)"

lemma js_url_units [simp]: "list_all url_unit (js s) \<longleftrightarrow> list_all (url_unit \<circ> unit_of) s"
  by (simp add: js_def list.pred_map)

lemma url_typed_lit:
  "url_typed (js (CHR ''/'' # CHR ''a'' # CHR ''p'' # CHR ''i'' # CHR ''/'' # s) @ t) \<longleftrightarrow>
     list_all (url_unit \<circ> unit_of) s \<and> list_all url_unit t"
  "url_typed (js (CHR ''/'' # CHR ''a'' # CHR ''p'' # CHR ''i'' # CHR ''/'' # s)) \<longleftrightarrow> list_all (url_unit \<circ> unit_of) s"
  by (simp_all add: url_typed_def startsWith_def js_def list.pred_map)
    (simp_all add: unit_of_def url_unit_def is_word_char_def is_lower_def)

lemma dec_nat_url_units: "list_all url_unit (dec_nat n)"
  using dec_nat_digits by (auto simp: list_all_iff url_unit_def is_word_char_def)

lemma dec_int_url_units: "list_all url_unit (dec_int i)"
  by (simp add: dec_int_def dec_nat_url_units) (simp add: url_unit_def)

lemma url1_typed:
  assumes "url_typed pre" "list_all url_unit post"
  shows "built_typed (well_formed s) (url1 pre s post)"
proof (cases "encodeURIComponent s")
  case (Inl e)
  then have "\<not> well_formed s" using encode_well_formed by force
  then show ?thesis by (simp add: built_typed_def url1_def Inl)
next
  case (Inr e)
  then have "well_formed s" using encode_well_formed by blast
  moreover have "startsWith (pre @ e @ post) (js ''/api/'')"
    using assms(1) by (auto simp: url_typed_def startsWith_iff)
  ultimately show ?thesis
    using assms encode_url_units [OF Inr] by (simp add: built_typed_def url1_def Inr url_typed_def)
qed

lemma app_url_typed:
  assumes "list_all url_unit rest"
  shows "built_typed (well_formed agent \<and> well_formed app) (app_url agent app rest)"
proof -
  have lit: "list_all url_unit (js ''/api/fleet/'')" "list_all url_unit (js ''/apps/'')"
    by (simp_all add: unit_of_def url_unit_def is_word_char_def is_lower_def)
  have pre: "startsWith (js ''/api/fleet/'' @ s) (js ''/api/'')" for s
    by (simp add: startsWith_def js_def)
  show ?thesis
    using assms encode_url_units lit pre encode_well_formed [of agent] encode_well_formed [of app]
    by (auto simp: built_typed_def app_url_def url_typed_def split: sum.split)
qed

section \<open>Properties\<close>

text \<open>C18. Every file request reaches the file it names: for names and paths without unpaired
  surrogates, the URL that \<open>readFile\<close>, \<open>listDir\<close>, \<open>writeFile\<close>, \<open>createFile\<close>, \<open>deleteFile\<close>
  and \<open>renameFile\<close> request splits and decodes on the server to exactly the agent, the app,
  the endpoint and the path parameter the caller passed, with \<open>create=1\<close> only on creation.\<close>

theorem file_requests_decode:
  assumes "well_formed agent" "well_formed app" "well_formed path"
  shows
    "(\<exists>r. readFile_req agent app path = Inr r \<and> req_method r = GET \<and>
        app_target (req_url r) = Some (agent, app, js ''file'', [(Inr (js ''path''), Inr path)])) \<and>
     (\<exists>r. listDir_req agent app path = Inr r \<and> req_method r = GET \<and>
        app_target (req_url r) = Some (agent, app, js ''dir'', [(Inr (js ''path''), Inr path)])) \<and>
     (\<exists>r. writeFile_req agent app path content message cred = Inr r \<and> req_method r = PUT \<and>
        app_target (req_url r) = Some (agent, app, js ''file'', [(Inr (js ''path''), Inr path)])) \<and>
     (\<exists>r. createFile_req agent app path content message cred = Inr r \<and> req_method r = PUT \<and>
        app_target (req_url r) = Some (agent, app, js ''file'',
          [(Inr (js ''path''), Inr path), (Inr (js ''create''), Inr (js ''1''))])) \<and>
     (\<exists>r. deleteFile_req agent app path message cred = Inr r \<and> req_method r = DELETE \<and>
        app_target (req_url r) = Some (agent, app, js ''file'', [(Inr (js ''path''), Inr path)])) \<and>
     (\<exists>r. renameFile_req agent app path dest message cred = Inr r \<and> req_method r = POST \<and>
        app_target (req_url r) = Some (agent, app, js ''rename'', []) \<and>
        req_body r = Some (JObj ((js ''from'', JStr path) # (js ''to'', JStr dest) #
          commit_fields message cred)))"
proof -
  have k: "0x2F \<notin> set (js ''file'')" "0x3F \<notin> set (js ''file'')"
    "0x2F \<notin> set (js ''dir'')" "0x3F \<notin> set (js ''dir'')"
    by (simp_all add: js_def unit_of_def)
  have one: "\<exists>u. app_url agent app (path_query kind [(js ''path'', path)]) = Inr u \<and>
      app_target u = Some (agent, app, js kind, [(Inr (js ''path''), Inr path)])"
    if "0x2F \<notin> set (js kind)" "0x3F \<notin> set (js kind)" for kind
    using app_target_query [OF assms(1,2), of "[(js ''path'', path)]" kind] that assms(3) by auto
  have two: "\<exists>u. app_url agent app (path_query ''file'' [(js ''path'', path), (js ''create'', js ''1'')]) = Inr u \<and>
      app_target u = Some (agent, app, js ''file'',
        [(Inr (js ''path''), Inr path), (Inr (js ''create''), Inr (js ''1''))])"
    using app_target_query [OF assms(1,2), of "[(js ''path'', path), (js ''create'', js ''1'')]" "''file''"]
      k assms(3) by auto
  show ?thesis
    using one [OF k(1,2)] one [OF k(3,4)] two app_target_plain [OF assms(1,2)]
    by (auto simp: readFile_req_def listDir_req_def writeFile_req_def createFile_req_def
        deleteFile_req_def renameFile_req_def map_result_def get_def send_def commit_fields_def)
qed

theorem file_requests_decode_witness:
  "\<exists>r. readFile_req (js ''dev/1'') (js ''web app'') (js ''src/a&b.ts'') = Inr r \<and>
     app_target (req_url r) = Some (js ''dev/1'', js ''web app'', js ''file'',
       [(Inr (js ''path''), Inr (js ''src/a&b.ts''))])"
  using file_requests_decode [OF well_formed_js well_formed_js well_formed_js] by blast

text \<open>C19. The log request and the log download link carry the caller's selection unchanged: the
  query string of each decodes to exactly the agent, selector, stream, search text and, for
  the poll, the limit and cursor, whatever separators the values contain.\<close>

theorem log_requests_decode:
  assumes "well_formed agent" "well_formed selector" "well_formed (lo_stream opts)" "well_formed (lo_q opts)"
  shows "url_params (req_url (getLogs_req agent selector opts)) =
      [(Inr (js ''agent''), Inr agent), (Inr (js ''selector''), Inr selector),
       (Inr (js ''stream''), Inr (lo_stream opts)), (Inr (js ''limit''), Inr (dec_int (lo_limit opts))),
       (Inr (js ''after''), Inr (dec_int (lo_after opts))), (Inr (js ''q''), Inr (lo_q opts))] \<and>
    url_params (logsDownloadURL agent selector (lo_stream opts) (lo_q opts)) =
      [(Inr (js ''agent''), Inr agent), (Inr (js ''selector''), Inr selector),
       (Inr (js ''stream''), Inr (lo_stream opts)), (Inr (js ''q''), Inr (lo_q opts))]"
proof -
  have p: "js ''/api/logs?'' = js ''/api/logs'' @ [0x3F]" "0x3F \<notin> set (js ''/api/logs'')"
    "js ''/api/logs/download?'' = js ''/api/logs/download'' @ [0x3F]" "0x3F \<notin> set (js ''/api/logs/download'')"
    by (simp_all add: js_def unit_of_def)
  have params: "url_params (s @ 0x3F # search_params ps) = map (map_prod Inr Inr) ps"
    if "0x3F \<notin> set s" "ps \<noteq> []" "wf_params ps" for s ps
    using that by (simp add: url_params_append search_params_nonempty parse_search_params)
  show ?thesis
    using assms by (auto simp: getLogs_req_def logsDownloadURL_def get_def p params)
qed

theorem log_requests_decode_witness:
  "url_params (logsDownloadURL (js ''dev 1'') (js ''web&x'') (js ''all'') (js ''a=b'')) =
    [(Inr (js ''agent''), Inr (js ''dev 1'')), (Inr (js ''selector''), Inr (js ''web&x'')),
     (Inr (js ''stream''), Inr (js ''all'')), (Inr (js ''q''), Inr (js ''a=b''))]"
  using log_requests_decode [of "js ''dev 1''" "js ''web&x''"
      "\<lparr>lo_stream = js ''all'', lo_limit = 500, lo_after = 0, lo_q = js ''a=b''\<rparr>"] by simp

text \<open>When \<open>control\<close> throws: exactly when the network rejects the request or a 200 response
  is not JSON. Every other response, 401 included, comes back as a value, and a non-200
  response as a failure whose text is not empty unless the server sent an empty one.\<close>

lemma control_throws:
  "(is_error (control net agent selector action) \<longleftrightarrow>
     (case net (control_req agent selector action) of
        NetworkError _ \<Rightarrow> True
      | Response r \<Rightarrow> status r = 200 \<and> is_error (json_body r))) \<and>
   (case net (control_req agent selector action) of
      NetworkError _ \<Rightarrow> True
    | Response r \<Rightarrow> status r = 200 \<or>
        (\<exists>e. control net agent selector action = Inr (failed e) \<and>
             (e = [] \<longrightarrow> error_field r = Inr (Some []))))"
  by (auto simp: control_def control_res_def error_or_status_def status_error_def nullish_def is_error_def
      split: fetched.splits sum.splits option.splits)

text \<open>A 401 is an error of every data loader: the fleet, metrics, log, log statistics,
  notification, file, update and error endpoints all throw \<open>unauthorized\<close> for it, whatever
  the body holds.\<close>

lemma unauthorized_throws:
  assumes "status fl = 401" "status me = 401" "status lg = 401" "status st = 401" "status nt = 401"
    "status ls = 401" "status fc = 401" "status cm = 401" "status up = 401" "status er = 401"
  shows "getFleet_res fl = Inl unauthorized \<and> getMetrics_res me = Inl unauthorized \<and>
    getMetricsForProc_res me = Inl unauthorized \<and> getLogs_res lg = Inl unauthorized \<and>
    getLogStats_res st = Inl unauthorized \<and> getNotifications_res nt = Inl unauthorized \<and>
    listDir_res ls = Inl unauthorized \<and> readFile_res fc = Inl unauthorized \<and>
    writeFile_res cm = Inl unauthorized \<and> createFile_res cm = Inl unauthorized \<and>
    deleteFile_res cm = Inl unauthorized \<and> renameFile_res cm = Inl unauthorized \<and>
    getUpdate_res up = Inl unauthorized \<and> getErrors_res er = Inl unauthorized"
  using assms
  by (simp add: unauthorized_handlers file_res_def json_or_401_def json_or_status_def
      getLogStats_res_def getNotifications_res_def map_result_def)



text \<open>C20. Every request goes to a well-typed URL: whatever texts the caller passes, the URL begins with
  \<open>/api/\<close> and is made of the printable ASCII characters of a URL alone. The builders that put an
  agent, an app or another name into the path throw exactly when one of these holds an unpaired
  surrogate.\<close>

theorem request_urls_typed:
  "list_all (\<lambda>r. url_typed (req_url r))
     [getSession_req, login_req user pass, logout_req, getFleet_req, getMetrics_req n,
      getMetricsForProc_req agent sel n m, getLogs_req agent sel opts, control_req agent sel act,
      addApp_req agent src, redeploy_req agent name cred, listCredentials_req,
      createCredential_req name user tok, createSSHCredential_req name, getNotifications_req,
      putChannel_req name ty en config secrets, testAllChannels_req, putRule_req rule,
      putNotifSettings_req settings, connectToken_req addr name, ackError_req i ack, getUpdate_req,
      getErrors_req window about] \<and>
   list_all (\<lambda>r. built_typed (well_formed name) (map_result req_url r))
     [getLogStats_req name, deleteCredential_req name, deleteChannel_req name, testChannel_req name, deleteRule_req name] \<and>
   list_all (\<lambda>r. built_typed (well_formed agent \<and> well_formed app) (map_result req_url r))
     [listDir_req agent app path, readFile_req agent app path, writeFile_req agent app path content msg cred,
      createFile_req agent app path content msg cred, deleteFile_req agent app path msg cred,
      renameFile_req agent app path to_path msg cred] \<and>
   url_typed (logsDownloadURL agent sel stream q) \<and>
   built_typed (well_formed agent \<and> well_formed app) (fileDownloadURL agent app path)"
proof -
  have again: "map_result req_url (map_result f u) = u" if "\<And>v. req_url (f v) = v" for f u
    using that by (simp add: map_result_def split: sum.split)
  note units = unit_of_def url_unit_def is_word_char_def is_lower_def
  have pq: "list_all url_unit (path_query ''file'' ps)" "list_all url_unit (path_query ''dir'' ps)"
    "list_all url_unit (path_query ''rename'' ps)" "list_all url_unit (js ''/rename'')" for ps
    by (simp_all add: path_query_def search_params_url_units) (simp_all add: units)
  note fixed = getSession_req_def login_req_def logout_req_def getFleet_req_def getMetrics_req_def getMetricsForProc_req_def
    getLogs_req_def control_req_def addApp_req_def redeploy_req_def listCredentials_req_def createCredential_req_def
    createSSHCredential_req_def getNotifications_req_def putChannel_req_def testAllChannels_req_def putRule_req_def
    putNotifSettings_req_def connectToken_req_def ackError_req_def getUpdate_req_def getErrors_req_def
    get_def send_def bare_def
  have "list_all (\<lambda>r. url_typed (req_url r))
     [getSession_req, login_req user pass, logout_req, getFleet_req, getMetrics_req n,
      getMetricsForProc_req agent sel n m, getLogs_req agent sel opts, control_req agent sel act,
      addApp_req agent src, redeploy_req agent name cred, listCredentials_req,
      createCredential_req name user tok, createSSHCredential_req name, getNotifications_req,
      putChannel_req name ty en config secrets, testAllChannels_req, putRule_req rule,
      putNotifSettings_req settings, connectToken_req addr name, ackError_req i ack, getUpdate_req,
      getErrors_req window about]"
    by (simp add: fixed url_typed_lit search_params_url_units dec_int_url_units) (simp add: units)
  moreover have "list_all (\<lambda>r. built_typed (well_formed name) (map_result req_url r))
     [getLogStats_req name, deleteCredential_req name, deleteChannel_req name, testChannel_req name, deleteRule_req name]"
    by (simp add: getLogStats_req_def deleteCredential_req_def deleteChannel_req_def testChannel_req_def
        deleteRule_req_def again get_def bare_def url1_typed url_typed_lit) (simp add: units url1_typed url_typed_lit)
  moreover have "list_all (\<lambda>r. built_typed (well_formed agent \<and> well_formed app) (map_result req_url r))
     [listDir_req agent app path, readFile_req agent app path, writeFile_req agent app path content msg cred,
      createFile_req agent app path content msg cred, deleteFile_req agent app path msg cred,
      renameFile_req agent app path to_path msg cred]"
    by (simp add: listDir_req_def readFile_req_def writeFile_req_def createFile_req_def deleteFile_req_def renameFile_req_def
        again get_def send_def app_url_typed [OF pq(1)] app_url_typed [OF pq(2)] app_url_typed [OF pq(4)])
  moreover have "url_typed (logsDownloadURL agent sel stream q)"
    by (simp add: logsDownloadURL_def url_typed_lit search_params_url_units) (simp add: units)
  moreover have "built_typed (well_formed agent \<and> well_formed app) (fileDownloadURL agent app path)"
    unfolding fileDownloadURL_def by (rule app_url_typed) (rule pq)
  ultimately show ?thesis by blast
qed

end
