(* ===== verification/FleetSummary.thy ===== *)
theory FleetSummary imports ApiTypes begin

text \<open>
  The status classification (web/src/lib/status.ts, components/StatusGlyph.tsx) and the fleet
  summary (web/src/lib/fleet.ts): the loop over agents and processes with its accumulators,
  and the counts it is meant to compute.
\<close>

section \<open>Status of a process\<close>

datatype status_kind = Online | Errored | Stopped

datatype dot_class = DotOn | DotEr | DotSt

record status_result =
  sr_kind :: status_kind
  sr_word :: jstr
  sr_dot :: dot_class

definition statusOf :: "jstr \<Rightarrow> status_result" where
  "statusOf st =
     (if st = js ''online'' \<or> st = js ''running''
        then \<lparr>sr_kind = Online, sr_word = st, sr_dot = DotOn\<rparr>
      else if st = js ''errored'' \<or> st = js ''failed''
        then \<lparr>sr_kind = Errored, sr_word = st, sr_dot = DotEr\<rparr>
      else \<lparr>sr_kind = Stopped, sr_word = st, sr_dot = DotSt\<rparr>)"

fun dot_text :: "dot_class \<Rightarrow> jstr" where
  "dot_text DotOn = js ''on''"
| "dot_text DotEr = js ''er''"
| "dot_text DotSt = js ''st''"

fun dotClassToText :: "dot_class \<Rightarrow> jstr" where
  "dotClassToText DotOn = js ''on-t''"
| "dotClassToText DotEr = js ''er-t''"
| "dotClassToText DotSt = js ''stp-t''"

text \<open>The three class names and the word that \<open>StatusGlyph\<close> renders.\<close>

record glyph =
  square_class :: jstr
  text_class :: jstr
  glyph_word :: jstr

definition StatusGlyph :: "jstr \<Rightarrow> glyph" where
  "StatusGlyph st =
     (let s = statusOf st
      in \<lparr>square_class = js ''sq '' @ dot_text (sr_dot s), text_class = dotClassToText (sr_dot s),
          glyph_word = sr_word s\<rparr>)"

section \<open>The fleet summary\<close>

record summary_acc =
  acc_online :: nat
  acc_errored :: nat
  acc_running :: nat
  acc_total :: nat
  acc_restarts :: int
  acc_cpu_sum :: rat
  acc_cpu_count :: nat
  acc_mem_used :: int
  acc_mem_total :: int
  acc_has_host :: bool
  acc_errored_name :: "jstr option"

definition acc_init :: summary_acc where
  "acc_init = \<lparr>acc_online = 0, acc_errored = 0, acc_running = 0, acc_total = 0, acc_restarts = 0,
     acc_cpu_sum = 0, acc_cpu_count = 0, acc_mem_used = 0, acc_mem_total = 0, acc_has_host = False,
     acc_errored_name = None\<rparr>"

text \<open>The inner loop body: the accumulators and the \<open>agentErrored\<close> flag of the current agent.\<close>

definition proc_step :: "summary_acc \<times> bool \<Rightarrow> proc \<Rightarrow> summary_acc \<times> bool" where
  "proc_step s p =
     (let (acc, agent_errored) = s; k = sr_kind (statusOf (p_state p));
          acc = (if k = Errored \<and> acc_errored_name acc = None
                 then acc\<lparr>acc_errored_name := Some (p_name p)\<rparr> else acc);
          acc = (if k = Online then acc\<lparr>acc_running := acc_running acc + 1\<rparr> else acc)
      in (acc\<lparr>acc_total := acc_total acc + 1, acc_restarts := acc_restarts acc + p_restarts_24h p\<rparr>,
          agent_errored \<or> k = Errored))"

definition agent_step :: "summary_acc \<Rightarrow> agent \<Rightarrow> summary_acc" where
  "agent_step acc a =
     (let (acc, agent_errored) = foldl proc_step (acc, False) (a_procs a);
          acc = (if agent_errored then acc\<lparr>acc_errored := acc_errored acc + 1\<rparr>
                 else if a_connected a then acc\<lparr>acc_online := acc_online acc + 1\<rparr> else acc)
      in case a_host a of
           None \<Rightarrow> acc
         | Some h \<Rightarrow> acc\<lparr>acc_has_host := True,
                        acc_cpu_sum := acc_cpu_sum acc + cpu_percent h,
                        acc_cpu_count := acc_cpu_count acc + 1,
                        acc_mem_used := acc_mem_used acc + mem_used h,
                        acc_mem_total := acc_mem_total acc + mem_total h\<rparr>)"

record fleet_summary =
  fs_agents :: nat
  fs_online :: nat
  fs_errored :: nat
  fs_running :: nat
  fs_total :: nat
  fs_avg_cpu :: "rat option"
  fs_mem_used :: "int option"
  fs_mem_total :: "int option"
  fs_restarts :: int
  fs_errored_name :: "jstr option"

definition fleetSummary :: "agent list \<Rightarrow> fleet_summary" where
  "fleetSummary agents =
     (let acc = foldl agent_step acc_init agents
      in \<lparr>fs_agents = length agents, fs_online = acc_online acc, fs_errored = acc_errored acc,
          fs_running = acc_running acc, fs_total = acc_total acc,
          fs_avg_cpu = (if acc_has_host acc then Some (acc_cpu_sum acc / of_nat (acc_cpu_count acc)) else None),
          fs_mem_used = (if acc_has_host acc then Some (acc_mem_used acc) else None),
          fs_mem_total = (if acc_has_host acc then Some (acc_mem_total acc) else None),
          fs_restarts = acc_restarts acc, fs_errored_name = acc_errored_name acc\<rparr>)"

section \<open>What the summary means\<close>

definition is_kind :: "status_kind \<Rightarrow> proc \<Rightarrow> bool" where
  "is_kind k p \<longleftrightarrow> sr_kind (statusOf (p_state p)) = k"

definition agent_errored :: "agent \<Rightarrow> bool" where
  "agent_errored a \<longleftrightarrow> (\<exists>p \<in> set (a_procs a). is_kind Errored p)"

definition all_procs :: "agent list \<Rightarrow> proc list" where
  "all_procs agents = concat (map a_procs agents)"

definition hosts :: "agent list \<Rightarrow> agent_host list" where
  "hosts agents = concat (map (\<lambda>a. case a_host a of None \<Rightarrow> [] | Some h \<Rightarrow> [h]) agents)"

definition count_if :: "('a \<Rightarrow> bool) \<Rightarrow> 'a list \<Rightarrow> nat" where
  "count_if p xs = length (filter p xs)"

definition summary_spec :: "agent list \<Rightarrow> fleet_summary" where
  "summary_spec agents =
     (let ps = all_procs agents; hs = hosts agents; some = (\<lambda>x. if hs = [] then None else Some x)
      in \<lparr>fs_agents = length agents,
          fs_online = count_if (\<lambda>a. a_connected a \<and> \<not> agent_errored a) agents,
          fs_errored = count_if agent_errored agents,
          fs_running = count_if (is_kind Online) ps,
          fs_total = length ps,
          fs_avg_cpu = (if hs = [] then None else Some (sum_list (map cpu_percent hs) / of_nat (length hs))),
          fs_mem_used = some (sum_list (map mem_used hs)),
          fs_mem_total = some (sum_list (map mem_total hs)),
          fs_restarts = sum_list (map p_restarts_24h ps),
          fs_errored_name = map_option p_name (find_first (is_kind Errored) ps)\<rparr>)"

text \<open>The accumulators after the loops, stated with what they had before.\<close>

definition first_name :: "jstr option \<Rightarrow> proc list \<Rightarrow> jstr option" where
  "first_name n ps =
     (case n of Some x \<Rightarrow> Some x | None \<Rightarrow> map_option p_name (find_first (is_kind Errored) ps))"

lemma first_name_simps [simp]:
  "first_name n [] = n"
  "first_name (if is_kind Errored p \<and> n = None then Some (p_name p) else n) ps = first_name n (p # ps)"
  by (auto simp: first_name_def split: option.splits)

lemma first_name_append: "first_name n (ps @ qs) = first_name (first_name n ps) qs"
  by (auto simp: first_name_def find_first_append split: option.splits)

lemma foldl_proc_step:
  "foldl proc_step (acc, e) ps =
     (acc\<lparr>acc_running := acc_running acc + count_if (is_kind Online) ps,
          acc_total := acc_total acc + length ps,
          acc_restarts := acc_restarts acc + sum_list (map p_restarts_24h ps),
          acc_errored_name := first_name (acc_errored_name acc) ps\<rparr>,
      e \<or> (\<exists>p \<in> set ps. is_kind Errored p))"
proof (induction ps arbitrary: acc e)
  case (Cons p ps)
  have "proc_step (acc, e) p =
    (acc\<lparr>acc_running := acc_running acc + count_if (is_kind Online) [p],
         acc_total := acc_total acc + 1, acc_restarts := acc_restarts acc + p_restarts_24h p,
         acc_errored_name := (if is_kind Errored p \<and> acc_errored_name acc = None then Some (p_name p)
           else acc_errored_name acc)\<rparr>, e \<or> is_kind Errored p)"
    by (auto simp: proc_step_def is_kind_def count_if_def)
  then show ?case
    using Cons by (simp add: count_if_def add.assoc)
qed (simp add: count_if_def)

lemma agent_step_eq:
  "agent_step acc a =
     acc\<lparr>acc_online := acc_online acc + count_if (\<lambda>a. a_connected a \<and> \<not> agent_errored a) [a],
         acc_errored := acc_errored acc + count_if agent_errored [a],
         acc_running := acc_running acc + count_if (is_kind Online) (all_procs [a]),
         acc_total := acc_total acc + length (all_procs [a]),
         acc_restarts := acc_restarts acc + sum_list (map p_restarts_24h (all_procs [a])),
         acc_cpu_sum := acc_cpu_sum acc + sum_list (map cpu_percent (hosts [a])),
         acc_cpu_count := acc_cpu_count acc + length (hosts [a]),
         acc_mem_used := acc_mem_used acc + sum_list (map mem_used (hosts [a])),
         acc_mem_total := acc_mem_total acc + sum_list (map mem_total (hosts [a])),
         acc_has_host := (acc_has_host acc \<or> hosts [a] \<noteq> []),
         acc_errored_name := first_name (acc_errored_name acc) (all_procs [a])\<rparr>"
  by (cases "a_host a"; cases "agent_errored a"; cases "a_connected a")
    (auto simp: agent_step_def foldl_proc_step hosts_def all_procs_def count_if_def agent_errored_def)

lemma foldl_agent_step:
  "foldl agent_step acc as =
     acc\<lparr>acc_online := acc_online acc + count_if (\<lambda>a. a_connected a \<and> \<not> agent_errored a) as,
         acc_errored := acc_errored acc + count_if agent_errored as,
         acc_running := acc_running acc + count_if (is_kind Online) (all_procs as),
         acc_total := acc_total acc + length (all_procs as),
         acc_restarts := acc_restarts acc + sum_list (map p_restarts_24h (all_procs as)),
         acc_cpu_sum := acc_cpu_sum acc + sum_list (map cpu_percent (hosts as)),
         acc_cpu_count := acc_cpu_count acc + length (hosts as),
         acc_mem_used := acc_mem_used acc + sum_list (map mem_used (hosts as)),
         acc_mem_total := acc_mem_total acc + sum_list (map mem_total (hosts as)),
         acc_has_host := (acc_has_host acc \<or> hosts as \<noteq> []),
         acc_errored_name := first_name (acc_errored_name acc) (all_procs as)\<rparr>"
proof (induction as arbitrary: acc)
  case (Cons a as)
  have "all_procs (a # as) = all_procs [a] @ all_procs as" "hosts (a # as) = hosts [a] @ hosts as"
    by (simp_all add: all_procs_def hosts_def)
  then show ?case
    unfolding foldl.simps Cons.IH agent_step_eq [of acc a]
    by (simp add: count_if_def first_name_append add.assoc)
qed (simp add: all_procs_def hosts_def count_if_def)

lemma fleetSummary_eq: "fleetSummary agents = summary_spec agents"
  by (simp add: fleetSummary_def summary_spec_def Let_def foldl_agent_step acc_init_def first_name_def)

section \<open>Properties\<close>

text \<open>C38. The one-pass loop of \<open>fleetSummary\<close> computes the counts it stands for: agents with an
  errored process, connected agents without one, running and total processes, restarts, the
  mean CPU and the memory sums over the agents that report a host, and the name of the first
  errored process in fleet order.\<close>

theorem fleetSummary_correct: "fleetSummary agents = summary_spec agents"
  by (rule fleetSummary_eq)

text \<open>The numbers of a summary are consistent with each other for every fleet: online and
  errored agents are disjoint parts of the fleet, no more processes run than exist, an errored
  name is shown exactly when an agent is errored, and the averages are absent together,
  exactly when no agent reports a host.\<close>

lemma fleetSummary_consistent:
  "let s = fleetSummary agents
   in fs_online s + fs_errored s \<le> fs_agents s \<and> fs_running s \<le> fs_total s \<and>
      (fs_errored_name s = None \<longleftrightarrow> fs_errored s = 0) \<and>
      (fs_avg_cpu s = None \<longleftrightarrow> fs_mem_used s = None) \<and> (fs_mem_used s = None \<longleftrightarrow> fs_mem_total s = None) \<and>
      (fs_avg_cpu s = None \<longleftrightarrow> (\<forall>a \<in> set agents. a_host a = None))"
proof -
  have part: "count_if (\<lambda>a. a_connected a \<and> \<not> agent_errored a) as + count_if agent_errored as \<le> length as" for as
    by (induction as) (auto simp: count_if_def)
  have none: "find_first (is_kind Errored) (all_procs agents) = None \<longleftrightarrow> count_if agent_errored agents = 0"
    by (auto simp: find_first_None all_procs_def count_if_def filter_empty_conv agent_errored_def)
  have host: "hosts agents = [] \<longleftrightarrow> (\<forall>a \<in> set agents. a_host a = None)"
    by (auto simp: hosts_def split: option.splits)
  show ?thesis
    using part [of agents] none host
    by (auto simp: fleetSummary_eq summary_spec_def Let_def count_if_def)
qed

end
