(* ===== verification/LogStore.thy ===== *)
theory LogStore imports ApiTypes JsString begin

text \<open>
  The server side of the log stream: the table of internal/logstore/store.go with its
  \<open>Append\<close>, \<open>Prune\<close> and \<open>Since\<close>, the label match of internal/server/logstores.go and the
  handler of internal/dashboard/logs.go. A table is the list of its rows in ascending rowid
  order. SQLite gives a new row one more than the largest rowid present, 1 in an empty table
  (the table has no AUTOINCREMENT). The test \<open>like q text\<close> stands for SQLite's LIKE.

  The locale \<open>log_source\<close> is the contract the polling client relies on; it is interpreted on
  this table at the end.
\<close>

section \<open>The table\<close>

record new_line =
  nl_ts :: int
  nl_label :: jstr
  nl_stderr :: bool
  nl_text :: jstr

record stored_line =
  sl_row :: int
  sl_ts :: int
  sl_label :: jstr
  sl_stderr :: bool
  sl_text :: jstr

type_synonym log_table = "stored_line list"

definition next_row :: "log_table \<Rightarrow> int" where
  "next_row t = foldr (\<lambda>l m. max (sl_row l) m) t 0 + 1"

definition insert_line :: "log_table \<Rightarrow> new_line \<Rightarrow> log_table" where
  "insert_line t l =
     t @ [\<lparr>sl_row = next_row t, sl_ts = nl_ts l, sl_label = nl_label l,
           sl_stderr = nl_stderr l, sl_text = nl_text l\<rparr>]"

definition append_lines :: "log_table \<Rightarrow> new_line list \<Rightarrow> log_table" where
  "append_lines t ls = foldl insert_line t ls"

definition prune :: "log_table \<Rightarrow> int \<Rightarrow> log_table" where
  "prune t beforeMs = filter (\<lambda>l. \<not> sl_ts l < beforeMs) t"

datatype stream_filter = StreamAny | StreamStdout | StreamStderr

fun stream_match :: "stream_filter \<Rightarrow> stored_line \<Rightarrow> bool" where
  "stream_match StreamAny l = True"
| "stream_match StreamStdout l = (\<not> sl_stderr l)"
| "stream_match StreamStderr l = sl_stderr l"

text \<open>The \<open>WHERE\<close> clause of \<open>Since\<close>.\<close>

definition selected ::
  "(jstr \<Rightarrow> jstr \<Rightarrow> bool) \<Rightarrow> jstr list \<Rightarrow> stream_filter \<Rightarrow> jstr \<Rightarrow> log_table \<Rightarrow> log_table" where
  "selected like labels f q t =
     filter (\<lambda>l. sl_label l \<in> set labels \<and> stream_match f l \<and> (q = [] \<or> like q (sl_text l))) t"

definition sql_limit :: "int \<Rightarrow> 'a list \<Rightarrow> 'a list" where
  "sql_limit n xs = (if 0 < n then take (nat n) xs else xs)"

definition since ::
  "(jstr \<Rightarrow> jstr \<Rightarrow> bool) \<Rightarrow> log_table \<Rightarrow> jstr list \<Rightarrow> int \<Rightarrow> int \<Rightarrow> stream_filter \<Rightarrow> jstr \<Rightarrow> log_table \<times> int" where
  "since like t labels after limit f q =
     (if labels = [] then ([], after)
      else let sel = selected like labels f q t;
               out = (if 0 < after then sql_limit limit (filter (\<lambda>l. after < sl_row l) sel)
                      else rev (sql_limit limit (rev sel)))
           in (out, foldl (\<lambda>c l. max c (sl_row l)) after out))"

section \<open>Label match and handler\<close>

definition label_match :: "jstr \<Rightarrow> jstr \<Rightarrow> bool" where
  "label_match selector l \<longleftrightarrow> l = selector \<or> startsWith l (selector @ js ''#'')"

definition matched_labels :: "log_table \<Rightarrow> jstr \<Rightarrow> jstr list" where
  "matched_labels t selector = filter (label_match selector) (remdups (map sl_label t))"

type_synonym log_stores = "(jstr \<times> log_table) list"

definition store_query ::
  "(jstr \<Rightarrow> jstr \<Rightarrow> bool) \<Rightarrow> jstr \<Rightarrow> stream_filter \<Rightarrow> jstr \<Rightarrow> log_table \<Rightarrow> int \<Rightarrow> int \<Rightarrow> log_table \<times> int" where
  "store_query like selector f q t after limit =
     (let matched = matched_labels t selector
      in if matched = [] then ([], after) else since like t matched after limit f q)"

definition stores_since ::
  "(jstr \<Rightarrow> jstr \<Rightarrow> bool) \<Rightarrow> log_stores \<Rightarrow> jstr \<Rightarrow> jstr \<Rightarrow> int \<Rightarrow> int \<Rightarrow> stream_filter \<Rightarrow> jstr \<Rightarrow> log_table \<times> int" where
  "stores_since like stores agent selector after limit f q =
     (case map_of stores agent of
        None \<Rightarrow> ([], 0)
      | Some t \<Rightarrow> store_query like selector f q t after limit)"

definition streamFilterFor :: "jstr \<Rightarrow> stream_filter" where
  "streamFilterFor s =
     (if s = js ''stdout'' then StreamStdout else if s = js ''stderr'' then StreamStderr else StreamAny)"

definition parseLimit :: "int \<Rightarrow> int" where
  "parseLimit v = (if v \<le> 0 then 500 else if 5000 < v then 5000 else v)"

definition parseAfter :: "int \<Rightarrow> int" where
  "parseAfter v = (if v < 0 then 0 else v)"

text \<open>
  \<open>splitLogLabel\<close>: the app name before the last \<open>#\<close>, the instance number after it as \<open>Atoi\<close>
  reads it (0 on a syntax error, the nearest 64-bit value when out of range).
\<close>

definition instance_number :: "jstr \<Rightarrow> int" where
  "instance_number s =
     (let (neg, ds) = (case s of [] \<Rightarrow> (False, []) | c # r \<Rightarrow>
            if c = 0x2D then (True, r) else if c = 0x2B then (False, r) else (False, s));
          v = int (value_of_digits ds)
      in if ds = [] \<or> \<not> list_all is_digit ds then 0
         else max (- (2 ^ 63)) (min (2 ^ 63 - 1) (if neg then - v else v)))"

definition splitLogLabel :: "jstr \<Rightarrow> jstr \<times> int" where
  "splitLogLabel l =
     (case before_last 0x23 l of None \<Rightarrow> (l, 0)
      | Some n \<Rightarrow> (n, instance_number (drop (length n + 1) l)))"

definition line_view :: "stored_line \<Rightarrow> log_line" where
  "line_view l =
     \<lparr>l_ts = sl_ts l, l_name = fst (splitLogLabel (sl_label l)), l_instance = snd (splitLogLabel (sl_label l)),
      l_stderr = sl_stderr l, l_text = sl_text l\<rparr>"

definition logs_handler ::
  "(jstr \<Rightarrow> jstr \<Rightarrow> bool) \<Rightarrow> log_stores \<Rightarrow> jstr \<Rightarrow> jstr \<Rightarrow> jstr \<Rightarrow> int \<Rightarrow> int \<Rightarrow> jstr \<Rightarrow> logs_response fetched" where
  "logs_handler like stores agent selector stream limit after q =
     (if agent = [] \<or> selector = [] then Response (empty_response 400)
      else let (ls, c) = stores_since like stores agent selector (parseAfter after) (parseLimit limit)
                           (streamFilterFor stream) q
           in Response \<lparr>status = 200, json_body = Inr \<lparr>lr_cursor = c, lr_lines = map line_view ls\<rparr>,
                error_field = Inr None, body_text = []\<rparr>)"

section \<open>Error counts\<close>

text \<open>
  \<open>SELECT DISTINCT label\<close>, then the number of error lines of each label since a time, without
  the labels that have none; an agent without a store has no counts.
\<close>

definition Labels :: "log_table \<Rightarrow> jstr list" where
  "Labels t = remdups (map sl_label t)"

definition error_count :: "log_table \<Rightarrow> int \<Rightarrow> jstr \<Rightarrow> nat" where
  "error_count t since_ms l = length (filter (\<lambda>r. sl_label r = l \<and> sl_stderr r \<and> since_ms \<le> sl_ts r) t)"

definition ErrorCounts :: "log_table \<Rightarrow> int \<Rightarrow> (jstr \<times> int) list" where
  "ErrorCounts t since_ms =
     map (\<lambda>l. (l, int (error_count t since_ms l))) (filter (\<lambda>l. 0 < error_count t since_ms l) (Labels t))"

definition stores_error_counts :: "log_stores \<Rightarrow> jstr \<Rightarrow> int \<Rightarrow> (jstr \<times> int) list" where
  "stores_error_counts stores agent since_ms =
     (case map_of stores agent of None \<Rightarrow> [] | Some t \<Rightarrow> ErrorCounts t since_ms)"

text \<open>The handler counts the last five minutes.\<close>

definition logstats_handler :: "log_stores \<Rightarrow> int \<Rightarrow> jstr \<Rightarrow> (jstr \<times> int) list option fetched" where
  "logstats_handler stores now_ms agent =
     (if agent = [] then Response (empty_response 400)
      else Response \<lparr>status = 200, json_body = Inr (Some (stores_error_counts stores agent (now_ms - 5 * 60 * 1000))),
             error_field = Inr None, body_text = []\<rparr>)"

section \<open>Invariant of the table\<close>

definition table_ok :: "log_table \<Rightarrow> bool" where
  "table_ok t \<longleftrightarrow> sorted_wrt (<) (map sl_row t) \<and> (\<forall>l \<in> set t. 0 < sl_row l)"

lemma foldr_max_ge: "x \<in> set t \<Longrightarrow> f x \<le> foldr (\<lambda>l m. max (f l) m) t (0 :: int)"
  by (induction t) auto

lemma next_row_greater: "l \<in> set t \<Longrightarrow> sl_row l < next_row t"
  using foldr_max_ge [of l t sl_row] by (simp add: next_row_def)

lemma next_row_pos: "0 < next_row t"
proof -
  have "0 \<le> foldr (\<lambda>l m. max (sl_row l) m) t 0" by (induction t) auto
  then show ?thesis by (simp add: next_row_def)
qed

lemma table_ok_Nil [simp]: "table_ok []"
  by (simp add: table_ok_def)

lemma insert_line_ok: "table_ok t \<Longrightarrow> table_ok (insert_line t l)"
  by (auto simp: table_ok_def insert_line_def sorted_wrt_append next_row_greater next_row_pos)

lemma append_lines_ok: "table_ok t \<Longrightarrow> table_ok (append_lines t ls)"
  unfolding append_lines_def by (induction ls arbitrary: t) (auto simp: insert_line_ok)

lemma sorted_wrt_filter_map: "sorted_wrt P (map f t) \<Longrightarrow> sorted_wrt P (map f (filter g t))"
  by (simp add: sorted_wrt_map sorted_wrt_filter)

lemma filter_ok: "table_ok t \<Longrightarrow> table_ok (filter g t)"
  by (auto simp: table_ok_def sorted_wrt_filter_map)

lemma prune_ok: "table_ok t \<Longrightarrow> table_ok (prune t b)"
  by (simp add: prune_def filter_ok)

lemma selected_ok: "table_ok t \<Longrightarrow> table_ok (selected like labels f q t)"
  by (simp add: selected_def filter_ok)

lemma append_lines_extend: "\<exists>new. append_lines t ls = t @ new \<and> map sl_label new = map nl_label ls"
  unfolding append_lines_def
proof (induction ls arbitrary: t)
  case (Cons l ls)
  obtain new where "foldl insert_line (insert_line t l) ls = insert_line t l @ new"
    "map sl_label new = map nl_label ls"
    using Cons by blast
  moreover obtain r where "insert_line t l = t @ [r]" "sl_label r = nl_label l"
    by (simp add: insert_line_def)
  ultimately show ?case by simp
qed simp

section \<open>The contract of a log source\<close>

text \<open>
  What a polling client relies on: a source holds rows with positive, strictly ascending
  numbers; without a cursor it returns the newest \<open>n\<close> rows, with one the oldest \<open>n\<close> rows
  after it, and the cursor it hands back is the number of the last row returned, the caller's
  own when there is none. One store extends another when rows were only appended.
\<close>

locale log_source =
  fixes valid :: "'s \<Rightarrow> bool" and rows :: "'s \<Rightarrow> 'r list" and row :: "'r \<Rightarrow> int"
    and query :: "'s \<Rightarrow> int \<Rightarrow> nat \<Rightarrow> 'r list \<times> int"
  assumes ascending: "valid s \<Longrightarrow> sorted_wrt (<) (map row (rows s))"
    and positive: "valid s \<Longrightarrow> r \<in> set (rows s) \<Longrightarrow> 0 < row r"
    and backfill: "valid s \<Longrightarrow> 0 < n \<Longrightarrow> fst (query s 0 n) = drop (length (rows s) - n) (rows s)"
    and follow: "valid s \<Longrightarrow> 0 < n \<Longrightarrow> 0 < c \<Longrightarrow> fst (query s c n) = take n (filter (\<lambda>r. c < row r) (rows s))"
    and cursor: "valid s \<Longrightarrow> 0 < n \<Longrightarrow> 0 \<le> c \<Longrightarrow> snd (query s c n) =
      (if fst (query s c n) = [] then c else row (last (fst (query s c n))))"
begin

definition extends :: "'s \<Rightarrow> 's \<Rightarrow> bool" where
  "extends s s' \<longleftrightarrow> (\<exists>new. rows s' = rows s @ new)"

text \<open>
  What a client has seen: a contiguous run of the rows, and the cursor that marks its end.
\<close>

definition seen :: "'s \<Rightarrow> int \<Rightarrow> 'r list \<Rightarrow> bool" where
  "seen s c xs \<longleftrightarrow> (\<exists>pre post. rows s = pre @ xs @ post \<and> c = (if xs = [] then 0 else row (last xs)))"

lemma after_last:
  assumes "valid s" "rows s = pre @ xs @ post" "xs \<noteq> []"
  shows "filter (\<lambda>r. row (last xs) < row r) (rows s) = post"
proof -
  have sorted: "sorted_wrt (<) (map row (pre @ xs @ post))"
    using ascending [OF assms(1)] assms(2) by simp
  have xs: "xs = butlast xs @ [last xs]" using assms(3) by simp
  have "sorted_wrt (<) (map row (pre @ butlast xs @ last xs # post))"
    using sorted xs by (metis append.assoc append_Cons append_Nil)
  then have "\<forall>r \<in> set pre \<union> set (butlast xs). row r < row (last xs)"
    "\<forall>r \<in> set post. row (last xs) < row r"
    by (auto simp: sorted_wrt_append)
  moreover have "set xs = set (butlast xs) \<union> {last xs}"
    by (subst xs) simp
  ultimately have "filter (\<lambda>r. row (last xs) < row r) (pre @ xs) = []"
    "filter (\<lambda>r. row (last xs) < row r) post = post"
    by (auto simp: filter_empty_conv filter_id_conv dest: less_asym)
  then show ?thesis by (simp add: assms(2))
qed

text \<open>
  What a client that polls undisturbed still has to see: at most \<open>k\<close> rows after its run, which
  is empty only when it starts at the first row.
\<close>

definition pending :: "'s \<Rightarrow> int \<Rightarrow> 'r list \<Rightarrow> nat \<Rightarrow> bool" where
  "pending s c xs k \<longleftrightarrow> (\<exists>pre post. rows s = pre @ xs @ post \<and> c = (if xs = [] then 0 else row (last xs)) \<and>
     (xs = [] \<longrightarrow> pre = []) \<and> length post \<le> k)"

lemma pending_seen: "pending s c xs k \<Longrightarrow> seen s c xs"
  by (auto simp: pending_def seen_def)

lemma pending_start: "pending s 0 [] (length (rows s))"
  by (auto simp: pending_def)

lemma pending_mono: "pending s c xs k \<Longrightarrow> k \<le> m \<Longrightarrow> pending s c xs m"
  by (fastforce simp: pending_def)

lemma pending_extends: "pending s c xs k \<Longrightarrow> extends s s' \<Longrightarrow> pending s' c xs (length (rows s'))"
  by (fastforce simp: pending_def extends_def)

text \<open>One poll: it appends the next \<open>n\<close> rows of the run, and nothing once the end is seen.\<close>

lemma poll:
  assumes "valid s" "0 < n" "pending s c xs k"
  shows "pending s (snd (query s c n)) (xs @ fst (query s c n)) (k - n)" "k = 0 \<Longrightarrow> fst (query s c n) = []"
proof -
  obtain pre post where r: "rows s = pre @ xs @ post" and c: "c = (if xs = [] then 0 else row (last xs))"
    and pre: "xs = [] \<longrightarrow> pre = []" and k: "length post \<le> k"
    using assms(3) by (auto simp: pending_def)
  let ?out = "fst (query s c n)"
  have "\<exists>gap rest. post = gap @ ?out @ rest \<and> (xs \<noteq> [] \<longrightarrow> gap = []) \<and> (?out = [] \<longrightarrow> post = []) \<and> length rest \<le> k - n"
  proof (cases "xs = []")
    case True
    then have out: "?out = drop (length post - n) post" using backfill [OF assms(1,2)] c r pre by simp
    moreover have "drop (length post - n) post = [] \<longrightarrow> post = []" using assms(2) by (cases post) auto
    ultimately show ?thesis unfolding out using True
      by (rule_tac x = "take (length post - n) post" in exI, rule_tac x = "[]" in exI) simp
  next
    case False
    have "last xs \<in> set (rows s)" using False r by simp
    then have pos: "0 < c" using positive [OF assms(1)] c False by simp
    have "?out = take n post"
      using follow [OF assms(1,2) pos] after_last [OF assms(1) r False] c False by simp
    then show ?thesis using False k assms(2) by (rule_tac x = "[]" in exI, rule_tac x = "drop n post" in exI) auto
  qed
  then obtain gap rest where post: "post = gap @ ?out @ rest" "xs \<noteq> [] \<longrightarrow> gap = []" "?out = [] \<longrightarrow> post = []"
    and rest: "length rest \<le> k - n" by blast
  have c0: "0 \<le> c"
    using positive [OF assms(1), of "last xs"] c r by (auto intro: less_imp_le)
  have "snd (query s c n) = (if xs @ ?out = [] then 0 else row (last (xs @ ?out)))"
    using cursor [OF assms(1,2) c0] c by auto
  moreover have "rows s = (if xs = [] then gap else pre) @ (xs @ ?out) @ rest"
    using r pre post(1,2) by (cases "xs = []") simp_all
  moreover have "xs @ ?out = [] \<longrightarrow> gap = []" using post(1,3) by auto
  ultimately show "pending s (snd (query s c n)) (xs @ ?out) (k - n)"
    unfolding pending_def using rest by fastforce
  show "k = 0 \<Longrightarrow> ?out = []" using post(1) k by (metis append_is_Nil_conv le_zero_eq length_0_conv)
qed

text \<open>A client that has seen the end gets exactly the new rows, when they fit one answer.\<close>

lemma poll_new:
  assumes "valid s" "0 < n" "rows s = pre @ xs @ new" "length new \<le> n"
    "c = (if xs = [] then 0 else row (last xs))" "xs = [] \<Longrightarrow> pre = []"
  shows "fst (query s c n) = new"
proof (cases "xs = []")
  case True
  then show ?thesis using backfill [OF assms(1,2)] assms(3-6) by simp
next
  case False
  have "last xs \<in> set (rows s)" using False assms(3) by simp
  then have pos: "0 < c" using positive [OF assms(1)] assms(5) False by simp
  show ?thesis
    using follow [OF assms(1,2) pos] after_last [OF assms(1,3) False] assms(4,5) False by simp
qed

end

section \<open>The table is a log source\<close>

lemma foldl_max_rows:
  "sorted_wrt (<) (map row out) \<Longrightarrow> (\<And>r. r \<in> set out \<Longrightarrow> c < row r) \<Longrightarrow>
   foldl (\<lambda>c l. max c (row l)) c out = (if out = [] then c else row (last out))"
  for c :: int and row :: "'r \<Rightarrow> int"
proof (induction out rule: rev_induct)
  case (snoc x xs)
  have "foldl (\<lambda>c l. max c (row l)) c xs = (if xs = [] then c else row (last xs))"
    using snoc.prems by (intro snoc.IH) (auto simp: sorted_wrt_append)
  moreover have "c < row x" using snoc.prems by simp
  moreover have "xs \<noteq> [] \<Longrightarrow> row (last xs) < row x" using snoc.prems by (simp add: sorted_wrt_append)
  ultimately show ?case by auto
qed simp

lemma since_fst:
  assumes "labels \<noteq> []" "0 < n"
  shows "fst (since like t labels 0 (int n) f q) =
      drop (length (selected like labels f q t) - n) (selected like labels f q t)"
    and "0 < c \<Longrightarrow> fst (since like t labels c (int n) f q) =
      take n (filter (\<lambda>l. c < sl_row l) (selected like labels f q t))"
  using assms by (simp_all add: since_def sql_limit_def Let_def take_rev)

lemma since_rows:
  assumes "table_ok t" "labels \<noteq> []" "0 < n" "0 \<le> c"
  shows "table_ok (fst (since like t labels c (int n) f q)) \<and>
    (\<forall>l \<in> set (fst (since like t labels c (int n) f q)). c < sl_row l)"
proof -
  let ?sel = "selected like labels f q t"
  have ok: "table_ok ?sel" by (simp add: selected_ok assms(1))
  have drop: "table_ok (drop k xs)" if "table_ok xs" for k xs
    using that by (auto simp: table_ok_def drop_map [symmetric] sorted_wrt_drop dest: in_set_dropD)
  have take: "table_ok (take k xs)" if "table_ok xs" for k xs
    using that by (auto simp: table_ok_def take_map [symmetric] sorted_wrt_take dest: in_set_takeD)
  show ?thesis
  proof (cases "c = 0")
    case True
    have "table_ok (fst (since like t labels 0 (int n) f q))"
      using drop [OF ok] since_fst(1) [OF assms(2,3)] by simp
    with True show ?thesis by (simp add: table_ok_def)
  next
    case False
    then have "fst (since like t labels c (int n) f q) = take n (filter (\<lambda>l. c < sl_row l) ?sel)"
      using since_fst(2) [OF assms(2,3)] assms(4) by simp
    then show ?thesis using take [OF filter_ok [OF ok]] by (auto dest: in_set_takeD)
  qed
qed

lemma since_cursor:
  assumes "table_ok t" "labels \<noteq> []" "0 < n" "0 \<le> c"
  shows "snd (since like t labels c (int n) f q) =
    (if fst (since like t labels c (int n) f q) = [] then c
     else sl_row (last (fst (since like t labels c (int n) f q))))"
proof -
  let ?out = "fst (since like t labels c (int n) f q)"
  have "snd (since like t labels c (int n) f q) = foldl (\<lambda>c l. max c (sl_row l)) c ?out"
    using assms(2) by (simp add: since_def Let_def)
  then show ?thesis
    using since_rows [OF assms] foldl_max_rows [of sl_row ?out c] by (simp add: table_ok_def)
qed

text \<open>The rows a selection shows, and the server's query as a log source.\<close>

definition source_rows ::
  "(jstr \<Rightarrow> jstr \<Rightarrow> bool) \<Rightarrow> jstr \<Rightarrow> stream_filter \<Rightarrow> jstr \<Rightarrow> log_table \<Rightarrow> log_table" where
  "source_rows like selector f q t =
     filter (\<lambda>l. label_match selector (sl_label l) \<and> stream_match f l \<and> (q = [] \<or> like q (sl_text l))) t"

lemma source_rows_selected: "source_rows like selector f q t = selected like (matched_labels t selector) f q t"
  by (auto simp: source_rows_def selected_def matched_labels_def intro: filter_cong)

lemma selected_no_labels [simp]: "selected like [] f q t = []"
  by (simp add: selected_def)

lemma source_rows_none: "matched_labels t selector = [] \<Longrightarrow> source_rows like selector f q t = []"
  by (simp add: source_rows_selected selected_def)

lemma source_rows_append:
  "source_rows like selector f q (t @ u) = source_rows like selector f q t @ source_rows like selector f q u"
  by (simp add: source_rows_def)

lemma source_rows_ok: "table_ok t \<Longrightarrow> table_ok (source_rows like selector f q t)"
  by (simp add: source_rows_def filter_ok)

interpretation store: log_source table_ok "source_rows like selector f q" sl_row
    "\<lambda>t c n. store_query like selector f q t c (int n)"
  for like selector f q
proof (unfold_locales, goal_cases)
  case (1 s)
  then show ?case using source_rows_ok by (auto simp: table_ok_def)
next
  case (2 s r)
  then show ?case using source_rows_ok [OF 2(1)] by (auto simp: table_ok_def)
next
  case (3 s n)
  then show ?case
    by (auto simp: store_query_def Let_def source_rows_none since_fst(1) source_rows_selected)
next
  case (4 s n c)
  then show ?case
    by (auto simp: store_query_def Let_def source_rows_none since_fst(2) source_rows_selected)
next
  case (5 s n c)
  then show ?case using since_cursor by (auto simp: store_query_def Let_def)
qed

section \<open>The sum of the counts\<close>

lemma length_filter_labels:
  "distinct ls \<Longrightarrow> sum_list (map (\<lambda>l. length (filter (\<lambda>r. f r = l \<and> p r) t)) ls) = length (filter (\<lambda>r. f r \<in> set ls \<and> p r) t)"
proof (induction ls)
  case (Cons l ls)
  have "length (filter (\<lambda>r. f r \<in> set (l # ls) \<and> p r) t) =
      length (filter (\<lambda>r. f r = l \<and> p r) t) + length (filter (\<lambda>r. f r \<in> set ls \<and> p r) t)"
    using Cons.prems by (induction t) auto
  then show ?case using Cons by simp
qed simp

lemma sum_list_nonzero: "sum_list (map f (filter (\<lambda>x. q x \<and> 0 < f x) xs)) = sum_list (map (f :: 'a \<Rightarrow> nat) (filter q xs))"
  by (induction xs) auto

lemma sum_list_int: "sum_list (map (\<lambda>x. int (f x)) xs) = int (sum_list (map f xs))"
  by (induction xs) auto

text \<open>The counts of the labels of one selection, added up, are the error lines of its log.\<close>

lemma error_counts_sum:
  "sum_list (map snd (filter (\<lambda>(l, c). label_match selector l) (ErrorCounts t since_ms))) =
     int (length (filter (\<lambda>r. since_ms \<le> sl_ts r) (source_rows like selector StreamStderr [] t)))"
proof -
  let ?n = "error_count t since_ms" and ?m = "label_match selector"
  have "filter (\<lambda>(l, c). ?m l) (ErrorCounts t since_ms) = map (\<lambda>l. (l, int (?n l))) (filter (\<lambda>l. ?m l \<and> 0 < ?n l) (Labels t))"
    by (simp add: ErrorCounts_def filter_map comp_def conj_commute)
  then have "sum_list (map snd (filter (\<lambda>(l, c). ?m l) (ErrorCounts t since_ms))) =
      int (sum_list (map ?n (filter (\<lambda>l. ?m l \<and> 0 < ?n l) (Labels t))))"
    by (simp add: comp_def sum_list_int)
  also have "\<dots> = int (sum_list (map ?n (filter ?m (Labels t))))" by (simp only: sum_list_nonzero)
  also have "\<dots> = int (length (filter (\<lambda>r. sl_label r \<in> set (filter ?m (Labels t)) \<and> sl_stderr r \<and> since_ms \<le> sl_ts r) t))"
    unfolding error_count_def by (subst length_filter_labels) (simp_all add: Labels_def)
  also have "filter (\<lambda>r. sl_label r \<in> set (filter ?m (Labels t)) \<and> sl_stderr r \<and> since_ms \<le> sl_ts r) t =
      filter (\<lambda>r. since_ms \<le> sl_ts r) (source_rows like selector StreamStderr [] t)"
    by (auto simp: source_rows_def Labels_def intro: filter_cong)
  finally show ?thesis .
qed

end
