(* ===== verification/LogStream.thy ===== *)
theory LogStream imports LogStore Api begin

text \<open>
  The \<open>useLogStream\<close> hook (web/src/hooks/useLogStream.ts): its state, its two effects, the
  poll and the closure variables \<open>stop\<close> and \<open>first\<close> of every poller that was ever started,
  with the requests in flight, so that responses may arrive late and in any order. An effect
  runs together with the render that triggers it.
\<close>

section \<open>State\<close>

record log_args =
  ag_agent :: jstr
  ag_proc :: jstr
  ag_stream :: jstr
  ag_limit :: int
  ag_q :: jstr

text \<open>One run of the polling effect: the arguments it closed over and its two flags.\<close>

record poller =
  po_args :: log_args
  po_stop :: bool
  po_first :: bool

text \<open>A request in flight and the poller that awaits it.\<close>

record in_flight =
  if_poller :: nat
  if_after :: int

record log_stream =
  ls_args :: log_args
  ls_enabled :: bool
  ls_mounted :: bool
  ls_lines :: "log_line list"
  ls_cursor :: int
  ls_pollers :: "poller list"
  ls_interval :: "nat option"
  ls_in_flight :: "in_flight list"

definition LOG_CAP :: nat where
  "LOG_CAP = 5000"

section \<open>Operations\<close>

definition poll_request :: "log_args \<Rightarrow> int \<Rightarrow> request" where
  "poll_request a after =
     getLogs_req (ag_agent a) (ag_proc a)
       \<lparr>lo_stream = ag_stream a, lo_limit = ag_limit a, lo_after = after, lo_q = ag_q a\<rparr>"

text \<open>The part of \<open>tick\<close> before its await: the request of poller \<open>i\<close> is sent.\<close>

definition tick :: "nat \<Rightarrow> log_stream \<Rightarrow> log_stream" where
  "tick i h =
     (let after = (if po_first (ls_pollers h ! i) then 0 else ls_cursor h)
      in h\<lparr>ls_in_flight := ls_in_flight h @ [\<lparr>if_poller = i, if_after = after\<rparr>]\<rparr>)"

text \<open>The part of \<open>tick\<close> after its await, for a response that was read.\<close>

definition on_logs :: "nat \<Rightarrow> logs_response \<Rightarrow> log_stream \<Rightarrow> log_stream" where
  "on_logs i res h =
     (let p = ls_pollers h ! i
      in if po_stop p then h
         else h\<lparr>ls_cursor := (if lr_cursor res \<noteq> 0 then lr_cursor res else ls_cursor h),
                ls_pollers := (ls_pollers h)[i := p\<lparr>po_first := False\<rparr>],
                ls_lines := (if 0 < length (lr_lines res)
                             then keep_last LOG_CAP (ls_lines h @ lr_lines res) else ls_lines h)\<rparr>)"

text \<open>The k-th request in flight settles; an error is swallowed.\<close>

definition settle :: "nat \<Rightarrow> logs_response fetched \<Rightarrow> log_stream \<Rightarrow> log_stream" where
  "settle k f h =
     (let r = ls_in_flight h ! k;
          h' = h\<lparr>ls_in_flight := take k (ls_in_flight h) @ drop (k + 1) (ls_in_flight h)\<rparr>
      in case await_fetch (Inr (poll_request (po_args (ls_pollers h ! if_poller r)) (if_after r)))
                (\<lambda>_. f) getLogs_res of
           Inl _ \<Rightarrow> h'
         | Inr res \<Rightarrow> on_logs (if_poller r) res h')"

definition reset_effect :: "log_stream \<Rightarrow> log_stream" where
  "reset_effect h = h\<lparr>ls_lines := [], ls_cursor := 0\<rparr>"

definition start_effect :: "log_stream \<Rightarrow> log_stream" where
  "start_effect h =
     (if \<not> ls_enabled h then h
      else let i = length (ls_pollers h)
           in tick i (h\<lparr>ls_pollers := ls_pollers h @ [\<lparr>po_args = ls_args h, po_stop = False, po_first = True\<rparr>],
                        ls_interval := Some i\<rparr>))"

definition cleanup_effect :: "log_stream \<Rightarrow> log_stream" where
  "cleanup_effect h =
     (case ls_interval h of
        None \<Rightarrow> h
      | Some i \<Rightarrow> h\<lparr>ls_pollers := (ls_pollers h)[i := (ls_pollers h ! i)\<lparr>po_stop := True\<rparr>],
                   ls_interval := None\<rparr>)"

definition mount :: "log_args \<Rightarrow> bool \<Rightarrow> log_stream" where
  "mount a e =
     start_effect (reset_effect
       \<lparr>ls_args = a, ls_enabled = e, ls_mounted = True, ls_lines = [], ls_cursor = 0,
        ls_pollers = [], ls_interval = None, ls_in_flight = []\<rparr>)"

text \<open>
  A render with new arguments: the effects whose dependencies changed are cleaned up, then
  run again in their order.
\<close>

definition rerender :: "log_args \<Rightarrow> bool \<Rightarrow> log_stream \<Rightarrow> log_stream" where
  "rerender a e h =
     (let key = (a \<noteq> ls_args h); deps = (key \<or> e \<noteq> ls_enabled h);
          h = (if deps then cleanup_effect h else h);
          h = h\<lparr>ls_args := a, ls_enabled := e\<rparr>;
          h = (if key then reset_effect h else h)
      in if deps then start_effect h else h)"

definition unmount :: "log_stream \<Rightarrow> log_stream" where
  "unmount h = (cleanup_effect h)\<lparr>ls_mounted := False\<rparr>"

definition clear :: "log_stream \<Rightarrow> log_stream" where
  "clear h = h\<lparr>ls_lines := [], ls_cursor := 0\<rparr>"

section \<open>Runs\<close>

text \<open>
  The hook reacts to renders, its interval timer, settled requests in any order, \<open>clear\<close> and
  unmounting. \<open>genuine a res\<close> says which responses the server may give to requests with the
  arguments \<open>a\<close>.
\<close>

inductive stream_step ::
  "(log_args \<Rightarrow> logs_response \<Rightarrow> bool) \<Rightarrow> log_stream \<Rightarrow> log_stream \<Rightarrow> bool" for genuine where
  render: "ls_mounted h \<Longrightarrow> stream_step genuine h (rerender a e h)"
| timer: "ls_interval h = Some i \<Longrightarrow> stream_step genuine h (tick i h)"
| response: "k < length (ls_in_flight h) \<Longrightarrow>
    genuine (po_args (ls_pollers h ! if_poller (ls_in_flight h ! k))) res \<Longrightarrow>
    json_body r = Inr res \<Longrightarrow> stream_step genuine h (settle k (Response r) h)"
| failure: "k < length (ls_in_flight h) \<Longrightarrow> is_error (await_fetch (Inr q) (\<lambda>_. f) getLogs_res) \<Longrightarrow>
    stream_step genuine h (settle k f h)"
| cleared: "ls_mounted h \<Longrightarrow> stream_step genuine h (clear h)"
| unmounted: "ls_mounted h \<Longrightarrow> stream_step genuine h (unmount h)"

inductive stream_reachable :: "(log_args \<Rightarrow> logs_response \<Rightarrow> bool) \<Rightarrow> log_stream \<Rightarrow> bool" for genuine where
  start: "stream_reachable genuine (mount a e)"
| step: "stream_reachable genuine h \<Longrightarrow> stream_step genuine h h' \<Longrightarrow> stream_reachable genuine h'"

section \<open>The invariant\<close>

definition live :: "log_stream \<Rightarrow> nat \<Rightarrow> bool" where
  "live h i \<longleftrightarrow> i < length (ls_pollers h) \<and> \<not> po_stop (ls_pollers h ! i)"

definition stream_ok :: "(log_args \<Rightarrow> log_line \<Rightarrow> bool) \<Rightarrow> log_stream \<Rightarrow> bool" where
  "stream_ok from h \<longleftrightarrow>
     length (ls_lines h) \<le> LOG_CAP \<and>
     (\<forall>l \<in> set (ls_lines h). from (ls_args h) l) \<and>
     (\<forall>r \<in> set (ls_in_flight h). if_poller r < length (ls_pollers h)) \<and>
     (\<forall>i. live h i \<longleftrightarrow> ls_interval h = Some i) \<and>
     (\<forall>i. live h i \<longrightarrow> po_args (ls_pollers h ! i) = ls_args h) \<and>
     (ls_interval h \<noteq> None \<longleftrightarrow> ls_mounted h \<and> ls_enabled h)"

lemma tick_ok: "stream_ok from h \<Longrightarrow> i < length (ls_pollers h) \<Longrightarrow> stream_ok from (tick i h)"
  by (auto simp: stream_ok_def tick_def live_def Let_def)

text \<open>The invariant with the polling effect not running.\<close>

definition idle_ok :: "(log_args \<Rightarrow> log_line \<Rightarrow> bool) \<Rightarrow> log_stream \<Rightarrow> bool" where
  "idle_ok from h \<longleftrightarrow>
     length (ls_lines h) \<le> LOG_CAP \<and>
     (\<forall>l \<in> set (ls_lines h). from (ls_args h) l) \<and>
     (\<forall>r \<in> set (ls_in_flight h). if_poller r < length (ls_pollers h)) \<and>
     (\<forall>i. \<not> live h i) \<and> ls_interval h = None"

lemma cleanup_idle: "stream_ok from h \<Longrightarrow> idle_ok from (cleanup_effect h)"
proof (cases "ls_interval h")
  case (Some i)
  assume ok: "stream_ok from h"
  have "\<not> live (cleanup_effect h) j" for j
    using ok Some by (cases "i = j") (auto simp: stream_ok_def cleanup_effect_def live_def)
  with ok Some show ?thesis by (simp add: stream_ok_def idle_ok_def cleanup_effect_def)
qed (auto simp: stream_ok_def idle_ok_def cleanup_effect_def)

lemma start_ok: "idle_ok from h \<Longrightarrow> ls_mounted h \<Longrightarrow> stream_ok from (start_effect h)"
  by (auto simp: stream_ok_def idle_ok_def start_effect_def tick_def live_def Let_def nth_append less_Suc_eq)

lemma reset_idle: "idle_ok from h \<Longrightarrow> idle_ok from' (reset_effect (h\<lparr>ls_args := a, ls_enabled := e\<rparr>))"
  by (auto simp: idle_ok_def reset_effect_def live_def)

lemma mount_ok: "stream_ok from (mount a e)"
  unfolding mount_def by (rule start_ok) (auto simp: idle_ok_def reset_effect_def live_def)

lemma cleanup_simps [simp]:
  "ls_mounted (cleanup_effect h) = ls_mounted h" "ls_args (cleanup_effect h) = ls_args h"
  "ls_lines (cleanup_effect h) = ls_lines h" "ls_cursor (cleanup_effect h) = ls_cursor h"
  "ls_in_flight (cleanup_effect h) = ls_in_flight h" "ls_enabled (cleanup_effect h) = ls_enabled h"
  by (simp_all add: cleanup_effect_def split: option.splits)

lemma rerender_ok:
  assumes "stream_ok from h" "ls_mounted h" shows "stream_ok from (rerender a e h)"
proof -
  note idle = cleanup_idle [OF assms(1)]
  consider "a \<noteq> ls_args h" | "a = ls_args h" "e \<noteq> ls_enabled h" | "a = ls_args h" "e = ls_enabled h"
    by blast
  then show ?thesis
  proof cases
    case 1
    have "stream_ok from (start_effect (reset_effect ((cleanup_effect h)\<lparr>ls_args := a, ls_enabled := e\<rparr>)))"
      using reset_idle [OF idle] by (rule start_ok) (simp add: reset_effect_def assms(2))
    with 1 show ?thesis by (simp add: rerender_def Let_def)
  next
    case 2
    have "idle_ok from ((cleanup_effect h)\<lparr>ls_args := a, ls_enabled := e\<rparr>)"
      using idle 2(1) by (simp add: idle_ok_def live_def)
    then have "stream_ok from (start_effect ((cleanup_effect h)\<lparr>ls_args := a, ls_enabled := e\<rparr>))"
      by (rule start_ok) (simp add: assms(2))
    with 2 show ?thesis by (simp add: rerender_def Let_def)
  next
    case 3
    with assms(1) show ?thesis by (simp add: rerender_def)
  qed
qed

lemma unmount_ok: "stream_ok from h \<Longrightarrow> stream_ok from (unmount h)"
  using cleanup_idle [of "from" h] by (auto simp: stream_ok_def idle_ok_def unmount_def live_def)

lemma clear_ok: "stream_ok from h \<Longrightarrow> stream_ok from (clear h)"
  by (auto simp: stream_ok_def clear_def live_def)

lemma drop_in_flight_ok:
  "stream_ok from h \<Longrightarrow> stream_ok from (h\<lparr>ls_in_flight := take k (ls_in_flight h) @ drop (k + 1) (ls_in_flight h)\<rparr>)"
  by (auto simp: stream_ok_def live_def dest: in_set_takeD in_set_dropD)

lemma on_logs_ok:
  assumes "stream_ok from h" "i < length (ls_pollers h)"
    "\<And>l. l \<in> set (lr_lines res) \<Longrightarrow> from (po_args (ls_pollers h ! i)) l"
  shows "stream_ok from (on_logs i res h)"
proof (cases "po_stop (ls_pollers h ! i)")
  case False
  let ?h = "on_logs i res h"
  have i: "live h i" "ls_interval h = Some i" "po_args (ls_pollers h ! i) = ls_args h"
    using False assms(1,2) by (auto simp: stream_ok_def live_def)
  have "live ?h j \<longleftrightarrow> live h j" for j
    using False assms(2) by (auto simp: live_def on_logs_def Let_def nth_list_update)
  moreover have "po_args (ls_pollers ?h ! j) = po_args (ls_pollers h ! j)" for j
    using False assms(2) by (cases "i = j") (auto simp: on_logs_def Let_def)
  moreover have "l \<in> set (ls_lines ?h) \<Longrightarrow> from (ls_args h) l" for l
    using False assms(1,3) i set_keep_last [of LOG_CAP "ls_lines h @ lr_lines res"]
    by (auto simp: on_logs_def Let_def stream_ok_def split: if_splits)
  moreover have "length (ls_lines ?h) \<le> LOG_CAP" "ls_args ?h = ls_args h" "ls_in_flight ?h = ls_in_flight h"
    "ls_mounted ?h = ls_mounted h" "ls_enabled ?h = ls_enabled h" "ls_interval ?h = ls_interval h"
    "length (ls_pollers ?h) = length (ls_pollers h)"
    using assms(1) by (simp_all add: on_logs_def Let_def stream_ok_def)
  ultimately show ?thesis using assms(1) by (simp add: stream_ok_def)
qed (use assms(1) in \<open>simp add: on_logs_def\<close>)

lemma settle_ok:
  assumes "stream_ok from h" "k < length (ls_in_flight h)"
    "\<And>res l. await_fetch (Inr (poll_request (po_args (ls_pollers h ! if_poller (ls_in_flight h ! k)))
       (if_after (ls_in_flight h ! k)))) (\<lambda>_. f) getLogs_res = Inr res \<Longrightarrow>
       l \<in> set (lr_lines res) \<Longrightarrow> from (po_args (ls_pollers h ! if_poller (ls_in_flight h ! k))) l"
  shows "stream_ok from (settle k f h)"
proof -
  let ?r = "ls_in_flight h ! k"
  have "?r \<in> set (ls_in_flight h)" using assms(2) by simp
  then have i: "if_poller ?r < length (ls_pollers h)" using assms(1) by (simp add: stream_ok_def)
  show ?thesis
  proof (cases "await_fetch (Inr (poll_request (po_args (ls_pollers h ! if_poller ?r)) (if_after ?r)))
      (\<lambda>_. f) getLogs_res")
    case (Inl e)
    then show ?thesis using drop_in_flight_ok [OF assms(1)] by (simp add: settle_def Let_def)
  next
    case (Inr res)
    then show ?thesis
      using on_logs_ok [OF drop_in_flight_ok [OF assms(1), of k], of "if_poller ?r" res] i assms(3) [OF Inr]
      by (simp add: settle_def Let_def)
  qed
qed

lemma step_ok:
  assumes "stream_step genuine h h'" "stream_ok from h"
    "\<And>a res l. genuine a res \<Longrightarrow> l \<in> set (lr_lines res) \<Longrightarrow> from a l"
  shows "stream_ok from h'"
  using assms(1,2)
proof induction
  case (timer h i)
  then have "i < length (ls_pollers h)" by (auto simp: stream_ok_def live_def)
  with timer show ?case by (simp add: tick_ok)
next
  case (response k h res r)
  show ?case
    by (rule settle_ok [OF response(4,1)])
      (use response assms(3) in \<open>auto simp: getLogs_res_def json_or_401_def split: if_splits\<close>)
next
  case (failure k h q f)
  show ?case
    by (rule settle_ok [OF failure(3,1)]) (use failure(2) in auto)
qed (simp_all add: rerender_ok clear_ok unmount_ok)

lemma reachable_ok:
  assumes "stream_reachable genuine h" "\<And>a res l. genuine a res \<Longrightarrow> l \<in> set (lr_lines res) \<Longrightarrow> from a l"
  shows "stream_ok from h"
  using assms(1)
proof induction
  case (step h h')
  then show ?case using step_ok [OF step(2) step(3)] assms(2) by blast
qed (rule mount_ok)

section \<open>Polling the server\<close>

text \<open>The server answers the k-th request in flight from the stores \<open>S\<close>.\<close>

definition answer :: "(jstr \<Rightarrow> jstr \<Rightarrow> bool) \<Rightarrow> log_stores \<Rightarrow> nat \<Rightarrow> log_stream \<Rightarrow> log_stream" where
  "answer like S k h =
     (let r = ls_in_flight h ! k; a = po_args (ls_pollers h ! if_poller r)
      in settle k (logs_handler like S (ag_agent a) (ag_proc a) (ag_stream a) (ag_limit a) (if_after r) (ag_q a)) h)"

text \<open>One interval in which the answer arrives before the next tick.\<close>

definition interval_poll :: "(jstr \<Rightarrow> jstr \<Rightarrow> bool) \<Rightarrow> log_stores \<Rightarrow> log_stream \<Rightarrow> log_stream" where
  "interval_poll like S h =
     (case ls_interval h of None \<Rightarrow> h | Some i \<Rightarrow> answer like S (length (ls_in_flight h)) (tick i h))"

definition stores_with :: "log_args \<Rightarrow> log_table \<Rightarrow> log_stores \<Rightarrow> log_stores" where
  "stores_with a t others = (ag_agent a, t) # others"

text \<open>
  Opening the log of \<open>a\<close> over the table \<open>t\<close>, then one poll after each batch of lines the
  server appends.
\<close>

definition watch_step ::
  "(jstr \<Rightarrow> jstr \<Rightarrow> bool) \<Rightarrow> log_stores \<Rightarrow> log_args \<Rightarrow> log_table \<times> log_stream \<Rightarrow> new_line list \<Rightarrow> log_table \<times> log_stream" where
  "watch_step like others a s ls =
     (let t = append_lines (fst s) ls in (t, interval_poll like (stores_with a t others) (snd s)))"

definition watch ::
  "(jstr \<Rightarrow> jstr \<Rightarrow> bool) \<Rightarrow> log_stores \<Rightarrow> log_args \<Rightarrow> log_table \<Rightarrow> new_line list list \<Rightarrow> log_table \<times> log_stream" where
  "watch like others a t batches =
     foldl (watch_step like others a) (t, answer like (stores_with a t others) 0 (mount a True)) batches"

definition args_ok :: "log_args \<Rightarrow> bool" where
  "args_ok a \<longleftrightarrow> ag_agent a \<noteq> [] \<and> ag_proc a \<noteq> [] \<and> 0 < ag_limit a \<and> ag_limit a \<le> 5000"

abbreviation rows_of :: "(jstr \<Rightarrow> jstr \<Rightarrow> bool) \<Rightarrow> log_args \<Rightarrow> log_table \<Rightarrow> log_table" where
  "rows_of like a \<equiv> source_rows like (ag_proc a) (streamFilterFor (ag_stream a)) (ag_q a)"

abbreviation query_of :: "(jstr \<Rightarrow> jstr \<Rightarrow> bool) \<Rightarrow> log_args \<Rightarrow> log_table \<Rightarrow> int \<Rightarrow> log_table \<times> int" where
  "query_of like a t c \<equiv> store_query like (ag_proc a) (streamFilterFor (ag_stream a)) (ag_q a) t c (ag_limit a)"

text \<open>The hook's state when it has polled one selection undisturbed and shows the rows \<open>xs\<close>.\<close>

definition tracks :: "log_args \<Rightarrow> int \<Rightarrow> log_table \<Rightarrow> log_stream \<Rightarrow> bool" where
  "tracks a c xs h \<longleftrightarrow>
     ls_args h = a \<and> ls_interval h = Some 0 \<and> ls_in_flight h = [] \<and> ls_cursor h = c \<and>
     ls_lines h = keep_last LOG_CAP (map line_view xs) \<and>
     (\<exists>f. ls_pollers h = [\<lparr>po_args = a, po_stop = False, po_first = f\<rparr>] \<and> (f \<longrightarrow> c = 0))"

lemma handler_ok:
  assumes "args_ok a" "0 \<le> c"
  shows "\<exists>r. logs_handler like (stores_with a t others) (ag_agent a) (ag_proc a) (ag_stream a) (ag_limit a) c (ag_q a) =
      Response r \<and> getLogs_res r =
      Inr \<lparr>lr_cursor = snd (query_of like a t c), lr_lines = map line_view (fst (query_of like a t c))\<rparr>"
  using assms
  by (auto simp: args_ok_def logs_handler_def stores_with_def stores_since_def parseAfter_def parseLimit_def
      getLogs_res_def json_or_401_def Let_def case_prod_unfold)

text \<open>The effect of one answered poll on the lines and the cursor.\<close>

lemma show_lines:
  "(if 0 < length (map line_view ys)
    then keep_last LOG_CAP (keep_last LOG_CAP (map line_view xs) @ map line_view ys)
    else keep_last LOG_CAP (map line_view xs)) = keep_last LOG_CAP (map line_view (xs @ ys))"
  by (simp add: keep_last_append)

lemma query_cursor:
  assumes "args_ok a" "table_ok t" "0 \<le> c"
  shows "snd (query_of like a t c) =
    (if fst (query_of like a t c) = [] then c else sl_row (last (fst (query_of like a t c))))"
  using store.cursor [of t "nat (ag_limit a)" c like "ag_proc a" "streamFilterFor (ag_stream a)" "ag_q a"] assms
  by (simp add: args_ok_def)

lemma query_cursor_0:
  assumes "args_ok a" "table_ok t" "0 \<le> c" "snd (query_of like a t c) = 0"
  shows "c = 0 \<and> fst (query_of like a t c) = []"
proof -
  have "table_ok (fst (query_of like a t c))"
    using since_rows [of t "matched_labels t (ag_proc a)" "nat (ag_limit a)" c] assms
    by (simp add: store_query_def Let_def args_ok_def)
  then have "fst (query_of like a t c) \<noteq> [] \<Longrightarrow> 0 < sl_row (last (fst (query_of like a t c)))"
    by (simp add: table_ok_def)
  with query_cursor [OF assms(1-3), of like] assms(4) show ?thesis by (auto split: if_splits)
qed

lemma answered_poll:
  assumes "args_ok a" "table_ok t" "0 \<le> c" "ls_args h = a" "ls_interval h = Some 0"
    "ls_in_flight h = [\<lparr>if_poller = 0, if_after = c\<rparr>]" "ls_cursor h = c"
    "ls_lines h = keep_last LOG_CAP (map line_view xs)"
    "ls_pollers h = [\<lparr>po_args = a, po_stop = False, po_first = f\<rparr>]"
  shows "tracks a (snd (query_of like a t c)) (xs @ fst (query_of like a t c))
    (answer like (stores_with a t others) 0 h)"
proof -
  obtain r where r: "logs_handler like (stores_with a t others) (ag_agent a) (ag_proc a) (ag_stream a)
      (ag_limit a) c (ag_q a) = Response r"
    "getLogs_res r = Inr \<lparr>lr_cursor = snd (query_of like a t c),
       lr_lines = map line_view (fst (query_of like a t c))\<rparr>"
    using handler_ok [OF assms(1,3)] by blast
  have "answer like (stores_with a t others) 0 h =
      on_logs 0 \<lparr>lr_cursor = snd (query_of like a t c), lr_lines = map line_view (fst (query_of like a t c))\<rparr>
        (h\<lparr>ls_in_flight := []\<rparr>)"
    using assms(6,9) r by (simp add: answer_def settle_def Let_def)
  then show ?thesis
    using assms(4-9) query_cursor_0 [OF assms(1-3), of like] show_lines [of "fst (query_of like a t c)" xs]
    by (auto simp: tracks_def on_logs_def Let_def)
qed

lemma tracks_poll:
  assumes "args_ok a" "table_ok t" "0 \<le> c" "tracks a c xs h"
  shows "tracks a (snd (query_of like a t c)) (xs @ fst (query_of like a t c))
    (interval_poll like (stores_with a t others) h)"
proof -
  obtain f where f: "ls_pollers h = [\<lparr>po_args = a, po_stop = False, po_first = f\<rparr>]" "f \<longrightarrow> c = 0"
    using assms(4) by (auto simp: tracks_def)
  have tick: "tick 0 h = h\<lparr>ls_in_flight := [\<lparr>if_poller = 0, if_after = c\<rparr>]\<rparr>"
    using assms(4) f by (auto simp: tracks_def tick_def)
  show ?thesis
    using answered_poll [OF assms(1-3), of "tick 0 h" xs f] assms(4) f
    by (simp add: interval_poll_def tracks_def tick)
qed

lemma tracks_mount:
  assumes "args_ok a" "table_ok t"
  shows "tracks a (snd (query_of like a t 0)) (fst (query_of like a t 0))
    (answer like (stores_with a t others) 0 (mount a True))"
  using answered_poll [OF assms, of 0 "mount a True" "[]" True like others]
  by (simp add: mount_def start_effect_def reset_effect_def tick_def keep_last_def)

text \<open>
  A run of watching: the table stays in order, the hook has seen a contiguous run of the rows,
  and every answered poll brings it one answer closer to the last one.
\<close>

abbreviation pending_of :: "(jstr \<Rightarrow> jstr \<Rightarrow> bool) \<Rightarrow> log_args \<Rightarrow> log_table \<Rightarrow> int \<Rightarrow> log_table \<Rightarrow> nat \<Rightarrow> bool" where
  "pending_of like a \<equiv> store.pending like (ag_proc a) (streamFilterFor (ag_stream a)) (ag_q a)"

lemma query_pending:
  assumes "args_ok a" "table_ok t" "pending_of like a t c xs k"
  shows "pending_of like a t (snd (query_of like a t c)) (xs @ fst (query_of like a t c)) (k - nat (ag_limit a))"
    and "k = 0 \<Longrightarrow> fst (query_of like a t c) = []"
  using store.poll [OF assms(2) _ assms(3), of "nat (ag_limit a)"] assms(1) by (simp_all add: args_ok_def)

lemma seen_nonneg: "table_ok t \<Longrightarrow> store.seen like s f q t c xs \<Longrightarrow> 0 \<le> c"
  using source_rows_ok [of t like s f q] by (auto simp: store.seen_def table_ok_def intro!: less_imp_le)

lemma append_extends: "store.extends like s f q t (append_lines t ls)"
  using append_lines_extend [of t ls] by (auto simp: store.extends_def source_rows_append)

definition watching :: "(jstr \<Rightarrow> jstr \<Rightarrow> bool) \<Rightarrow> log_args \<Rightarrow> log_table \<times> log_stream \<Rightarrow> int \<Rightarrow> log_table \<Rightarrow> nat \<Rightarrow> bool" where
  "watching like a w c xs k \<longleftrightarrow> table_ok (fst w) \<and> tracks a c xs (snd w) \<and> pending_of like a (fst w) c xs k"

lemma watching_mono: "watching like a w c xs k \<Longrightarrow> k \<le> m \<Longrightarrow> watching like a w c xs m"
  unfolding watching_def using store.pending_mono by blast

lemma foldl_replicate_Suc: "foldl f s (replicate (Suc n) x) = f (foldl f s (replicate n x)) x"
  by (induction n arbitrary: s) simp_all

lemma watching_step:
  assumes "args_ok a" "watching like a w c xs k"
    and "pending_of like a (append_lines (fst w) ls) c xs m"
  defines "out \<equiv> query_of like a (append_lines (fst w) ls) c"
  shows "watching like a (watch_step like others a w ls) (snd out) (xs @ fst out) (m - nat (ag_limit a))"
proof -
  have ok: "table_ok (append_lines (fst w) ls)" using assms(2) by (simp add: watching_def append_lines_ok)
  have "0 \<le> c" by (rule seen_nonneg [OF ok store.pending_seen [OF assms(3)]])
  then show ?thesis
    using tracks_poll [OF assms(1) ok, of c xs "snd w"] query_pending(1) [OF assms(1) ok assms(3)] ok assms(2)
    by (simp add: watching_def watch_step_def Let_def out_def)
qed

lemma watch_snoc:
  "watch like others a t (batches @ [ls]) = watch_step like others a (watch like others a t batches) ls"
  by (simp add: watch_def)

lemma watch_pending:
  assumes "args_ok a" "table_ok t"
  shows "\<exists>c xs. watching like a (watch like others a t batches) c xs
    (length (rows_of like a (fst (watch like others a t batches))))"
proof (induction batches rule: rev_induct)
  case Nil
  have "pending_of like a t (snd (query_of like a t 0)) ([] @ fst (query_of like a t 0)) (length (rows_of like a t) - nat (ag_limit a))"
    by (rule query_pending [OF assms store.pending_start])
  then have "pending_of like a t (snd (query_of like a t 0)) (fst (query_of like a t 0)) (length (rows_of like a t))"
    by (simp add: store.pending_mono)
  then show ?case
    using tracks_mount [OF assms, of like others] assms(2)
    by (intro exI [of _ "snd (query_of like a t 0)"] exI [of _ "fst (query_of like a t 0)"]) (simp add: watch_def watching_def)
next
  case (snoc ls batches)
  let ?w = "watch like others a t batches"
  let ?t = "append_lines (fst ?w) ls"
  obtain c xs k where w: "watching like a ?w c xs k" using snoc by blast
  have "pending_of like a (fst ?w) c xs k" using w by (simp add: watching_def)
  then have "pending_of like a ?t c xs (length (rows_of like a ?t))"
    by (rule store.pending_extends [OF _ append_extends])
  moreover have "fst (watch_step like others a ?w ls) = ?t" by (simp add: watch_step_def Let_def)
  ultimately show ?case
    unfolding watch_snoc using watching_mono [OF watching_step [OF assms(1) w]] by (metis diff_le_self)
qed

lemma watch_tracks:
  assumes "args_ok a" "table_ok t"
  shows "\<exists>c xs. table_ok (fst (watch like others a t batches)) \<and>
    tracks a c xs (snd (watch like others a t batches)) \<and>
    store.seen like (ag_proc a) (streamFilterFor (ag_stream a)) (ag_q a) (fst (watch like others a t batches)) c xs"
  using watch_pending [OF assms] store.pending_seen unfolding watching_def by blast

text \<open>Polls in which the server has nothing to append leave less and less to see, then change nothing.\<close>

lemma watch_quiet:
  assumes "args_ok a" "watching like a w c xs k"
  shows "\<exists>c xs. watching like a (foldl (watch_step like others a) w (replicate n [])) c xs (k - n * nat (ag_limit a))"
    "fst (foldl (watch_step like others a) w (replicate n [])) = fst w"
proof (induction n)
  case (Suc n)
  let ?w = "foldl (watch_step like others a) w (replicate n [])"
  have r: "foldl (watch_step like others a) w (replicate (Suc n) []) = watch_step like others a ?w []"
    by (rule foldl_replicate_Suc)
  {
    case 1
    obtain c xs where w: "watching like a ?w c xs (k - n * nat (ag_limit a))" using Suc.IH(1) by blast
    then have "pending_of like a (append_lines (fst ?w) []) c xs (k - n * nat (ag_limit a))"
      by (simp add: watching_def append_lines_def)
    from watching_step [OF assms(1) w this, of others] show ?case unfolding r by (fastforce simp: algebra_simps)
  next
    case 2
    have "fst (watch_step like others a v []) = fst v" for v by (simp add: watch_step_def Let_def append_lines_def)
    then show ?case unfolding r using Suc.IH(2) by simp
  }
qed (use assms in auto)

lemma watching_done:
  assumes "args_ok a" "watching like a w c xs 0"
  shows "ls_lines (snd (watch_step like others a w [])) = ls_lines (snd w)"
proof -
  have p: "pending_of like a (append_lines (fst w) []) c xs 0"
    using assms(2) by (simp add: watching_def append_lines_def)
  have "fst (query_of like a (fst w) c) = []"
    using query_pending(2) [OF assms(1), of "fst w"] assms(2) by (auto simp: watching_def)
  with watching_step [OF assms(1,2) p, of others] assms(2) show ?thesis
    by (simp add: watching_def append_lines_def tracks_def)
qed

lemma length_new_rows:
  assumes "source_rows like s f q (append_lines t ls) = source_rows like s f q t @ new"
  shows "length new \<le> length ls"
proof -
  obtain ext where ext: "append_lines t ls = t @ ext" "map sl_label ext = map nl_label ls"
    using append_lines_extend by blast
  then have "new = source_rows like s f q ext" using assms by (simp add: source_rows_append)
  then have "length new \<le> length ext" by (simp add: source_rows_def)
  moreover have "length ext = length ls" using ext(2) by (metis length_map)
  ultimately show ?thesis by simp
qed

lemma watch_all:
  fixes like :: "jstr \<Rightarrow> jstr \<Rightarrow> bool"
  assumes "args_ok a" "table_ok t"
    "\<And>ls. ls \<in> set batches \<Longrightarrow> length ls \<le> nat (ag_limit a)"
  defines "k \<equiv> length (rows_of like a t) - nat (ag_limit a)"
  shows "\<exists>c xs. table_ok (fst (watch like others a t batches)) \<and>
    tracks a c xs (snd (watch like others a t batches)) \<and> xs = drop k (rows_of like a (fst (watch like others a t batches))) \<and>
    k \<le> length (rows_of like a (fst (watch like others a t batches))) \<and>
    (xs = [] \<longrightarrow> k = 0) \<and> c = (if xs = [] then 0 else sl_row (last xs))"
  using assms(3)
proof (induction batches rule: rev_induct)
  case Nil
  have "fst (query_of like a t 0) = drop k (rows_of like a t)"
    using store.backfill [of t "nat (ag_limit a)" like "ag_proc a" "streamFilterFor (ag_stream a)" "ag_q a"]
      assms(1,2) by (simp add: args_ok_def k_def)
  moreover have "snd (query_of like a t 0) =
      (if fst (query_of like a t 0) = [] then 0 else sl_row (last (fst (query_of like a t 0))))"
    using query_cursor [OF assms(1,2), of 0 like] by simp
  moreover have "drop k (rows_of like a t) = [] \<longrightarrow> k = 0"
    using assms(1) by (auto simp: k_def args_ok_def)
  moreover have "k \<le> length (rows_of like a t)" by (simp add: k_def)
  ultimately show ?case
    using tracks_mount [OF assms(1,2), of like others] assms(2)
    by (intro exI [of _ "snd (query_of like a t 0)"] exI [of _ "fst (query_of like a t 0)"])
      (simp add: watch_def)
next
  case (snoc ls batches)
  let ?w = "watch like others a t batches" and ?n = "nat (ag_limit a)"
  let ?t = "append_lines (fst ?w) ls" and ?rows = "rows_of like a"
  obtain c xs where ok: "table_ok (fst ?w)" and tr: "tracks a c xs (snd ?w)"
    and xs: "xs = drop k (?rows (fst ?w))" "k \<le> length (?rows (fst ?w))" "xs = [] \<longrightarrow> k = 0"
    and c: "c = (if xs = [] then 0 else sl_row (last xs))"
    using snoc.IH snoc.prems by (metis Un_iff set_append)
  obtain new where new: "?rows ?t = ?rows (fst ?w) @ new"
    using append_extends [of like "ag_proc a" "streamFilterFor (ag_stream a)" "ag_q a" "fst ?w" ls]
    by (auto simp: store.extends_def)
  have "length new \<le> length ls" using new by (rule length_new_rows)
  then have len: "length new \<le> ?n" using snoc.prems [of ls] by simp
  have "store.seen like (ag_proc a) (streamFilterFor (ag_stream a)) (ag_q a) (fst ?w) c xs"
    unfolding store.seen_def using xs(1) c
    by (intro exI [of _ "take k (?rows (fst ?w))"] exI [of _ "[]"]) simp
  then have c0: "0 \<le> c" by (rule seen_nonneg [OF ok])
  have n: "0 < ?n" "int ?n = ag_limit a" using assms(1) by (auto simp: args_ok_def)
  have "?rows ?t = take k (?rows (fst ?w)) @ xs @ new" using new xs(1) by (metis append.assoc append_take_drop_id)
  moreover have "xs = [] \<Longrightarrow> take k (?rows (fst ?w)) = []" using xs(3) by simp
  ultimately have q: "fst (query_of like a ?t c) = new"
    using store.poll_new [OF append_lines_ok [OF ok] n(1) _ len c] by (metis n(2))
  have "tracks a (snd (query_of like a ?t c)) (xs @ new) (interval_poll like (stores_with a ?t others) (snd ?w))"
    using tracks_poll [OF assms(1) append_lines_ok [OF ok, of ls] c0 tr, of like others] q by simp
  moreover have "snd (query_of like a ?t c) = (if xs @ new = [] then 0 else sl_row (last (xs @ new)))"
    using query_cursor [OF assms(1) append_lines_ok [OF ok, of ls] c0, of like] q c by simp
  moreover have "xs @ new = drop k (?rows ?t)" unfolding new using xs(1,2) by simp
  moreover have "k \<le> length (?rows ?t)" "xs @ new = [] \<longrightarrow> k = 0" unfolding new using xs(2,3) by simp_all
  ultimately show ?case
    unfolding watch_snoc watch_step_def Let_def fst_conv snd_conv
    using append_lines_ok [OF ok] by blast
qed

section \<open>Pausing, resuming and overlapping polls\<close>

text \<open>Pausing stops the poller; resuming starts a new one that asks for a backfill again.\<close>

lemma resume_state:
  assumes "tracks a c xs h" "ls_enabled h" "ls_mounted h"
  shows "rerender a True (rerender a False h) =
    h\<lparr>ls_pollers := [(ls_pollers h ! 0)\<lparr>po_stop := True\<rparr>, \<lparr>po_args = a, po_stop = False, po_first = True\<rparr>],
      ls_interval := Some 1, ls_in_flight := [\<lparr>if_poller = 1, if_after = 0\<rparr>]\<rparr>"
  using assms
  by (auto simp: tracks_def rerender_def cleanup_effect_def start_effect_def tick_def Let_def)

lemma answer_lines:
  assumes "args_ok a" "0 \<le> c" "ls_in_flight h = \<lparr>if_poller = i, if_after = c\<rparr> # rest"
    "i < length (ls_pollers h)" "po_args (ls_pollers h ! i) = a" "\<not> po_stop (ls_pollers h ! i)"
    "length (ls_lines h) \<le> LOG_CAP"
  shows "ls_lines (answer like (stores_with a t others) 0 h) =
      keep_last LOG_CAP (ls_lines h @ map line_view (fst (query_of like a t c))) \<and>
    ls_in_flight (answer like (stores_with a t others) 0 h) = rest \<and>
    ls_pollers (answer like (stores_with a t others) 0 h) =
      (ls_pollers h)[i := (ls_pollers h ! i)\<lparr>po_first := False\<rparr>]"
  using assms handler_ok [OF assms(1,2), of like t others]
  by (auto simp: answer_def settle_def on_logs_def Let_def keep_last_id)

text \<open>After pruning everything the rowids start over.\<close>

lemma insert_line_rows:
  "(\<And>l. l \<in> set t \<Longrightarrow> sl_row l \<le> n) \<Longrightarrow> 0 \<le> n \<Longrightarrow> l \<in> set (insert_line t x) \<Longrightarrow> sl_row l \<le> n + 1"
proof -
  assume le: "\<And>l. l \<in> set t \<Longrightarrow> sl_row l \<le> n" and n: "0 \<le> n" and l: "l \<in> set (insert_line t x)"
  have "foldr (\<lambda>l m. max (sl_row l) m) t 0 \<le> n" using le n by (induction t) auto
  with l le [of l] n show ?thesis by (auto simp: insert_line_def next_row_def)
qed

lemma append_lines_rows:
  "(\<And>l. l \<in> set t \<Longrightarrow> sl_row l \<le> n) \<Longrightarrow> 0 \<le> n \<Longrightarrow> l \<in> set (append_lines t ls) \<Longrightarrow>
   sl_row l \<le> n + int (length ls)"
  unfolding append_lines_def
proof (induction ls arbitrary: t n)
  case (Cons x ls)
  have "sl_row l \<le> (n + 1) + int (length ls)"
    using Cons.prems insert_line_rows [of t n] by (intro Cons.IH [of "insert_line t x"]) auto
  then show ?case by simp
qed simp

lemma query_stale:
  assumes "args_ok a" "table_ok t" "0 < c" "\<And>l. l \<in> set t \<Longrightarrow> sl_row l \<le> c"
  shows "query_of like a t c = ([], c)"
proof -
  have n: "0 < nat (ag_limit a)" "int (nat (ag_limit a)) = ag_limit a" using assms(1) by (auto simp: args_ok_def)
  have "fst (query_of like a t c) = take (nat (ag_limit a)) (filter (\<lambda>r. c < sl_row r) (rows_of like a t))"
    using store.follow [OF assms(2) n(1) assms(3)] by (metis n(2))
  moreover have "filter (\<lambda>r. c < sl_row r) (rows_of like a t) = []"
    using assms(4) by (force simp: filter_empty_conv source_rows_def)
  ultimately show ?thesis
    using query_cursor [OF assms(1,2), of c like] assms(3) by (simp add: prod_eq_iff)
qed

lemma tracks_watch_Nil:
  assumes "args_ok a" "table_ok t" "length (rows_of like a t) \<le> nat (ag_limit a)"
  shows "tracks a (if rows_of like a t = [] then 0 else sl_row (last (rows_of like a t))) (rows_of like a t)
    (snd (watch like others a t []))"
  using watch_all [OF assms(1,2), of "[]" like others] assms(3) by (simp add: watch_def)

section \<open>Properties\<close>

text \<open>C4. In every reachable state of the log hook, whatever the order of renders, timers and
  responses: at most 5000 lines are held, every line shown came from a response to a request
  for the agent, process, stream, limit and search shown now, at most one poller is live, and
  a live poller is the one the interval timer drives and closed over the current arguments.\<close>

theorem stream_invariant:
  assumes "stream_reachable genuine h"
    and "\<And>a res l. genuine a res \<Longrightarrow> l \<in> set (lr_lines res) \<Longrightarrow> from a l"
  shows "length (ls_lines h) \<le> 5000 \<and> (\<forall>l \<in> set (ls_lines h). from (ls_args h) l) \<and>
    (\<forall>i. live h i \<longrightarrow> ls_interval h = Some i \<and> po_args (ls_pollers h ! i) = ls_args h \<and>
       ls_mounted h \<and> ls_enabled h)"
  using reachable_ok [of genuine h "from", OF assms] by (auto simp: stream_ok_def LOG_CAP_def)

definition sample_args :: log_args where
  "sample_args = \<lparr>ag_agent = js ''dev'', ag_proc = js ''web'', ag_stream = js ''all'', ag_limit = 500, ag_q = []\<rparr>"

definition sample_response :: "logs_response response" where
  "sample_response = \<lparr>status = 200,
     json_body = Inr \<lparr>lr_cursor = 7, lr_lines =
       [\<lparr>l_ts = 1, l_name = js ''web'', l_instance = 0, l_stderr = False, l_text = js ''ready''\<rparr>]\<rparr>,
     error_field = Inr None, body_text = []\<rparr>"

theorem stream_invariant_witness:
  "let h = settle 0 (Response sample_response) (mount sample_args True)
   in length (ls_lines h) = 1 \<and> list_all (\<lambda>l. l_name l = ag_proc sample_args) (ls_lines h)"
proof -
  let ?ok = "\<lambda>(a :: log_args) res. \<forall>l \<in> set (lr_lines res). l_name l = ag_proc a"
  let ?m = "mount sample_args True" and ?h = "settle 0 (Response sample_response) (mount sample_args True)"
  have web: "ag_proc sample_args = js ''web''" by (simp add: sample_args_def)
  have m: "ls_in_flight ?m = [\<lparr>if_poller = 0, if_after = 0\<rparr>]" "ls_args ?m = sample_args" "ls_lines ?m = []"
    "ls_pollers ?m = [\<lparr>po_args = sample_args, po_stop = False, po_first = True\<rparr>]"
    by (simp_all add: mount_def start_effect_def reset_effect_def tick_def Let_def)
  have "stream_step ?ok ?m ?h"
    by (rule stream_step.response [where res = "\<lparr>lr_cursor = 7, lr_lines =
       [\<lparr>l_ts = 1, l_name = js ''web'', l_instance = 0, l_stderr = False, l_text = js ''ready''\<rparr>]\<rparr>"])
      (simp_all add: m web sample_response_def)
  then have "stream_reachable ?ok ?h" by (rule stream_reachable.step [OF stream_reachable.start])
  from stream_invariant [OF this, of "\<lambda>a l. l_name l = ag_proc a"]
  have "list_all (\<lambda>l. l_name l = ag_proc (ls_args ?h)) (ls_lines ?h)" by (simp add: list_all_iff)
  moreover have "ls_args ?h = sample_args" "length (ls_lines ?h) = 1"
    by (simp_all add: settle_def on_logs_def m sample_response_def getLogs_res_def json_or_401_def Let_def
        keep_last_id LOG_CAP_def)
  ultimately show ?thesis by (simp add: Let_def)
qed

text \<open>C13. While the stream is paused or the view is gone nothing polls and no response still in
  flight, whatever it holds, changes the lines shown or the cursor.\<close>

theorem paused_frozen:
  assumes "stream_reachable (\<lambda>_ _. True) h" "\<not> (ls_mounted h \<and> ls_enabled h)" "k < length (ls_in_flight h)"
  shows "ls_interval h = None \<and> ls_lines (settle k f h) = ls_lines h \<and> ls_cursor (settle k f h) = ls_cursor h"
proof -
  have ok: "stream_ok (\<lambda>_ _. True) h" by (rule reachable_ok [OF assms(1)]) simp
  have "ls_in_flight h ! k \<in> set (ls_in_flight h)" using assms(3) by simp
  with ok assms(2) have "po_stop (ls_pollers h ! if_poller (ls_in_flight h ! k))"
    by (auto simp: stream_ok_def live_def)
  then have "ls_lines (settle k f h) = ls_lines h \<and> ls_cursor (settle k f h) = ls_cursor h"
    by (simp add: settle_def on_logs_def Let_def split: sum.split)
  with ok assms(2) show ?thesis by (auto simp: stream_ok_def)
qed

theorem paused_frozen_witness:
  "ls_lines (settle 0 (NetworkError (js_Error (js ''Failed to fetch''))) (unmount (mount sample_args True))) =
    ls_lines (unmount (mount sample_args True))"
proof -
  let ?h = "unmount (mount sample_args True)"
  have "ls_mounted (mount sample_args True)"
    by (simp add: mount_def start_effect_def reset_effect_def tick_def Let_def)
  then have "stream_reachable (\<lambda>_ _. True) ?h"
    by (rule stream_reachable.step [OF stream_reachable.start stream_step.unmounted])
  then show ?thesis
    using paused_frozen [of ?h 0] by (simp add: unmount_def cleanup_effect_def mount_def start_effect_def
        reset_effect_def tick_def Let_def)
qed

text \<open>C5. Polling loses and repeats nothing: over any table and any batches the server appends,
  when each answer arrives before the next tick, the lines shown are the newest 5000 of a
  contiguous run of the rows of the selection, in order, and the cursor is the number of the
  last row of that run.\<close>

theorem watch_contiguous:
  assumes "args_ok a" "table_ok t"
  shows "case watch like others a t batches of (t', h) \<Rightarrow>
    \<exists>pre run post. source_rows like (ag_proc a) (streamFilterFor (ag_stream a)) (ag_q a) t' = pre @ run @ post \<and>
      ls_lines h = keep_last 5000 (map line_view run) \<and>
      ls_cursor h = (if run = [] then 0 else sl_row (last run))"
proof -
  let ?w = "watch like others a t batches"
  obtain c run where tr: "tracks a c run (snd ?w)"
    and seen: "store.seen like (ag_proc a) (streamFilterFor (ag_stream a)) (ag_q a) (fst ?w) c run"
    using watch_tracks [OF assms] by blast
  from seen obtain pre post where "rows_of like a (fst ?w) = pre @ run @ post"
    "c = (if run = [] then 0 else sl_row (last run))"
    by (auto simp: store.seen_def)
  with tr show ?thesis
    unfolding case_prod_unfold
    by (intro exI [of _ pre] exI [of _ run] exI [of _ post]) (simp add: tracks_def LOG_CAP_def)
qed

definition sample_batch :: "new_line list" where
  "sample_batch = [\<lparr>nl_ts = 1, nl_label = js ''web#0'', nl_stderr = False, nl_text = js ''ready''\<rparr>]"

theorem watch_contiguous_witness:
  "case watch (\<lambda>_ _. True) [] sample_args [] [sample_batch, sample_batch] of (t', h) \<Rightarrow>
    \<exists>pre run post. source_rows (\<lambda>_ _. True) (js ''web'') StreamAny [] t' = pre @ run @ post \<and>
      ls_lines h = keep_last 5000 (map line_view run)"
proof -
  have "args_ok sample_args" by (simp add: args_ok_def sample_args_def)
  from watch_contiguous [OF this table_ok_Nil, of "\<lambda>_ _. True" "[]" "[sample_batch, sample_batch]"]
  show ?thesis by (auto simp: sample_args_def streamFilterFor_def case_prod_unfold)
qed

text \<open>When no interval brings more lines than one answer holds, the view is complete: it shows
  the newest 5000 of everything from the first backfill (the newest \<open>limit\<close> rows present at
  opening) up to the last row of the table.\<close>

lemma watch_complete:
  assumes "args_ok a" "table_ok t" "\<And>ls. ls \<in> set batches \<Longrightarrow> length ls \<le> nat (ag_limit a)"
  shows "case watch like others a t batches of (t', h) \<Rightarrow>
    ls_lines h = keep_last 5000 (map line_view
      (drop (length (source_rows like (ag_proc a) (streamFilterFor (ag_stream a)) (ag_q a) t) - nat (ag_limit a))
        (source_rows like (ag_proc a) (streamFilterFor (ag_stream a)) (ag_q a) t')))"
  using watch_all [OF assms, where like = like and others = others]
  by (auto simp: tracks_def LOG_CAP_def case_prod_unfold)

text \<open>C8. Catching up terminates: whatever was appended before, and however fast, once the server
  appends nothing more \<open>k\<close> polls of \<open>limit\<close> lines bring an undisturbed view to the end of a
  log of at most \<open>k * limit\<close> lines; the view then ends with the last row of the selection, and
  polls beyond these change nothing.\<close>

theorem drain_terminates:
  assumes "args_ok a" "table_ok t"
    "length (source_rows like (ag_proc a) (streamFilterFor (ag_stream a)) (ag_q a) (fst (watch like others a t batches))) \<le> k * nat (ag_limit a)"
    "k \<le> n"
  shows "case watch like others a t (batches @ replicate n []) of (t', h) \<Rightarrow>
    t' = fst (watch like others a t batches) \<and>
    (\<exists>pre run. source_rows like (ag_proc a) (streamFilterFor (ag_stream a)) (ag_q a) t' = pre @ run \<and>
      (run = [] \<longrightarrow> pre = []) \<and> ls_lines h = keep_last 5000 (map line_view run)) \<and>
    ls_lines (snd (watch like others a t (batches @ replicate (Suc n) []))) = ls_lines h"
proof -
  let ?w = "watch like others a t batches"
  obtain c xs where w: "watching like a ?w c xs (length (rows_of like a (fst ?w)))"
    using watch_pending [OF assms(1,2)] by blast
  let ?v = "foldl (watch_step like others a) ?w (replicate n [])"
  have v: "watch like others a t (batches @ replicate n []) = ?v"
    "watch like others a t (batches @ replicate (Suc n) []) = watch_step like others a ?v []"
    by (simp_all add: watch_def foldl_replicate_Suc del: replicate_Suc)
  have "k * nat (ag_limit a) \<le> n * nat (ag_limit a)" using assms(4) by (rule mult_le_mono1)
  then have "length (rows_of like a (fst ?w)) - n * nat (ag_limit a) = 0" using assms(3) by linarith
  then obtain d ys where d: "watching like a ?v d ys 0"
    using watch_quiet(1) [OF assms(1) w, of others n] by auto
  then have "\<exists>pre. rows_of like a (fst ?v) = pre @ ys \<and> (ys = [] \<longrightarrow> pre = [])"
    by (auto simp: watching_def store.pending_def)
  moreover have "ls_lines (snd ?v) = keep_last 5000 (map line_view ys)"
    using d by (simp add: watching_def tracks_def LOG_CAP_def)
  ultimately show ?thesis
    unfolding v case_prod_unfold
    using watching_done [OF assms(1) d, of others] watch_quiet(2) [OF assms(1) w, of others n] by blast
qed

theorem drain_terminates_witness:
  "case watch (\<lambda>_ _. True) [] (sample_args\<lparr>ag_limit := 1\<rparr>) [] [sample_batch @ sample_batch, [], [], []] of (t', h) \<Rightarrow>
    length t' = 2 \<and> (\<exists>pre run. source_rows (\<lambda>_ _. True) (js ''web'') StreamAny [] t' = pre @ run \<and>
      run \<noteq> [] \<and> ls_lines h = keep_last 5000 (map line_view run))"
proof -
  let ?a = "sample_args\<lparr>ag_limit := 1\<rparr>" and ?b = "sample_batch @ sample_batch"
  have ok: "args_ok ?a" by (simp add: args_ok_def sample_args_def)
  let ?t = "append_lines [] ?b"
  have w: "fst (watch (\<lambda>_ _. True) [] ?a [] [?b]) = ?t"
    by (simp add: watch_def watch_step_def Let_def)
  have rows: "length (source_rows (\<lambda>_ _. True) (js ''web'') StreamAny [] ?t) = 2" "length ?t = 2"
    by (simp_all add: source_rows_def append_lines_def insert_line_def sample_batch_def label_match_def
        startsWith_def js_def unit_of_def)
  have a: "ag_proc ?a = js ''web''" "streamFilterFor (ag_stream ?a) = StreamAny" "ag_q ?a = []" "nat (ag_limit ?a) = 1"
    by (simp_all add: sample_args_def streamFilterFor_def)
  have three: "[?b] @ replicate 3 [] = [?b, [], [], []]" by (simp add: numeral_3_eq_3)
  let ?w = "watch (\<lambda>_ _. True) [] ?a [] [?b, [], [], []]"
  have "length (source_rows (\<lambda>_ _. True) (js ''web'') StreamAny [] ?t) \<le> 3 * 1" "3 \<le> (3 :: nat)" using rows by simp_all
  from drain_terminates [OF ok table_ok_Nil, of "\<lambda>_ _. True" "[]" "[?b]" 3 3, unfolded a w three case_prod_unfold, OF this]
  show ?thesis using rows unfolding case_prod_unfold by (metis append_Nil list.size(3) zero_neq_numeral)
qed

text \<open>Pausing and resuming repeats lines: the resumed poller asks for a backfill although the
  lines are kept, so a log of at most \<open>limit\<close> rows is shown twice after its answer.\<close>

lemma resume_repeats:
  assumes "args_ok a" "table_ok t" "length (source_rows like (ag_proc a) (streamFilterFor (ag_stream a)) (ag_q a) t) \<le> min 2500 (nat (ag_limit a))"
  shows "let h = snd (watch like others a t []);
             shown = map line_view (source_rows like (ag_proc a) (streamFilterFor (ag_stream a)) (ag_q a) t)
         in ls_lines h = shown \<and>
            ls_lines (answer like (stores_with a t others) 0 (rerender a True (rerender a False h))) = shown @ shown"
proof -
  let ?h = "snd (watch like others a t [])" and ?rows = "rows_of like a t"
  have tr: "tracks a (if ?rows = [] then 0 else sl_row (last ?rows)) ?rows ?h"
    using assms by (intro tracks_watch_Nil) auto
  have ok: "stream_ok (\<lambda>_ _. True) (mount a True)" by (rule mount_ok)
  have keep: "ls_lines ?h = map line_view ?rows"
    using tr assms(3) by (simp add: tracks_def keep_last_id LOG_CAP_def)
  have active: "ls_enabled ?h \<and> ls_mounted ?h"
    by (simp add: watch_def answer_def settle_def on_logs_def mount_def start_effect_def reset_effect_def
        tick_def Let_def split: sum.split)
  have all_rows: "fst (query_of like a t 0) = ?rows"
    using store.backfill [of t "nat (ag_limit a)" like "ag_proc a" "streamFilterFor (ag_stream a)" "ag_q a"]
      assms by (simp add: args_ok_def)
  let ?r = "rerender a True (rerender a False ?h)"
  have "ls_lines (answer like (stores_with a t others) 0 ?r) =
      keep_last LOG_CAP (ls_lines ?r @ map line_view (fst (query_of like a t 0)))"
    using answer_lines [OF assms(1), of 0 ?r 1 "[]" like t others] resume_state [OF tr] active keep assms(3)
    by (simp add: LOG_CAP_def)
  then have "ls_lines (answer like (stores_with a t others) 0 ?r) = map line_view ?rows @ map line_view ?rows"
    using resume_state [OF tr] active keep all_rows assms(3) by (simp add: keep_last_id LOG_CAP_def)
  with keep show ?thesis by (simp add: Let_def)
qed

text \<open>Two polls in flight at once repeat lines: when a tick fires before the previous answer
  has arrived, both ask for the rows after the same cursor, and new rows that fit one answer
  are shown twice.\<close>

lemma overlap_repeats:
  assumes "args_ok a" "table_ok t"
    "length (source_rows like (ag_proc a) (streamFilterFor (ag_stream a)) (ag_q a) t) \<le> min 1000 (nat (ag_limit a))"
    "length ls \<le> min 1000 (nat (ag_limit a))"
    "source_rows like (ag_proc a) (streamFilterFor (ag_stream a)) (ag_q a) (append_lines t ls) =
       source_rows like (ag_proc a) (streamFilterFor (ag_stream a)) (ag_q a) t @ new"
  shows "let h = snd (watch like others a t []); S = stores_with a (append_lines t ls) others
         in ls_interval h = Some 0 \<and>
            ls_lines (answer like S 0 (answer like S 0 (tick 0 (tick 0 h)))) =
              map line_view (source_rows like (ag_proc a) (streamFilterFor (ag_stream a)) (ag_q a) t) @
              map line_view new @ map line_view new"
proof -
  let ?h = "snd (watch like others a t [])" and ?rows = "rows_of like a t" and ?t = "append_lines t ls"
  let ?S = "stores_with a ?t others"
  define c where "c = (if ?rows = [] then 0 else sl_row (last ?rows))"
  have tr: "tracks a c ?rows ?h" using assms unfolding c_def by (intro tracks_watch_Nil) auto
  then have lines: "ls_lines ?h = map line_view ?rows" "ls_interval ?h = Some 0"
    using assms(3) by (simp_all add: tracks_def keep_last_id LOG_CAP_def)
  have c0: "0 \<le> c"
    by (rule seen_nonneg [OF assms(2), of like "ag_proc a" "streamFilterFor (ag_stream a)" "ag_q a" c ?rows])
      (simp add: store.seen_def c_def, metis append.right_neutral append_Nil)
  have new: "length new \<le> length ls" using assms(5) by (rule length_new_rows)
  have n: "0 < nat (ag_limit a)" "int (nat (ag_limit a)) = ag_limit a" using assms(1) by (auto simp: args_ok_def)
  have q: "fst (query_of like a ?t c) = new"
    using store.poll_new [OF append_lines_ok [OF assms(2)] n(1), of like "ag_proc a" "streamFilterFor (ag_stream a)"
        "ag_q a" ls "[]" ?rows new c] assms(4,5) new n(2) by (simp add: c_def)
  let ?k = "tick 0 (tick 0 ?h)" and ?r = "\<lparr>if_poller = 0, if_after = c\<rparr>"
  obtain f where f: "ls_pollers ?h = [\<lparr>po_args = a, po_stop = False, po_first = f\<rparr>]"
    "ls_in_flight ?k = [?r, ?r]" "ls_pollers ?k = ls_pollers ?h" "ls_lines ?k = ls_lines ?h"
    using tr by (auto simp: tracks_def tick_def Let_def)
  have one: "ls_lines (answer like ?S 0 ?k) = map line_view (?rows @ new) \<and>
      ls_in_flight (answer like ?S 0 ?k) = [?r] \<and>
      ls_pollers (answer like ?S 0 ?k) = [\<lparr>po_args = a, po_stop = False, po_first = False\<rparr>]"
    using answer_lines [OF assms(1) c0 f(2), of like ?t others] f lines q assms(3,4) new
    by (simp add: keep_last_id LOG_CAP_def)
  have "ls_lines (answer like ?S 0 (answer like ?S 0 ?k)) = map line_view (?rows @ new) @ map line_view new"
    using answer_lines [OF assms(1) c0, of "answer like ?S 0 ?k" 0 "[]" like ?t others] one q assms(3,4) new
    by (simp add: keep_last_id LOG_CAP_def)
  with lines show ?thesis by (simp add: Let_def)
qed

text \<open>An open log goes silent when the server prunes: once every line of the agent's table is
  older than the retention limit and has been deleted, SQLite numbers new lines from 1 again,
  and a view whose cursor is not below their number shows none of them.\<close>

lemma prune_silences:
  assumes "args_ok a" "table_ok t" "\<And>l. l \<in> set t \<Longrightarrow> sl_ts l < before"
    "source_rows like (ag_proc a) (streamFilterFor (ag_stream a)) (ag_q a) t \<noteq> []"
    "length (source_rows like (ag_proc a) (streamFilterFor (ag_stream a)) (ag_q a) t) \<le> nat (ag_limit a)"
    "int (length ls) \<le> sl_row (last (source_rows like (ag_proc a) (streamFilterFor (ag_stream a)) (ag_q a) t))"
  shows "let h = snd (watch like others a t [])
         in ls_lines (interval_poll like (stores_with a (append_lines (prune t before) ls) others) h) = ls_lines h \<and>
            ls_cursor (interval_poll like (stores_with a (append_lines (prune t before) ls) others) h) = ls_cursor h"
proof -
  let ?rows = "rows_of like a t" and ?h = "snd (watch like others a t [])"
  define c where "c = sl_row (last ?rows)"
  have tr: "tracks a c ?rows ?h" using tracks_watch_Nil [OF assms(1,2,5), of others] assms(4) by (simp add: c_def)
  have "last ?rows \<in> set ?rows" using assms(4) by simp
  then have c: "0 < c" using source_rows_ok [OF assms(2)] by (auto simp: table_ok_def c_def)
  have empty: "prune t before = []" using assms(3) by (auto simp: prune_def filter_empty_conv)
  have ok: "table_ok (append_lines [] ls)" by (rule append_lines_ok) simp
  have "sl_row l \<le> c" if "l \<in> set (append_lines [] ls)" for l
    using append_lines_rows [of "[]" 0 l ls] that assms(6) by (simp add: c_def)
  then have "query_of like a (append_lines [] ls) c = ([], c)"
    by (rule query_stale [OF assms(1) ok c])
  then have "tracks a c ?rows (interval_poll like (stores_with a (append_lines [] ls) others) ?h)"
    using tracks_poll [OF assms(1) ok _ tr, of like others] c by simp
  with tr empty show ?thesis by (simp add: tracks_def Let_def)
qed

end
