(* ===== verification/Logs.thy ===== *)
theory Logs imports ApiTypes JsString begin

text \<open>
  What the log views show: the line classes and the filter of web/src/lib/logs.ts, the
  debounced filter field and the filtered lists of LogPanel.tsx and LiveLogModal.tsx, the
  level chips, and the sticky scrolling of LogView.tsx. Case mapping (\<open>toLowerCase\<close>) and
  \<open>RegExp\<close> are the engine's: \<open>lower\<close> and \<open>compile\<close>, which gives \<open>None\<close> for a pattern the
  constructor rejects.
\<close>

section \<open>Levels\<close>

datatype level = LInfo | LWarn | LError

text \<open>
  The \<open>i\<close> flag without \<open>u\<close>: a character outside ASCII never equals an ASCII letter, so the
  letters of the pattern are compared after this folding.
\<close>

definition fold_case :: "code_unit \<Rightarrow> code_unit" where
  "fold_case c = (if is_upper c then c + 0x20 else c)"

definition word_at :: "jstr \<Rightarrow> nat \<Rightarrow> bool" where
  "word_at s i \<longleftrightarrow> i < length s \<and> is_word_char (s ! i)"

text \<open>\<open>\b\<close> at position \<open>i\<close>: exactly one side is a word character.\<close>

definition boundary :: "jstr \<Rightarrow> nat \<Rightarrow> bool" where
  "boundary s i \<longleftrightarrow> (0 < i \<and> word_at s (i - 1)) \<noteq> word_at s i"

definition match_at :: "jstr \<Rightarrow> jstr \<Rightarrow> nat \<Rightarrow> bool" where
  "match_at w s i \<longleftrightarrow> map fold_case (take (length w) (drop i s)) = w"

text \<open>\<open>/\b(warn|warning)\b/i.test(s)\<close>\<close>

definition warn_regex :: "jstr \<Rightarrow> bool" where
  "warn_regex s \<longleftrightarrow>
     list_ex (\<lambda>i. boundary s i \<and>
       list_ex (\<lambda>w. match_at w s i \<and> boundary s (i + length w)) [js ''warn'', js ''warning''])
       [0..<length s + 1]"

definition classifyLevel :: "log_line \<Rightarrow> level" where
  "classifyLevel l = (if l_stderr l then LError else if warn_regex (l_text l) then LWarn else LInfo)"

section \<open>Filter\<close>

text \<open>The match of \<open>/^\/(.*)\/$/\<close>: the text between two slashes, on one line.\<close>

definition slash_body :: "jstr \<Rightarrow> jstr option" where
  "slash_body q =
     (if 2 \<le> length q \<and> hd q = 0x2F \<and> last q = 0x2F \<and> list_all (\<lambda>c. \<not> is_line_terminator c) (butlast (tl q))
      then Some (butlast (tl q)) else None)"

definition matchFilter ::
  "(jstr \<Rightarrow> jstr) \<Rightarrow> (jstr \<Rightarrow> (jstr \<Rightarrow> bool) option) \<Rightarrow> jstr \<Rightarrow> jstr \<Rightarrow> bool" where
  "matchFilter lower compile body query =
     (if query = [] then True
      else case slash_body query of
        Some b \<Rightarrow> (case compile b of Some test \<Rightarrow> test body
                  | None \<Rightarrow> str_includes (lower body) (lower query))
      | None \<Rightarrow> str_includes (lower body) (lower query))"

section \<open>The debounced filter field\<close>

text \<open>
  The text typed, the filter in use and the pending timer with the text it will set. The
  effect runs on mount and whenever the text changed.
\<close>

record debounce =
  db_raw :: jstr
  db_filter :: jstr
  db_timer :: "jstr option"

definition debounce_mount :: debounce where
  "debounce_mount = \<lparr>db_raw = [], db_filter = [], db_timer = Some []\<rparr>"

definition debounce_type :: "jstr \<Rightarrow> debounce \<Rightarrow> debounce" where
  "debounce_type s d = (if s = db_raw d then d else d\<lparr>db_raw := s, db_timer := Some s\<rparr>)"

definition debounce_fire :: "debounce \<Rightarrow> debounce" where
  "debounce_fire d = (case db_timer d of None \<Rightarrow> d | Some s \<Rightarrow> d\<lparr>db_filter := s, db_timer := None\<rparr>)"

datatype key_event = Type jstr | Elapsed

fun debounce_event :: "debounce \<Rightarrow> key_event \<Rightarrow> debounce" where
  "debounce_event d (Type s) = debounce_type s d"
| "debounce_event d Elapsed = debounce_fire d"

section \<open>LogPanel and LiveLogModal\<close>

definition filteredLines ::
  "(jstr \<Rightarrow> jstr) \<Rightarrow> (jstr \<Rightarrow> (jstr \<Rightarrow> bool) option) \<Rightarrow> jstr \<Rightarrow> log_line list \<Rightarrow> log_line list" where
  "filteredLines lower compile flt ls =
     (if flt \<noteq> [] then filter (\<lambda>l. matchFilter lower compile (l_text l) flt) ls else ls)"

definition ALL_LEVELS :: "level list" where
  "ALL_LEVELS = [LInfo, LWarn, LError]"

text \<open>The chips that are on: a set, kept as a list without duplicates.\<close>

definition toggleLevel :: "level \<Rightarrow> level list \<Rightarrow> level list" where
  "toggleLevel lvl prev = (if lvl \<in> set prev then removeAll lvl prev else prev @ [lvl])"

definition visibleLines ::
  "(jstr \<Rightarrow> jstr) \<Rightarrow> (jstr \<Rightarrow> (jstr \<Rightarrow> bool) option) \<Rightarrow> level list \<Rightarrow> jstr \<Rightarrow> log_line list \<Rightarrow> log_line list" where
  "visibleLines lower compile levels flt ls =
     filter (\<lambda>l. classifyLevel l \<in> set levels \<and> matchFilter lower compile (l_text l) flt) ls"

fun levelClass :: "level \<Rightarrow> jstr" where
  "levelClass LError = js ''er''"
| "levelClass LWarn = js ''tx warn''"
| "levelClass LInfo = js ''tx''"

fun spanClass :: "level \<Rightarrow> jstr" where
  "spanClass LError = js ''er''"
| "spanClass LWarn = js ''warn''"
| "spanClass LInfo = js ''tx''"

text \<open>\<open>fmtTime\<close> of the modal; the local clock time of a timestamp is the browser's.\<close>

definition modal_time :: "(int \<Rightarrow> nat \<times> nat \<times> nat) \<Rightarrow> int \<Rightarrow> jstr" where
  "modal_time clock ts =
     (case clock ts of (h, m, s) \<Rightarrow>
        padStart 2 0x30 (dec_nat h) @ js '':'' @ padStart 2 0x30 (dec_nat m) @ js '':'' @ padStart 2 0x30 (dec_nat s))"

text \<open>The log boxes: a row per line (time, class and text), or the text of an empty box.\<close>

datatype log_box = EmptyBox jstr | Rows "(jstr \<times> jstr \<times> jstr) list"

definition log_view_box :: "(int \<Rightarrow> jstr) \<Rightarrow> log_line list \<Rightarrow> log_box" where
  "log_view_box time ls =
     (if length ls = 0 then EmptyBox (js ''No log lines.'')
      else Rows (map (\<lambda>l. (time (l_ts l), levelClass (classifyLevel l), l_text l)) ls))"

definition live_box ::
  "(int \<Rightarrow> nat \<times> nat \<times> nat) \<Rightarrow> (jstr \<Rightarrow> jstr) \<Rightarrow> (jstr \<Rightarrow> (jstr \<Rightarrow> bool) option) \<Rightarrow>
   level list \<Rightarrow> jstr \<Rightarrow> log_line list \<Rightarrow> log_box" where
  "live_box clock lower compile levels flt ls =
     (let vis = visibleLines lower compile levels flt ls
      in if length vis = 0
         then EmptyBox (if length ls = 0 then js ''No log lines yet.''
                        else js ''No lines match the current filter.'')
         else Rows (map (\<lambda>l. (modal_time clock (l_ts l), spanClass (classifyLevel l), l_text l)) vis))"

section \<open>Sticky scrolling\<close>

text \<open>
  The scroll box of LogView: whether it sticks to the end, and the geometry the browser
  keeps. Setting \<open>scrollTop\<close> clamps it to the scrollable range, and so does a change of
  height.
\<close>

record scroll_view =
  sv_stick :: bool
  sv_top :: int
  sv_height :: int
  sv_client :: int

definition set_scroll_top :: "int \<Rightarrow> scroll_view \<Rightarrow> scroll_view" where
  "set_scroll_top y v = v\<lparr>sv_top := max 0 (min y (sv_height v - sv_client v))\<rparr>"

definition scroll_effect :: "scroll_view \<Rightarrow> scroll_view" where
  "scroll_effect v = (if sv_stick v then set_scroll_top (sv_height v) v else v)"

definition view_lines :: "int \<Rightarrow> scroll_view \<Rightarrow> scroll_view" where
  "view_lines h v = scroll_effect (set_scroll_top (sv_top v) (v\<lparr>sv_height := h\<rparr>))"

definition onScroll :: "int \<Rightarrow> scroll_view \<Rightarrow> scroll_view" where
  "onScroll y v =
     (let v' = set_scroll_top y v; atBottom = (sv_height v' - sv_top v' - sv_client v' < 24);
          v'' = v'\<lparr>sv_stick := atBottom\<rparr>
      in if atBottom \<noteq> sv_stick v then scroll_effect v'' else v'')"

definition jump_to_latest :: "scroll_view \<Rightarrow> scroll_view" where
  "jump_to_latest v = (if sv_stick v then v else scroll_effect (v\<lparr>sv_stick := True\<rparr>))"

definition view_mount :: "int \<Rightarrow> int \<Rightarrow> scroll_view" where
  "view_mount h c = scroll_effect \<lparr>sv_stick = True, sv_top = 0, sv_height = h, sv_client = c\<rparr>"

datatype view_event = NewLines int | Scroll int | Jump

fun view_step :: "scroll_view \<Rightarrow> view_event \<Rightarrow> scroll_view" where
  "view_step v (NewLines h) = view_lines h v"
| "view_step v (Scroll y) = onScroll y v"
| "view_step v Jump = jump_to_latest v"

section \<open>Words\<close>

text \<open>The words of a text: its maximal runs of word characters.\<close>

function words :: "jstr \<Rightarrow> jstr list" where
  "words [] = []"
| "words (c # s) =
     (if is_word_char c then (c # takeWhile is_word_char s) # words (dropWhile is_word_char s) else words s)"
  by pat_completeness auto
termination
  by (relation "measure length") (auto simp: less_Suc_eq_le length_dropWhile_le)

lemma fold_case_word: "is_word_char (fold_case c) \<longleftrightarrow> is_word_char c"
proof (cases "is_upper c")
  case True
  then have "unat (c + 0x20) = unat c + 0x20"
    by (simp add: is_upper_def word_le_nat_alt unat_plus_if')
  with True show ?thesis
    by (simp add: fold_case_def is_word_char_def is_upper_def is_lower_def is_digit_def word_le_nat_alt)
qed (simp add: fold_case_def)

lemma boundary_append: "is_word_char c \<Longrightarrow> boundary (u @ c # v) (length u) \<longleftrightarrow> u = [] \<or> \<not> is_word_char (last u)"
  by (cases u rule: rev_cases) (auto simp: boundary_def word_at_def nth_append)

lemma boundary_after: "w \<noteq> [] \<Longrightarrow> is_word_char (last w) \<Longrightarrow>
  boundary (u @ w @ v) (length u + length w) \<longleftrightarrow> v = [] \<or> \<not> is_word_char (hd v)"
  by (cases w rule: rev_cases; cases v) (auto simp: boundary_def word_at_def nth_append)

lemma words_split:
  "w \<in> set (words s) \<longleftrightarrow> w \<noteq> [] \<and> list_all is_word_char w \<and>
     (\<exists>u v. s = u @ w @ v \<and> (u = [] \<or> \<not> is_word_char (last u)) \<and> (v = [] \<or> \<not> is_word_char (hd v)))"
  (is "_ \<longleftrightarrow> ?P s")
proof (induction s rule: words.induct)
  case (2 c s)
  show ?case
  proof (cases "is_word_char c")
    case False
    have "?P (c # s) \<longleftrightarrow> ?P s"
    proof
      assume "?P (c # s)"
      then obtain u v where w: "w \<noteq> []" "list_all is_word_char w" "c # s = u @ w @ v"
        "u = [] \<or> \<not> is_word_char (last u)" "v = [] \<or> \<not> is_word_char (hd v)" by blast
      then obtain u' where "u = c # u'" using False by (cases u; cases w) auto
      with w have "s = u' @ w @ v" "u' = [] \<or> \<not> is_word_char (last u')" by (auto split: if_splits)
      with w show "?P s" by blast
    next
      assume "?P s"
      then obtain u v where w: "w \<noteq> []" "list_all is_word_char w" "s = u @ w @ v"
        "u = [] \<or> \<not> is_word_char (last u)" "v = [] \<or> \<not> is_word_char (hd v)" by blast
      then have "c # s = (c # u) @ w @ v" "\<not> is_word_char (last (c # u))" using False by auto
      with w show "?P (c # s)" by blast
    qed
    with 2 False show ?thesis by simp
  next
    case True
    let ?t = "takeWhile is_word_char s" and ?d = "dropWhile is_word_char s"
    have hd: "?d = [] \<or> \<not> is_word_char (hd ?d)" using hd_dropWhile by blast
    have "?P (c # s) \<longleftrightarrow> w = c # ?t \<or> ?P ?d"
    proof
      assume "?P (c # s)"
      then obtain u v where w: "w \<noteq> []" "list_all is_word_char w" "c # s = u @ w @ v"
        "u = [] \<or> \<not> is_word_char (last u)" "v = [] \<or> \<not> is_word_char (hd v)" by blast
      show "w = c # ?t \<or> ?P ?d"
      proof (cases u)
        case Nil
        then obtain w' where w': "w = c # w'" "s = w' @ v" using w by (cases w) auto
        then have "?t = w'" using w by (cases v) (auto simp: list_all_iff takeWhile_append)
        with w' show ?thesis by simp
      next
        case (Cons x u')
        then have u: "s = u' @ w @ v" "x = c" using w by auto
        have nw: "\<exists>y \<in> set u'. \<not> is_word_char y"
          using w(4) Cons u(2) True by (cases u' rule: rev_cases) auto
        then have "?d = dropWhile is_word_char u' @ w @ v" "dropWhile is_word_char u' \<noteq> []"
          using u by (auto simp: dropWhile_append)
        moreover have "last (dropWhile is_word_char u') = last u'"
          using calculation(2) by (rule last_dropWhile)
        moreover have "u' \<noteq> []" using nw by auto
        moreover have "\<not> is_word_char (last u')" using w(4) Cons \<open>u' \<noteq> []\<close> by simp
        ultimately show ?thesis using w by metis
      qed
    next
      assume "w = c # ?t \<or> ?P ?d"
      then show "?P (c # s)"
      proof
        assume w: "w = c # ?t"
        have "list_all is_word_char w" using w True by (auto simp: list_all_iff dest: set_takeWhileD)
        moreover have "c # s = [] @ w @ ?d" using w by simp
        ultimately show ?thesis using w hd by blast
      next
        assume "?P ?d"
        then obtain u v where w: "w \<noteq> []" "list_all is_word_char w" "?d = u @ w @ v"
          "u = [] \<or> \<not> is_word_char (last u)" "v = [] \<or> \<not> is_word_char (hd v)" by blast
        then have "u \<noteq> []" using hd by (cases u; cases w) auto
        moreover have "c # s = (c # ?t @ u) @ w @ v"
          using w(3) takeWhile_dropWhile_id [of is_word_char s] by simp
        moreover have "\<not> is_word_char (last (c # ?t @ u))" using w(4) calculation(1) by simp
        ultimately show ?thesis using w by blast
      qed
    qed
    with 2(1) True show ?thesis by simp
  qed
qed auto

lemma word_chars_fold: "map fold_case w = p \<Longrightarrow> list_all is_word_char p \<Longrightarrow> list_all is_word_char w"
  by (auto simp: list_all_iff fold_case_word)

lemma regex_word:
  assumes p: "p \<noteq> []" "list_all is_word_char p"
  shows "(\<exists>i \<le> length s. boundary s i \<and> match_at p s i \<and> boundary s (i + length p)) \<longleftrightarrow>
    (\<exists>w \<in> set (words s). map fold_case w = p)"
    (is "?L \<longleftrightarrow> ?R")
proof
  assume ?L
  then obtain i where i: "i \<le> length s" "boundary s i" "match_at p s i" "boundary s (i + length p)" by blast
  define u w v where "u = take i s" and "w = take (length p) (drop i s)" and "v = drop (length p) (drop i s)"
  have w: "map fold_case w = p" "length w = length p"
    using i(3) by (auto simp: match_at_def w_def dest: arg_cong [of _ _ length])
  then obtain x w' where x: "w = x # w'" using p(1) by (cases w) auto
  have chars: "list_all is_word_char w" using w(1) p(2) by (rule word_chars_fold)
  have s: "s = u @ w @ v" by (simp only: u_def w_def v_def append_take_drop_id)
  have "length u = i" using i(1) by (simp add: u_def)
  note s = s this
  have "boundary (u @ x # w' @ v) (length u)" using i(2) s x by simp
  then have "u = [] \<or> \<not> is_word_char (last u)" using boundary_append [of x u "w' @ v"] chars x by simp
  moreover have "boundary (u @ w @ v) (length u + length w)" using i(4) s w(2) by simp
  then have "v = [] \<or> \<not> is_word_char (hd v)"
    using boundary_after [of w u v] chars x by (simp add: list_all_iff)
  ultimately have "w \<in> set (words s)" using s chars x unfolding words_split by blast
  with w(1) show ?R by blast
next
  assume ?R
  then obtain w where "w \<in> set (words s)" and fold: "map fold_case w = p" by blast
  then obtain u v where "w \<noteq> []" "list_all is_word_char w" "s = u @ w @ v"
    "u = [] \<or> \<not> is_word_char (last u)" "v = [] \<or> \<not> is_word_char (hd v)"
    unfolding words_split by blast
  note w = fold this
  then obtain x w' where x: "w = x # w'" by (cases w) auto
  have len: "length p = length w" using w(1) by auto
  have "boundary s (length u)" using boundary_append [of x u "w' @ v"] w x by simp
  moreover have "boundary s (length u + length p)"
    using boundary_after [of w u v] w len by (simp add: list_all_iff)
  moreover have "match_at p s (length u)" using w(1,4) len by (simp add: match_at_def)
  moreover have "length u \<le> length s" using w(4) by simp
  ultimately show ?L by blast
qed

lemma warn_words: "list_all is_word_char (js ''warn'')" "list_all is_word_char (js ''warning'')"
  by (simp_all add: js_def unit_of_def is_word_char_def is_lower_def)

lemma warn_regex_words:
  "warn_regex s \<longleftrightarrow> (\<exists>w \<in> set (words s). map fold_case w \<in> {js ''warn'', js ''warning''})"
proof -
  have "warn_regex s \<longleftrightarrow>
      (\<exists>i \<le> length s. boundary s i \<and> match_at (js ''warn'') s i \<and> boundary s (i + length (js ''warn''))) \<or>
      (\<exists>i \<le> length s. boundary s i \<and> match_at (js ''warning'') s i \<and> boundary s (i + length (js ''warning'')))"
    by (auto simp: warn_regex_def list_ex_iff less_Suc_eq_le simp del: upt_Suc)
  then show ?thesis
    using regex_word [of "js ''warn''" s] regex_word [of "js ''warning''" s] warn_words by auto
qed

section \<open>Invariants\<close>

definition debounce_ok :: "debounce \<Rightarrow> bool" where
  "debounce_ok d \<longleftrightarrow> (case db_timer d of None \<Rightarrow> db_filter d = db_raw d | Some s \<Rightarrow> s = db_raw d)"

lemma debounce_event_ok: "debounce_ok d \<Longrightarrow> debounce_ok (debounce_event d e)"
  by (cases e) (auto simp: debounce_ok_def debounce_type_def debounce_fire_def split: option.splits)

lemma debounce_run_ok: "debounce_ok (foldl debounce_event debounce_mount es)"
proof (induction es rule: rev_induct)
  case Nil
  show ?case by (simp add: debounce_ok_def debounce_mount_def)
qed (simp add: debounce_event_ok)

text \<open>The text typed last.\<close>

fun last_typed :: "jstr \<Rightarrow> key_event list \<Rightarrow> jstr" where
  "last_typed s [] = s"
| "last_typed s (Type u # es) = last_typed u es"
| "last_typed s (Elapsed # es) = last_typed s es"

lemma debounce_raw: "db_raw (foldl debounce_event d es) = last_typed (db_raw d) es"
proof (induction es arbitrary: d)
  case (Cons e es)
  have "db_raw (debounce_event d e) = last_typed (db_raw d) [e]"
    by (cases e) (auto simp: debounce_type_def debounce_fire_def split: option.splits)
  with Cons show ?case by (cases e) simp_all
qed simp

lemma toggle_set: "set (toggleLevel l ls) = (if l \<in> set ls then set ls - {l} else insert l (set ls))"
  by (auto simp: toggleLevel_def)

lemma toggles_parity:
  "k \<in> set (foldl (\<lambda>s l. toggleLevel l s) s ts) \<longleftrightarrow> (k \<in> set s) = even (count_list ts k)"
  by (induction ts arbitrary: s) (auto simp: toggle_set)

definition near_end :: "scroll_view \<Rightarrow> bool" where
  "near_end v \<longleftrightarrow> sv_height v - sv_top v - sv_client v < 24"

definition scroll_ok :: "scroll_view \<Rightarrow> bool" where
  "scroll_ok v \<longleftrightarrow> 0 \<le> sv_client v \<and> 0 \<le> sv_top v \<and> sv_top v \<le> max 0 (sv_height v - sv_client v) \<and>
     (sv_stick v \<longrightarrow> near_end v)"

lemma view_step_ok: "scroll_ok v \<Longrightarrow> scroll_ok (view_step v e)"
  by (cases e) (auto simp: scroll_ok_def near_end_def view_lines_def onScroll_def jump_to_latest_def
      scroll_effect_def set_scroll_top_def Let_def)

lemma view_run_ok: "0 \<le> c \<Longrightarrow> scroll_ok (foldl view_step (view_mount h c) es)"
proof (induction es rule: rev_induct)
  case Nil
  then show ?case
    by (auto simp: scroll_ok_def near_end_def view_mount_def scroll_effect_def set_scroll_top_def)
qed (simp add: view_step_ok)

section \<open>Properties\<close>

text \<open>A line is a warning exactly when it came from stdout and one of the words of its text
  is warn or warning in any mix of ASCII case; a word is a maximal run of letters, digits and
  underscores, so prewarning, warnings and warn_count are not. A stderr line is an error.\<close>

lemma classifyLevel_words:
  "classifyLevel l =
     (if l_stderr l then LError
      else if \<exists>w \<in> set (words (l_text l)). map fold_case w \<in> {js ''warn'', js ''warning''} then LWarn
      else LInfo)"
  by (simp add: classifyLevel_def warn_regex_words)

text \<open>The level chips of the live log: after any sequence of clicks a chip is on exactly when
  it was clicked an even number of times, and the lines shown are those whose level is on and
  that match the filter, in their order.\<close>

lemma chips_parity:
  "visibleLines lower compile (foldl (\<lambda>s l. toggleLevel l s) ALL_LEVELS clicks) flt ls =
     filter (\<lambda>l. even (count_list clicks (classifyLevel l)) \<and> matchFilter lower compile (l_text l) flt) ls"
proof -
  have "k \<in> set ALL_LEVELS" for k by (cases k) (simp_all add: ALL_LEVELS_def)
  then show ?thesis by (simp add: visibleLines_def toggles_parity)
qed

text \<open>The debounced filter: after any typing, once the timer has run the filter in use is the
  text typed last, and whenever no timer is pending it already is; a pending timer holds
  exactly that text.\<close>

lemma debounce_settles:
  "let d = foldl debounce_event debounce_mount es
   in db_filter (debounce_fire d) = last_typed [] es \<and>
      (case db_timer d of None \<Rightarrow> db_filter d = last_typed [] es | Some s \<Rightarrow> s = last_typed [] es)"
proof -
  have "db_raw (foldl debounce_event debounce_mount es) = last_typed [] es"
    by (simp add: debounce_raw debounce_mount_def)
  then show ?thesis
    using debounce_run_ok [of es]
    by (auto simp: Let_def debounce_ok_def debounce_fire_def split: option.splits)
qed

text \<open>C39. The log box follows its end: from mounting on, whatever lines arrive and wherever the
  reader scrolls, while it sticks the end is less than 24 pixels below the view; new lines
  keep a reader who scrolled up exactly where they were as long as the content does not
  shrink, and Jump to latest is offered then and brings the end into view.\<close>

theorem scroll_follows:
  assumes "0 \<le> c"
  shows "let v = foldl view_step (view_mount h c) es
         in (sv_stick v \<longrightarrow> near_end v) \<and>
            (\<not> sv_stick v \<longrightarrow> (\<forall>h' \<ge> sv_height v. sv_top (view_step v (NewLines h')) = sv_top v)) \<and>
            near_end (view_step v Jump) \<and> sv_stick (view_step v Jump)"
proof -
  let ?v = "foldl view_step (view_mount h c) es"
  have ok: "scroll_ok ?v" using assms by (rule view_run_ok)
  moreover have "sv_top (view_step ?v (NewLines h')) = sv_top ?v" if "\<not> sv_stick ?v" "sv_height ?v \<le> h'" for h'
    using ok that by (auto simp: scroll_ok_def view_lines_def scroll_effect_def set_scroll_top_def)
  moreover have "sv_stick (view_step ?v Jump)"
    by (simp add: jump_to_latest_def scroll_effect_def set_scroll_top_def)
  moreover have "near_end (view_step ?v Jump)"
    using view_step_ok [OF ok, of Jump] calculation(3) by (simp add: scroll_ok_def)
  ultimately show ?thesis by (simp add: Let_def scroll_ok_def)
qed

theorem scroll_follows_witness:
  "near_end (view_step (foldl view_step (view_mount 900 300) [Scroll 100, NewLines 1000]) Jump) \<and>
   \<not> sv_stick (foldl view_step (view_mount 900 300) [Scroll 100, NewLines 1000])"
proof -
  have "\<not> sv_stick (foldl view_step (view_mount 900 300) [Scroll 100, NewLines 1000])"
    by (simp add: view_mount_def onScroll_def view_lines_def scroll_effect_def set_scroll_top_def Let_def)
  then show ?thesis
    using scroll_follows [of 300 900 "[Scroll 100, NewLines 1000]"] by (simp add: Let_def)
qed

end
