(* ===== verification/Widgets.thy ===== *)
theory Widgets imports JsString begin

text \<open>
  The shared form controls (web/src/components/Controls.tsx, ConfirmDialog.tsx,
  EmptyState.tsx) as what they render: class names, disabled flags, tooltips, and the value
  a click or a key hands to the caller; and the focus trap of components/Modal.tsx.
\<close>

section \<open>Segment, Toggle, Chip\<close>

text \<open>A segment renders one button per option; the selected one is pressed.\<close>

record 'a segment_item =
  sg_value :: 'a
  sg_label :: jstr
  sg_pressed :: bool

definition Segment :: "('a \<times> jstr) list \<Rightarrow> 'a \<Rightarrow> 'a segment_item list" where
  "Segment options val =
     map (\<lambda>(v, l). \<lparr>sg_value = v, sg_label = l, sg_pressed = (v = val)\<rparr>) options"

text \<open>Enter and Space activate a segment, toggle or chip; other keys do nothing.\<close>

definition activates :: "jstr \<Rightarrow> bool" where
  "activates k \<longleftrightarrow> k = js ''Enter'' \<or> k = js '' ''"

definition segment_key :: "'a segment_item \<Rightarrow> jstr \<Rightarrow> 'a option" where
  "segment_key it k = (if activates k then Some (sg_value it) else None)"

definition Toggle_class :: "bool \<Rightarrow> jstr" where
  "Toggle_class active = js ''tg'' @ (if active then js '' on'' else [])"

definition Toggle_activate :: "bool \<Rightarrow> bool" where
  "Toggle_activate active = (\<not> active)"

text \<open>A switch alone, or in a row with the label and the description that are not empty.\<close>

record toggle_view =
  tv_class :: jstr
  tv_checked :: bool
  tv_row :: "(jstr list \<times> jstr list) option"

definition Toggle :: "bool \<Rightarrow> jstr option \<Rightarrow> jstr option \<Rightarrow> toggle_view" where
  "Toggle active label desc =
     (let l = nullish label []; d = nullish desc []
      in \<lparr>tv_class = Toggle_class active, tv_checked = active,
          tv_row = (if l = [] \<and> d = [] then None
                    else Some (if l \<noteq> [] then [l] else [], if d \<noteq> [] then [d] else []))\<rparr>)"

definition Toggle_key :: "bool \<Rightarrow> jstr \<Rightarrow> bool option" where
  "Toggle_key active k = (if activates k then Some (Toggle_activate active) else None)"

definition Chip_class :: "bool \<Rightarrow> jstr" where
  "Chip_class active = js ''chip'' @ (if active then js '' on'' else [])"

section \<open>Field, Input, Button\<close>

datatype field_note = NoNote | ErrNote jstr | HintNote jstr

definition Field_note :: "jstr option \<Rightarrow> jstr option \<Rightarrow> field_note" where
  "Field_note hint error =
     (if nullish error [] \<noteq> [] then ErrNote (nullish error [])
      else if nullish hint [] \<noteq> [] then HintNote (nullish hint []) else NoNote)"

definition Input_class :: "jstr option \<Rightarrow> jstr" where
  "Input_class className =
     js ''inp'' @ (if nullish className [] \<noteq> [] then js '' '' @ nullish className [] else [])"

datatype button_variant = VWarn | VDgr | VGhost

fun variant_text :: "button_variant \<Rightarrow> jstr" where
  "variant_text VWarn = js ''warn''"
| "variant_text VDgr = js ''dgr''"
| "variant_text VGhost = js ''ghost''"

record button =
  bt_class :: jstr
  bt_disabled :: bool
  bt_title :: "jstr option"

definition Button ::
  "button_variant option \<Rightarrow> bool \<Rightarrow> jstr option \<Rightarrow> jstr option \<Rightarrow> bool \<Rightarrow> jstr option \<Rightarrow> button" where
  "Button variant small className disabledReason disabled title =
     (let parts = [js ''btn''] @ (case variant of None \<Rightarrow> [] | Some v \<Rightarrow> [variant_text v])
            @ (if small then [js ''sm''] else [])
            @ (if nullish className [] \<noteq> [] then [nullish className []] else []);
          reason = nullish disabledReason []
      in \<lparr>bt_class = join (js '' '') parts, bt_disabled = (disabled \<or> reason \<noteq> []),
          bt_title = (if reason \<noteq> [] then Some reason else title)\<rparr>)"

section \<open>Dialogs\<close>

text \<open>The two buttons of a confirm dialog and the confirm button of a prompt.\<close>

definition ConfirmDialog :: "bool \<Rightarrow> button \<times> button" where
  "ConfirmDialog danger =
     (Button (Some VGhost) False None None False None,
      Button (if danger then Some VDgr else None) False None None False None)"

record prompt =
  pr_value :: jstr

definition prompt_mount :: "jstr option \<Rightarrow> prompt" where
  "prompt_mount initial = \<lparr>pr_value = nullish initial []\<rparr>"

definition prompt_reason :: "prompt \<Rightarrow> jstr option" where
  "prompt_reason p = (if trim (pr_value p) \<noteq> [] then None else Some (js ''Enter a value''))"

definition prompt_confirm :: "prompt \<Rightarrow> jstr option" where
  "prompt_confirm p =
     (if bt_disabled (Button None False None (prompt_reason p) False None) then None else Some (pr_value p))"

section \<open>The focus of a modal\<close>

text \<open>
  The mount effect remembers the focused element and focuses the first focusable one, the close
  mark in the head of every modal; the cleanup gives the focus back. A click closes the modal
  when it hits the backdrop itself.
\<close>

definition modal_opened :: "'a list \<Rightarrow> 'a option \<Rightarrow> 'a option \<times> 'a option" where
  "modal_opened els active = (active, case els of [] \<Rightarrow> active | e # _ \<Rightarrow> Some e)"

definition modal_closed :: "'a option \<Rightarrow> 'a option \<Rightarrow> 'a option" where
  "modal_closed previous now = (case previous of None \<Rightarrow> now | Some e \<Rightarrow> Some e)"

definition handleBackdropClick :: "'a \<Rightarrow> 'a \<Rightarrow> bool" where
  "handleBackdropClick target backdrop \<longleftrightarrow> target = backdrop"

datatype prompt_element = CloseMark | PromptInput | PromptCancel | PromptConfirm

definition prompt_elements :: "prompt \<Rightarrow> prompt_element list" where
  "prompt_elements p =
     [CloseMark, PromptInput, PromptCancel] @
     (if bt_disabled (Button None False None (prompt_reason p) False None) then [] else [PromptConfirm])"

text \<open>
  The field of a prompt asks for the focus when it is mounted, before the effect of the modal
  runs: the effect takes the focus away to the close mark, and what it remembers is the field,
  which is gone when the prompt closes, not the element that opened the prompt.
\<close>

lemma prompt_focus_stolen: "modal_opened (prompt_elements p) (Some PromptInput) = (Some PromptInput, Some CloseMark)"
  by (simp add: modal_opened_def prompt_elements_def)

lemma modal_gives_back: "fst (modal_opened els (Some e)) = Some e" "modal_closed (Some e) now = Some e"
  by (simp_all add: modal_opened_def modal_closed_def)

section \<open>The focus trap of a modal\<close>

text \<open>
  The visible focusable elements of the modal in document order, and the element that has
  the focus, which may be outside. \<open>Tab\<close> without intervention moves to the next element of
  the page; the model covers the handler's decision and, inside the modal, the browser's
  step between neighbours.
\<close>

datatype 'a focus_act = CloseModal | Prevent "'a option" | Default

definition handleKeyDown :: "'a list \<Rightarrow> 'a \<Rightarrow> jstr \<Rightarrow> bool \<Rightarrow> 'a focus_act" where
  "handleKeyDown focusable active key shift =
     (if key = js ''Escape'' then CloseModal
      else if key = js ''Tab''
        then if length focusable = 0 then Prevent None
             else let first = hd focusable; final = last focusable
                  in if shift then (if active = first then Prevent (Some final) else Default)
                     else (if active = final then Prevent (Some first) else Default)
      else Default)"

text \<open>Where the focus goes: the browser moves to the neighbour in document order.\<close>

fun successor :: "'a list \<Rightarrow> 'a \<Rightarrow> 'a option" where
  "successor (x # y # zs) a = (if a = x then Some y else successor (y # zs) a)"
| "successor _ a = None"

definition tab_focus :: "'a list \<Rightarrow> bool \<Rightarrow> 'a \<Rightarrow> 'a option" where
  "tab_focus focusable shift active =
     (case handleKeyDown focusable active (js ''Tab'') shift of
        Prevent t \<Rightarrow> t
      | _ \<Rightarrow> if shift then successor (rev focusable) active else successor focusable active)"

lemma successor_Some: "a \<in> set xs \<Longrightarrow> a \<noteq> last xs \<Longrightarrow> \<exists>b. successor xs a = Some b \<and> b \<in> set xs"
  by (induction xs a rule: successor.induct) (auto split: if_splits)

lemma successor_nth: "distinct xs \<Longrightarrow> Suc i < length xs \<Longrightarrow> successor xs (xs ! i) = Some (xs ! Suc i)"
proof (induction xs arbitrary: i rule: induct_list012)
  case (3 x y zs)
  then show ?case
  proof (cases i)
    case (Suc j)
    have "(y # zs) ! j \<noteq> x" using 3(3,4) Suc by (auto simp: in_set_conv_nth nth_Cons split: nat.splits)
    with 3 Suc show ?thesis by (simp add: nth_Cons')
  qed simp
qed simp_all

lemma tab_step:
  assumes "distinct els" "i < length els"
  shows "tab_focus els False (els ! i) = Some (els ! (Suc i mod length els))"
proof (cases "Suc i = length els")
  case True
  then have "els \<noteq> []" "length els - 1 = i" by auto
  then have "els ! i = last els" "els \<noteq> []" by (simp_all add: last_conv_nth)
  with True show ?thesis
    by (simp add: tab_focus_def handleKeyDown_def Let_def hd_conv_nth js_def)
next
  case False
  have "els \<noteq> []" using assms(2) by auto
  then have "last els = els ! (length els - 1)" "length els - 1 < length els"
    by (simp_all add: last_conv_nth)
  then have "els ! i \<noteq> last els"
    using assms False nth_eq_iff_index_eq [OF assms(1), of i "length els - 1"] by simp
  with False assms show ?thesis
    by (auto simp: tab_focus_def handleKeyDown_def Let_def js_def successor_nth)
qed

lemma tab_steps:
  assumes "distinct els" "i < length els"
  shows "((\<lambda>x. Option.bind x (tab_focus els False)) ^^ k) (Some (els ! i)) = Some (els ! ((i + k) mod length els))"
proof (induction k)
  case (Suc k)
  have "(i + k) mod length els < length els" using assms(2) by (cases els) auto
  then have "tab_focus els False (els ! ((i + k) mod length els)) =
      Some (els ! (Suc ((i + k) mod length els) mod length els))"
    by (rule tab_step [OF assms(1)])
  with Suc show ?case by (simp add: mod_Suc_eq)
qed (use assms(2) in simp)

section \<open>Properties\<close>

text \<open>The focus trap of a modal works: starting on any focusable element, \<open>k\<close> presses of Tab
  walk the elements cyclically in document order, so the focus never leaves the modal and
  every element is reached; Shift+Tab from the first element goes to the last.\<close>

lemma tab_cycles:
  assumes "distinct els" "i < length els"
  shows "((\<lambda>x. Option.bind x (tab_focus els False)) ^^ k) (Some (els ! i)) =
      Some (els ! ((i + k) mod length els)) \<and>
    tab_focus els True (hd els) = Some (last els) \<and>
    (\<forall>a \<in> set els. \<exists>b \<in> set els. tab_focus els True a = Some b)"
proof (intro conjI ballI)
  show "((\<lambda>x. Option.bind x (tab_focus els False)) ^^ k) (Some (els ! i)) =
      Some (els ! ((i + k) mod length els))"
    using assms by (rule tab_steps)
  have ne: "els \<noteq> []" using assms(2) by auto
  show "tab_focus els True (hd els) = Some (last els)"
    using ne by (simp add: tab_focus_def handleKeyDown_def js_def Let_def)
  fix a assume a: "a \<in> set els"
  show "\<exists>b \<in> set els. tab_focus els True a = Some b"
  proof (cases "a = hd els")
    case True
    then show ?thesis using ne by (simp add: tab_focus_def handleKeyDown_def js_def Let_def)
  next
    case False
    then obtain b where "successor (rev els) a = Some b" "b \<in> set els"
      using successor_Some [of a "rev els"] a ne by (auto simp: last_rev)
    with False ne show ?thesis by (simp add: tab_focus_def handleKeyDown_def js_def Let_def)
  qed
qed

end
