(* ===== verification/ControlActions.thy ===== *)
theory ControlActions imports Api begin

text \<open>
  The buttons that act on processes: ControlButtons.tsx and RestartAllButton.tsx, both
  confirm-then-fire machines over \<open>control\<close>, and the \<open>useStatus\<close> hook of
  components/StatusMessage.tsx. The handlers are split at their awaits: a click sends a
  request, and the response is an event of its own. The locale \<open>confirm_fire\<close> states what
  both machines have in common and proves the safety of the confirmation once.
\<close>

section \<open>Confirm-then-fire machines\<close>

text \<open>
  A machine that keeps one pending action. Asking for an action makes it pending; it stays so
  until it is confirmed or cancelled; an action is performed when it is confirmed while
  pending, or by a button that needs no confirmation.
\<close>

locale confirm_fire =
  fixes ok :: "'s \<Rightarrow> bool" and step :: "'s \<Rightarrow> 'e \<Rightarrow> 's" and pending :: "'s \<Rightarrow> 'a option" and sent :: "'s \<Rightarrow> 'a list"
    and asks :: "'e \<Rightarrow> 'a option" and confirms :: "'e \<Rightarrow> bool" and cancels :: "'e \<Rightarrow> bool"
    and direct :: "'s \<Rightarrow> 'e \<Rightarrow> 'a option"
  assumes ok_step: "ok s \<Longrightarrow> ok (step s e)"
    and pending_step: "ok s \<Longrightarrow> pending (step s e) = Some a \<Longrightarrow>
      asks e = Some a \<or> (pending s = Some a \<and> \<not> confirms e \<and> \<not> cancels e)"
    and sent_step: "ok s \<Longrightarrow> sent (step s e) = sent s \<or>
      (\<exists>a. sent (step s e) = sent s @ [a] \<and> (pending s = Some a \<and> confirms e \<or> direct s e = Some a))"
begin

definition run :: "'s \<Rightarrow> 'e list \<Rightarrow> 's" where
  "run s es = foldl step s es"

text \<open>The action was asked for, and neither confirmed nor cancelled since.\<close>

definition asked :: "'e list \<Rightarrow> 'a \<Rightarrow> bool" where
  "asked es a \<longleftrightarrow> (\<exists>es1 e es2. es = es1 @ e # es2 \<and> asks e = Some a \<and>
     (\<forall>x \<in> set es2. \<not> confirms x \<and> \<not> cancels x))"

definition justified :: "'s \<Rightarrow> 'e list \<Rightarrow> 'a \<Rightarrow> bool" where
  "justified s es a \<longleftrightarrow> (\<exists>es1 e es2. es = es1 @ e # es2 \<and>
     (asked es1 a \<and> confirms e \<or> direct (run s es1) e = Some a))"

lemma run_snoc [simp]: "run s [] = s" "run s (es @ [e]) = step (run s es) e"
  by (simp_all add: run_def)

lemma run_ok: "ok s \<Longrightarrow> ok (run s es)"
  by (induction es rule: rev_induct) (simp_all add: ok_step)

lemma asked_snoc: "asks e = Some a \<or> (asked es a \<and> \<not> confirms e \<and> \<not> cancels e) \<Longrightarrow> asked (es @ [e]) a"
proof (erule disjE)
  assume "asks e = Some a"
  then show "asked (es @ [e]) a"
    unfolding asked_def by (intro exI [of _ es] exI [of _ e] exI [of _ "[]"]) simp
next
  assume "asked es a \<and> \<not> confirms e \<and> \<not> cancels e"
  then obtain es1 x es2 where "es = es1 @ x # es2" "asks x = Some a"
    "\<forall>y \<in> set es2. \<not> confirms y \<and> \<not> cancels y" and e: "\<not> confirms e" "\<not> cancels e"
    unfolding asked_def by blast
  then show "asked (es @ [e]) a"
    unfolding asked_def by (intro exI [of _ es1] exI [of _ x] exI [of _ "es2 @ [e]"]) auto
qed

lemma pending_asked: "ok s \<Longrightarrow> pending s = None \<Longrightarrow> pending (run s es) = Some a \<Longrightarrow> asked es a"
proof (induction es arbitrary: a rule: rev_induct)
  case (snoc e es)
  have "pending (step (run s es) e) = Some a" using snoc.prems by simp
  then have "asks e = Some a \<or> (pending (run s es) = Some a \<and> \<not> confirms e \<and> \<not> cancels e)"
    by (rule pending_step [OF run_ok [OF snoc.prems(1)]])
  with snoc.IH snoc.prems(1,2) have "asks e = Some a \<or> (asked es a \<and> \<not> confirms e \<and> \<not> cancels e)" by blast
  then show ?case by (rule asked_snoc)
qed simp

lemma justified_mono: "justified s es a \<Longrightarrow> justified s (es @ [e]) a"
proof -
  assume "justified s es a"
  then obtain es1 x es2 where "es = es1 @ x # es2"
    "asked es1 a \<and> confirms x \<or> direct (run s es1) x = Some a"
    unfolding justified_def by blast
  then show ?thesis
    unfolding justified_def by (intro exI [of _ es1] exI [of _ x] exI [of _ "es2 @ [e]"]) simp
qed

lemma sent_justified:
  assumes "ok s" "pending s = None" "sent s = []" "a \<in> set (sent (run s es))"
  shows "justified s es a"
  using assms(4)
proof (induction es arbitrary: a rule: rev_induct)
  case (snoc e es)
  from sent_step [OF run_ok [OF assms(1)], of es e] show ?case
  proof
    assume "sent (step (run s es) e) = sent (run s es)"
    with snoc have "a \<in> set (sent (run s es))" by simp
    then show ?thesis using snoc.IH justified_mono by blast
  next
    assume "\<exists>b. sent (step (run s es) e) = sent (run s es) @ [b] \<and>
      (pending (run s es) = Some b \<and> confirms e \<or> direct (run s es) e = Some b)"
    then obtain b where b: "sent (step (run s es) e) = sent (run s es) @ [b]"
      "pending (run s es) = Some b \<and> confirms e \<or> direct (run s es) e = Some b" by blast
    show ?thesis
    proof (cases "a \<in> set (sent (run s es))")
      case True
      then show ?thesis using snoc.IH justified_mono by blast
    next
      case False
      then have "a = b" using b(1) snoc.prems by simp
      moreover have "asked es b \<and> confirms e \<or> direct (run s es) e = Some b"
        using b(2) pending_asked [OF assms(1,2)] by blast
      ultimately show ?thesis
        unfolding justified_def by (intro exI [of _ es] exI [of _ e] exI [of _ "[]"]) simp
    qed
  qed
qed (simp add: assms(3))

end

section \<open>ControlButtons\<close>

text \<open>
  The component state, its props, the actions sent so far, the number of requests in flight
  and the number of timers that will clear the message.
\<close>

record control_buttons =
  cb_agent :: jstr
  cb_proc :: jstr
  cb_state :: jstr
  cb_connected :: bool
  cb_pending :: "control_action option"
  cb_busy :: bool
  cb_msg :: jstr
  cb_sent :: "control_action list"
  cb_in_flight :: nat
  cb_timers :: nat

datatype control_button = BStart | BAsk control_action | BConfirm | BCancel

definition control_mount :: "jstr \<Rightarrow> jstr \<Rightarrow> jstr \<Rightarrow> bool \<Rightarrow> control_buttons" where
  "control_mount agent proc st conn =
     \<lparr>cb_agent = agent, cb_proc = proc, cb_state = st, cb_connected = conn, cb_pending = None, cb_busy = False, cb_msg = [],
      cb_sent = [], cb_in_flight = 0, cb_timers = 0\<rparr>"

definition is_running :: "jstr \<Rightarrow> bool" where
  "is_running st \<longleftrightarrow> st \<notin> {js ''stopped'', js ''errored''}"

text \<open>The buttons rendered and not disabled.\<close>

definition clickable :: "control_buttons \<Rightarrow> control_button \<Rightarrow> bool" where
  "clickable c b =
     (if cb_busy c then False
      else if cb_pending c \<noteq> None then b = BConfirm \<or> b = BCancel
      else case b of
        BStart \<Rightarrow> cb_connected c \<and> \<not> is_running (cb_state c)
      | BAsk a \<Rightarrow> (a = Restart \<or> a = Reload \<or> a = Stop) \<and> cb_connected c \<and> is_running (cb_state c) \<or>
                 (a = Reset \<or> a = Flush) \<and> cb_connected c
      | _ \<Rightarrow> False)"

definition fire :: "control_action \<Rightarrow> control_buttons \<Rightarrow> control_buttons" where
  "fire a c =
     c\<lparr>cb_pending := None, cb_busy := True, cb_msg := [], cb_sent := cb_sent c @ [a],
       cb_in_flight := cb_in_flight c + 1\<rparr>"

definition ask :: "control_action \<Rightarrow> control_buttons \<Rightarrow> control_buttons" where
  "ask a c = c\<lparr>cb_msg := [], cb_pending := Some a\<rparr>"

definition click :: "control_button \<Rightarrow> control_buttons \<Rightarrow> control_buttons" where
  "click b c =
     (if \<not> clickable c b then c
      else case b of
        BStart \<Rightarrow> fire Restart c
      | BAsk a \<Rightarrow> ask a c
      | BConfirm \<Rightarrow> (case cb_pending c of None \<Rightarrow> c | Some a \<Rightarrow> fire a c)
      | BCancel \<Rightarrow> c\<lparr>cb_pending := None\<rparr>)"

definition result_text :: "control_result \<Rightarrow> jstr" where
  "result_text res = (if cr_ok res then check_mark else or_else (cr_error res) (js ''error''))"

text \<open>The rest of \<open>fire\<close> when \<open>control\<close> settles; a thrown error ends it at the await.\<close>

definition fired :: "control_result result \<Rightarrow> control_buttons \<Rightarrow> control_buttons" where
  "fired r c =
     (if cb_in_flight c = 0 then c
      else let c' = c\<lparr>cb_in_flight := cb_in_flight c - 1\<rparr>
           in case r of Inl _ \<Rightarrow> c'
              | Inr res \<Rightarrow> c'\<lparr>cb_busy := False, cb_msg := result_text res, cb_timers := cb_timers c + 1\<rparr>)"

definition msg_timer :: "control_buttons \<Rightarrow> control_buttons" where
  "msg_timer c = (if cb_timers c = 0 then c else c\<lparr>cb_msg := [], cb_timers := cb_timers c - 1\<rparr>)"

datatype control_event =
    Click control_button
  | Settled "control_result fetched"
  | MsgTimer
  | Props jstr bool

text \<open>A settled request goes through \<open>control\<close>, which reads the response.\<close>

fun control_step :: "control_buttons \<Rightarrow> control_event \<Rightarrow> control_buttons" where
  "control_step c (Click b) = click b c"
| "control_step c (Settled f) = fired (control (\<lambda>_. f) (cb_agent c) (cb_proc c) (last (cb_sent c))) c"
| "control_step c MsgTimer = msg_timer c"
| "control_step c (Props st conn) = c\<lparr>cb_state := st, cb_connected := conn\<rparr>"

fun control_asks :: "control_event \<Rightarrow> control_action option" where
  "control_asks (Click (BAsk a)) = Some a"
| "control_asks _ = None"

text \<open>Start sends a restart without asking, only for a process that is down.\<close>

definition control_direct :: "control_buttons \<Rightarrow> control_event \<Rightarrow> control_action option" where
  "control_direct c e =
     (if e = Click BStart \<and> cb_connected c \<and> \<not> is_running (cb_state c) then Some Restart else None)"

lemmas control_ops = click_def clickable_def fire_def ask_def fired_def msg_timer_def Let_def

definition control_ok :: "control_buttons \<Rightarrow> bool" where
  "control_ok c \<longleftrightarrow> (cb_busy c \<longrightarrow> cb_pending c = None) \<and> (cb_in_flight c \<noteq> 0 \<longrightarrow> cb_busy c) \<and> cb_in_flight c \<le> 1"

lemma control_step_ok: "control_ok c \<Longrightarrow> control_ok (control_step c e)"
proof (cases e)
  case (Click b)
  then show "control_ok c \<Longrightarrow> control_ok (control_step c e)"
    by (cases b) (auto simp: control_ok_def control_ops split: option.splits)
qed (auto simp: control_ok_def control_ops split: sum.splits)

interpretation buttons: confirm_fire control_ok control_step cb_pending cb_sent control_asks
    "\<lambda>e. e = Click BConfirm" "\<lambda>e. e = Click BCancel" control_direct
proof
  show "control_ok (control_step s e)" if "control_ok s" for s e
    using that by (rule control_step_ok)
  show "control_asks e = Some a \<or> (cb_pending s = Some a \<and> \<not> e = Click BConfirm \<and> \<not> e = Click BCancel)"
    if "control_ok s" "cb_pending (control_step s e) = Some a" for s e a
  proof (cases e)
    case (Click b)
    with that show ?thesis
      by (cases b) (auto simp: control_ok_def control_ops split: if_splits option.splits)
  qed (use that in \<open>auto simp: control_ops split: if_splits sum.splits\<close>)
  show "cb_sent (control_step s e) = cb_sent s \<or>
      (\<exists>a. cb_sent (control_step s e) = cb_sent s @ [a] \<and>
        (cb_pending s = Some a \<and> e = Click BConfirm \<or> control_direct s e = Some a))" for s e
  proof (cases e)
    case (Click b)
    then show ?thesis
      by (cases b) (auto simp: control_ops control_direct_def split: if_splits option.splits)
  qed (auto simp: control_ops split: if_splits sum.splits)
qed

section \<open>RestartAllButton\<close>

record restart_all =
  ra_agent :: jstr
  ra_connected :: bool
  ra_pending :: bool
  ra_busy :: bool
  ra_msg :: jstr
  ra_sent :: "control_action list"
  ra_in_flight :: nat
  ra_timers :: nat

datatype restart_event =
    RAsk | RConfirm | RCancel | RSettled "control_result fetched" | RTimer | RProps bool

definition restart_mount :: "jstr \<Rightarrow> bool \<Rightarrow> restart_all" where
  "restart_mount agent conn =
     \<lparr>ra_agent = agent, ra_connected = conn, ra_pending = False, ra_busy = False, ra_msg = [], ra_sent = [],
      ra_in_flight = 0, ra_timers = 0\<rparr>"

definition restart_fire :: "restart_all \<Rightarrow> restart_all" where
  "restart_fire c =
     c\<lparr>ra_pending := False, ra_busy := True, ra_msg := [], ra_sent := ra_sent c @ [Restart],
       ra_in_flight := ra_in_flight c + 1\<rparr>"

definition restart_fired :: "control_result result \<Rightarrow> restart_all \<Rightarrow> restart_all" where
  "restart_fired r c =
     (if ra_in_flight c = 0 then c
      else let c' = c\<lparr>ra_in_flight := ra_in_flight c - 1\<rparr>
           in case r of Inl _ \<Rightarrow> c'
              | Inr res \<Rightarrow> c'\<lparr>ra_busy := False, ra_msg := result_text res, ra_timers := ra_timers c + 1\<rparr>)"

fun restart_step :: "restart_all \<Rightarrow> restart_event \<Rightarrow> restart_all" where
  "restart_step c RAsk =
     (if \<not> ra_busy c \<and> \<not> ra_pending c \<and> ra_connected c then c\<lparr>ra_pending := True\<rparr> else c)"
| "restart_step c RConfirm = (if \<not> ra_busy c \<and> ra_pending c then restart_fire c else c)"
| "restart_step c RCancel = (if \<not> ra_busy c \<and> ra_pending c then c\<lparr>ra_pending := False\<rparr> else c)"
| "restart_step c (RSettled f) = restart_fired (control (\<lambda>_. f) (ra_agent c) (js ''all'') Restart) c"
| "restart_step c RTimer = (if ra_timers c = 0 then c else c\<lparr>ra_msg := [], ra_timers := ra_timers c - 1\<rparr>)"
| "restart_step c (RProps conn) = c\<lparr>ra_connected := conn\<rparr>"

definition restart_ok :: "restart_all \<Rightarrow> bool" where
  "restart_ok c \<longleftrightarrow> (ra_busy c \<longrightarrow> \<not> ra_pending c)"

interpretation restart: confirm_fire restart_ok restart_step
    "\<lambda>c. if ra_pending c then Some Restart else None" ra_sent
    "\<lambda>e. if e = RAsk then Some Restart else None" "\<lambda>e. e = RConfirm" "\<lambda>e. e = RCancel" "\<lambda>_ _. None"
proof
  show "restart_ok (restart_step s e)" if "restart_ok s" for s e
    using that by (cases e) (auto simp: restart_ok_def restart_fire_def restart_fired_def Let_def split: sum.splits)
  show "(if e = RAsk then Some Restart else None) = Some a \<or>
      ((if ra_pending s then Some Restart else None) = Some a \<and> \<not> e = RConfirm \<and> \<not> e = RCancel)"
    if "restart_ok s" "(if ra_pending (restart_step s e) then Some Restart else None) = Some a" for s e a
    using that by (cases e)
      (auto simp: restart_ok_def restart_fire_def restart_fired_def Let_def split: if_splits sum.splits)
  show "ra_sent (restart_step s e) = ra_sent s \<or>
      (\<exists>a. ra_sent (restart_step s e) = ra_sent s @ [a] \<and>
        ((if ra_pending s then Some Restart else None) = Some a \<and> e = RConfirm \<or> None = Some a))" for s e
    by (cases e) (auto simp: restart_fire_def restart_fired_def Let_def split: sum.splits)
qed

section \<open>useStatus\<close>

text \<open>
  The status shown, the timer the ref names, the timers that have not run and were not
  cancelled, and the next timer id. The callback of a timer does not reset the ref.
\<close>

datatype status_level = Success | Failure | Info

record use_status =
  st_status :: "(status_level \<times> jstr) option"
  st_ref :: "nat option"
  st_timers :: "nat list"
  st_next :: nat

definition status_mount :: use_status where
  "status_mount = \<lparr>st_status = None, st_ref = None, st_timers = [], st_next = 1\<rparr>"

definition cancel_timer :: "use_status \<Rightarrow> use_status" where
  "cancel_timer s =
     (case st_ref s of None \<Rightarrow> s | Some i \<Rightarrow> s\<lparr>st_timers := filter (\<lambda>j. j \<noteq> i) (st_timers s)\<rparr>)\<lparr>st_ref := None\<rparr>"

definition status_clear :: "use_status \<Rightarrow> use_status" where
  "status_clear s = (cancel_timer s)\<lparr>st_status := None\<rparr>"

definition status_show :: "status_level \<Rightarrow> jstr \<Rightarrow> use_status \<Rightarrow> use_status" where
  "status_show kind t s =
     (let s' = (cancel_timer s)\<lparr>st_status := Some (kind, t)\<rparr>
      in if kind = Success
         then s'\<lparr>st_ref := Some (st_next s'), st_timers := st_timers s' @ [st_next s'], st_next := st_next s' + 1\<rparr>
         else s')"

definition status_timer :: "nat \<Rightarrow> use_status \<Rightarrow> use_status" where
  "status_timer i s =
     (if i \<in> set (st_timers s) then s\<lparr>st_timers := filter (\<lambda>j. j \<noteq> i) (st_timers s), st_status := None\<rparr> else s)"

datatype status_event = Show status_level jstr | ClearStatus | TimerRuns nat

fun status_step :: "use_status \<Rightarrow> status_event \<Rightarrow> use_status" where
  "status_step s (Show k t) = status_show k t s"
| "status_step s ClearStatus = status_clear s"
| "status_step s (TimerRuns i) = status_timer i s"

text \<open>What \<open>StatusMessage\<close> renders.\<close>

fun kind_text :: "status_level \<Rightarrow> jstr" where
  "kind_text Success = js ''success''"
| "kind_text Failure = js ''error''"
| "kind_text Info = js ''info''"

definition StatusMessage :: "use_status \<Rightarrow> (jstr \<times> jstr) option" where
  "StatusMessage s = map_option (\<lambda>(k, t). (js ''status-msg '' @ kind_text k, t)) (st_status s)"

definition status_ok :: "use_status \<Rightarrow> bool" where
  "status_ok s \<longleftrightarrow> (\<forall>i \<in> set (st_timers s). st_ref s = Some i \<and> (\<exists>t. st_status s = Some (Success, t))) \<and>
     (\<forall>i. st_ref s = Some i \<longrightarrow> i < st_next s) \<and> distinct (st_timers s)"

lemma cancel_timer_ok: "status_ok s \<Longrightarrow> st_timers (cancel_timer s) = [] \<and> st_ref (cancel_timer s) = None \<and>
    st_status (cancel_timer s) = st_status s \<and> st_next (cancel_timer s) = st_next s"
  by (cases "st_ref s"; cases "st_timers s") (auto simp: status_ok_def cancel_timer_def filter_empty_conv)

lemma status_step_ok:
  assumes "status_ok s" shows "status_ok (status_step s e)"
proof (cases e)
  case (TimerRuns i)
  show ?thesis
  proof (cases "i \<in> set (st_timers s)")
    case True
    then have ref: "st_ref s = Some i" using assms by (simp add: status_ok_def)
    have "j = i" if "j \<in> set (st_timers s)" for j
    proof -
      have "st_ref s = Some j" using assms that by (simp add: status_ok_def)
      with ref show ?thesis by simp
    qed
    then have "filter (\<lambda>j. j \<noteq> i) (st_timers s) = []" by (auto simp: filter_empty_conv)
    with assms TimerRuns True show ?thesis by (simp add: status_ok_def status_timer_def)
  qed (use assms TimerRuns in \<open>simp add: status_timer_def\<close>)
qed (use cancel_timer_ok [OF assms] in \<open>auto simp: status_ok_def status_show_def status_clear_def Let_def\<close>)

lemma status_run_ok: "status_ok (foldl status_step status_mount es)"
proof (induction es rule: rev_induct)
  case Nil
  show ?case by (simp add: status_ok_def status_mount_def)
qed (simp add: status_step_ok)

section \<open>Settling\<close>

text \<open>Busy with no request left in flight: no event leads out of it.\<close>

lemma stuck_step:
  "cb_busy c \<Longrightarrow> cb_in_flight c = 0 \<Longrightarrow>
   cb_busy (control_step c e) \<and> cb_in_flight (control_step c e) = 0 \<and> cb_sent (control_step c e) = cb_sent c"
  by (cases e) (simp_all add: control_ops)

lemma stuck_run:
  assumes "cb_busy c" "cb_in_flight c = 0"
  shows "cb_busy (foldl control_step c es) \<and> cb_in_flight (foldl control_step c es) = 0 \<and>
    cb_sent (foldl control_step c es) = cb_sent c"
  by (induction es rule: rev_induct) (use assms stuck_step in auto)

lemma result_text_nonempty: "result_text res \<noteq> []"
  by (simp add: result_text_def or_else_nonempty)

lemma status_timers_run: "status_ok s \<Longrightarrow> \<forall>t. st_status s \<noteq> Some (Success, t) \<Longrightarrow>
   foldl status_step s (map TimerRuns is) = s"
proof (induction "is")
  case (Cons i "is")
  then have "i \<notin> set (st_timers s)" by (auto simp: status_ok_def)
  with Cons show ?case by (simp add: status_timer_def)
qed simp

section \<open>Properties\<close>



text \<open>What happens when the request of a fired action settles: on a network error, or a 200
  whose body is not JSON, the component stays busy for ever, with no button to click and
  nothing sent again, whatever happens later; on every other outcome it is usable again and
  shows a message that is not empty.\<close>

lemma control_settles:
  assumes "cb_in_flight c = 1" "cb_busy c"
  shows "if (case f of NetworkError _ \<Rightarrow> True | Response r \<Rightarrow> status r = 200 \<and> is_error (json_body r))
    then (\<forall>es. let d = foldl control_step (control_step c (Settled f)) es
               in cb_busy d \<and> cb_sent d = cb_sent c \<and> (\<forall>b. \<not> clickable d b))
    else \<not> cb_busy (control_step c (Settled f)) \<and> cb_msg (control_step c (Settled f)) \<noteq> []"
proof -
  let ?d = "control_step c (Settled f)"
  have stuck: "cb_busy (foldl control_step ?d es) \<and> cb_sent (foldl control_step ?d es) = cb_sent c \<and>
      (\<forall>b. \<not> clickable (foldl control_step ?d es) b)"
    if "cb_busy ?d" "cb_in_flight ?d = 0" "cb_sent ?d = cb_sent c" for es
    using stuck_run [OF that(1,2), of es] that(3) by (simp add: clickable_def)
  show ?thesis
  proof (cases "control (\<lambda>_. f) (cb_agent c) (cb_proc c) (last (cb_sent c))")
    case (Inl e)
    then have "case f of NetworkError _ \<Rightarrow> True | Response r \<Rightarrow> status r = 200 \<and> is_error (json_body r)"
      by (auto simp: control_def control_res_def is_error_def split: fetched.splits if_splits sum.splits)
    moreover have "cb_busy ?d" "cb_in_flight ?d = 0" "cb_sent ?d = cb_sent c"
      using Inl assms by (simp_all add: fired_def Let_def)
    ultimately show ?thesis using stuck by (simp add: Let_def)
  next
    case (Inr res)
    then have "\<not> (case f of NetworkError _ \<Rightarrow> True | Response r \<Rightarrow> status r = 200 \<and> is_error (json_body r))"
      by (auto simp: control_def control_res_def is_error_def split: fetched.splits if_splits sum.splits)
    moreover have "\<not> cb_busy ?d" "cb_msg ?d \<noteq> []"
      using Inr assms by (simp_all add: fired_def Let_def result_text_nonempty)
    ultimately show ?thesis by simp
  qed
qed

text \<open>The timers of \<open>useStatus\<close>: after any use at most one timer is pending, \<open>show\<close> replaces
  whatever was shown, an error or an information stays until the next \<open>show\<close> or \<open>clear\<close>
  however many timers run, and a success disappears when its own timer runs.\<close>

lemma status_lifetime:
  "let s = foldl status_step status_mount es; d = status_step s (Show kind t)
   in length (st_timers s) \<le> 1 \<and> st_status d = Some (kind, t) \<and>
      (if kind = Success
       then (\<exists>i. st_timers d = [i] \<and> st_status (status_step d (TimerRuns i)) = None)
       else st_status (foldl status_step d (map TimerRuns is)) = Some (kind, t))"
proof -
  let ?s = "foldl status_step status_mount es"
  let ?d = "status_step ?s (Show kind t)"
  have ok: "status_ok ?s" by (rule status_run_ok)
  have one: "length (st_timers ?s) \<le> 1"
  proof (cases "st_timers ?s")
    case (Cons i r)
    have "r = []"
    proof (cases r)
      case (Cons j q)
      then show ?thesis using ok \<open>st_timers ?s = i # r\<close> by (auto simp: status_ok_def)
    qed simp
    with Cons show ?thesis by simp
  qed simp
  have shown: "st_status ?d = Some (kind, t)" by (simp add: status_show_def Let_def)
  show ?thesis
  proof (cases "kind = Success")
    case True
    then have "st_timers ?d = [st_next ?s]"
      using cancel_timer_ok [OF ok] by (simp add: status_show_def Let_def)
    then show ?thesis using True one shown by (auto simp: Let_def status_timer_def)
  next
    case False
    have "foldl status_step ?d (map TimerRuns is) = ?d"
      using status_step_ok [OF ok, of "Show kind t"] shown False by (intro status_timers_run) auto
    with False one shown show ?thesis by (simp add: Let_def)
  qed
qed

text \<open>ControlButtons does not cancel its message timers: after two actions in a row the timer
  of the first erases the message of the second, whose own timer is still pending.\<close>

lemma message_cut_short:
  "let ok = Settled (Response \<lparr>status = 200, json_body = Inr succeeded, error_field = Inr None, body_text = []\<rparr>);
       bad = Settled (Response (empty_response 502));
       c = foldl control_step (control_mount agent proc (js ''online'') True)
         [Click (BAsk Reset), Click BConfirm, ok, Click (BAsk Flush), Click BConfirm, bad]
   in cb_msg c = js ''error 502'' \<and> cb_timers c = 2 \<and>
      cb_msg (control_step c MsgTimer) = [] \<and> cb_timers (control_step c MsgTimer) = 1"
proof -
  have "dec_nat 502 = js ''502''"
    by (simp add: dec_nat.simps digit_unit_def js_def unit_of_def)
  then show ?thesis
    by (simp add: control_ops control_mount_def is_running_def control_def control_res_def error_or_status_def
        status_error_def failed_def succeeded_def result_text_def js_append [symmetric])
qed

end
