(* ===== verification/FileBrowser.thy ===== *)
theory FileBrowser imports Api ControlActions Widgets begin

text \<open>
  The file browser of a git app (web/src/FileBrowser.tsx): paths and breadcrumbs, the
  listing effect with its stop flags, opening, editing and saving a file, and the create,
  delete and rename dialogs. Every handler is split at its awaits; responses are events and
  may arrive late.
\<close>

section \<open>Paths\<close>

definition joinPath :: "jstr \<Rightarrow> jstr \<Rightarrow> jstr" where
  "joinPath dir name = (if dir \<noteq> [] then dir @ 0x2F # name else name)"

definition parentPath :: "jstr \<Rightarrow> jstr" where
  "parentPath p = nullish (before_last 0x2F p) []"

definition crumbs :: "jstr \<Rightarrow> jstr list" where
  "crumbs path = (if path \<noteq> [] then split_on 0x2F path else [])"

text \<open>The target of the i-th breadcrumb.\<close>

definition crumb_path :: "jstr \<Rightarrow> nat \<Rightarrow> jstr" where
  "crumb_path path i = join [0x2F] (take (i + 1) (crumbs path))"

text \<open>The editor language by extension; \<open>lower\<close> is \<open>toLowerCase\<close>.\<close>

datatype lang = JavaScript | Json | Python | Go | Plain

definition langFor :: "(jstr \<Rightarrow> jstr) \<Rightarrow> jstr \<Rightarrow> lang" where
  "langFor lower name =
     (let ext = lower (last (split_on 0x2E name))
      in if ext \<in> {js ''ts'', js ''tsx'', js ''js'', js ''jsx''} then JavaScript
         else if ext = js ''json'' then Json
         else if ext = js ''py'' then Python
         else if ext = js ''go'' then Go
         else Plain)"

section \<open>State\<close>

datatype dialog = DeleteDialog dir_entry | RenameDialog dir_entry | NewFileDialog

text \<open>One run of the listing effect.\<close>

record listing =
  li_path :: jstr
  li_stop :: bool

text \<open>
  A mutation that awaits its response, with what its closure captured: the file open when it
  started.
\<close>

datatype mutation =
    MSave file_content jstr
  | MCreate
  | MDelete "file_content option" jstr
  | MRename "file_content option" jstr

record file_browser =
  fb_agent :: jstr
  fb_app :: jstr
  fb_credential :: "jstr option"
  fb_path :: jstr
  fb_entries :: "dir_entry list"
  fb_open :: "file_content option"
  fb_draft :: jstr
  fb_msg :: jstr
  fb_busy :: bool
  fb_err :: "jstr option"
  fb_dialog :: "dialog option"
  fb_status :: use_status
  fb_lists :: "listing list"
  fb_reads :: "request result list"
  fb_mutation :: "(mutation \<times> request result) option"

definition editable :: "file_browser \<Rightarrow> bool" where
  "editable b = (case fb_open b of None \<Rightarrow> False | Some f \<Rightarrow> \<not> fc_binary f \<and> \<not> fc_truncated f)"

section \<open>Listing and opening\<close>

definition list_effect :: "file_browser \<Rightarrow> file_browser" where
  "list_effect b =
     b\<lparr>fb_err := None,
       fb_lists := map (\<lambda>l. l\<lparr>li_stop := True\<rparr>) (fb_lists b) @ [\<lparr>li_path = fb_path b, li_stop = False\<rparr>]\<rparr>"

definition browser_mount :: "jstr \<Rightarrow> jstr \<Rightarrow> jstr option \<Rightarrow> file_browser" where
  "browser_mount agent app cred =
     list_effect
       \<lparr>fb_agent = agent, fb_app = app, fb_credential = cred, fb_path = [], fb_entries = [],
        fb_open = None, fb_draft = [], fb_msg = [], fb_busy = False, fb_err = None, fb_dialog = None,
        fb_status = status_mount, fb_lists = [], fb_reads = [], fb_mutation = None\<rparr>"

text \<open>The k-th run of the listing effect gets its response.\<close>

definition listed :: "nat \<Rightarrow> dir_listing fetched \<Rightarrow> file_browser \<Rightarrow> file_browser" where
  "listed k f b =
     (let l = fb_lists b ! k
      in if li_stop l then b
         else case await_fetch (listDir_req (fb_agent b) (fb_app b) (li_path l)) (\<lambda>_. f) listDir_res of
           Inl e \<Rightarrow> b\<lparr>fb_err := Some (shown_error e)\<rparr>
         | Inr d \<Rightarrow> b\<lparr>fb_entries := dl_entries d\<rparr>)"

definition go_to :: "jstr \<Rightarrow> file_browser \<Rightarrow> file_browser" where
  "go_to p b =
     (let b' = b\<lparr>fb_open := None\<rparr> in if p = fb_path b then b' else list_effect (b'\<lparr>fb_path := p\<rparr>))"

definition onEntry :: "dir_entry \<Rightarrow> file_browser \<Rightarrow> file_browser" where
  "onEntry e b =
     (if de_is_dir e then go_to (joinPath (fb_path b) (de_name e)) b
      else b\<lparr>fb_err := None, fb_reads := fb_reads b @ [readFile_req (fb_agent b) (fb_app b) (joinPath (fb_path b) (de_name e))]\<rparr>)"

definition read_done :: "nat \<Rightarrow> file_content fetched \<Rightarrow> file_browser \<Rightarrow> file_browser" where
  "read_done k f b =
     (let b' = b\<lparr>fb_reads := take k (fb_reads b) @ drop (k + 1) (fb_reads b)\<rparr>
      in case await_fetch (fb_reads b ! k) (\<lambda>_. f) readFile_res of
           Inl e \<Rightarrow> b'\<lparr>fb_err := Some (shown_error e)\<rparr>
         | Inr c \<Rightarrow> b'\<lparr>fb_open := Some c, fb_draft := fc_content c, fb_msg := js ''Update '' @ fc_path c\<rparr>)"

text \<open>
  New props, when the page around the browser moves to another app: the listing effect depends
  on them, everything else is kept.
\<close>

definition browser_props :: "jstr \<Rightarrow> jstr \<Rightarrow> jstr option \<Rightarrow> file_browser \<Rightarrow> file_browser" where
  "browser_props agent app cred b =
     (let b' = b\<lparr>fb_agent := agent, fb_app := app, fb_credential := cred\<rparr>
      in if agent = fb_agent b \<and> app = fb_app b then b' else list_effect b')"

section \<open>Mutations\<close>

definition start_mutation :: "mutation \<Rightarrow> request result \<Rightarrow> file_browser \<Rightarrow> file_browser" where
  "start_mutation m req b = b\<lparr>fb_busy := True, fb_err := None, fb_mutation := Some (m, req)\<rparr>"

definition onSave :: "file_browser \<Rightarrow> file_browser" where
  "onSave b =
     (case fb_open b of
        None \<Rightarrow> b
      | Some f \<Rightarrow> start_mutation (MSave f (fb_draft b))
          (writeFile_req (fb_agent b) (fb_app b) (fc_path f) (fb_draft b)
             (or_else (Some (fb_msg b)) (js ''Update '' @ fc_path f)) (fb_credential b)) b)"

definition commitNewFile :: "jstr \<Rightarrow> file_browser \<Rightarrow> file_browser" where
  "commitNewFile name b =
     (let rel = joinPath (fb_path b) name
      in start_mutation MCreate
           (createFile_req (fb_agent b) (fb_app b) rel [] (js ''Create '' @ rel) (fb_credential b))
           (b\<lparr>fb_dialog := None\<rparr>))"

definition commitDelete :: "dir_entry \<Rightarrow> file_browser \<Rightarrow> file_browser" where
  "commitDelete entry b =
     (let rel = joinPath (fb_path b) (de_name entry)
      in start_mutation (MDelete (fb_open b) rel)
           (deleteFile_req (fb_agent b) (fb_app b) rel (js ''Delete '' @ rel) (fb_credential b))
           (b\<lparr>fb_dialog := None\<rparr>))"

definition commitRename :: "dir_entry \<Rightarrow> jstr \<Rightarrow> file_browser \<Rightarrow> file_browser" where
  "commitRename entry new b =
     (let b' = b\<lparr>fb_dialog := None\<rparr>
      in if new = [] \<or> new = de_name entry then b'
         else let src = joinPath (fb_path b) (de_name entry); dest = joinPath (fb_path b) new
              in start_mutation (MRename (fb_open b) src)
                   (renameFile_req (fb_agent b) (fb_app b) src dest
                      (js ''Rename '' @ src @ js '' '' @ right_arrow @ js '' '' @ dest) (fb_credential b)) b')"

definition open_path :: "file_content option \<Rightarrow> jstr option" where
  "open_path f = map_option fc_path f"

fun mutation_res :: "mutation \<Rightarrow> commit_result response \<Rightarrow> commit_result result" where
  "mutation_res (MSave _ _) = writeFile_res"
| "mutation_res MCreate = createFile_res"
| "mutation_res (MDelete _ _) = deleteFile_res"
| "mutation_res (MRename _ _) = renameFile_res"

text \<open>What a handler does to the open file after a successful response.\<close>

fun after_commit :: "mutation \<Rightarrow> file_browser \<Rightarrow> file_browser" where
  "after_commit (MSave f d) b = b\<lparr>fb_open := Some (f\<lparr>fc_content := d\<rparr>)\<rparr>"
| "after_commit MCreate b = b"
| "after_commit (MDelete o1 rel) b = (if open_path o1 = Some rel then b\<lparr>fb_open := None\<rparr> else b)"
| "after_commit (MRename o1 src) b = (if open_path o1 = Some src then b\<lparr>fb_open := None\<rparr> else b)"

definition pushed_text :: "commit_result \<Rightarrow> jstr" where
  "pushed_text res = js ''Pushed '' @ take 7 (sha res) @ js '' to '' @ branch res"

definition mutated :: "commit_result fetched \<Rightarrow> file_browser \<Rightarrow> file_browser" where
  "mutated f b =
     (case fb_mutation b of
        None \<Rightarrow> b
      | Some (m, req) \<Rightarrow>
          (let b' = b\<lparr>fb_mutation := None, fb_busy := False\<rparr>
           in case await_fetch req (\<lambda>_. f) (mutation_res m) of
                Inl e \<Rightarrow> b'\<lparr>fb_err := Some (shown_error e)\<rparr>
              | Inr res \<Rightarrow> list_effect
                  (after_commit m (b'\<lparr>fb_status := status_show Success (pushed_text res) (fb_status b)\<rparr>))))"

section \<open>What is rendered and what can be clicked\<close>

definition save_reason :: "file_browser \<Rightarrow> jstr option" where
  "save_reason b =
     (if fb_busy b then Some (js ''Saving'' @ ellipsis)
      else case fb_open b of None \<Rightarrow> None
        | Some f \<Rightarrow> if fb_draft b = fc_content f then Some (js ''No changes to save'') else None)"

definition row_selected :: "file_browser \<Rightarrow> dir_entry \<Rightarrow> bool" where
  "row_selected b e \<longleftrightarrow> open_path (fb_open b) = Some (joinPath (fb_path b) (de_name e))"

definition delete_question :: "file_browser \<Rightarrow> dir_entry \<Rightarrow> jstr" where
  "delete_question b e =
     js ''Delete '' @ joinPath (fb_path b) (de_name e) @ js ''? This commits and pushes the deletion.''"

text \<open>The text in the editor.\<close>

definition shown_text :: "file_browser \<Rightarrow> jstr option" where
  "shown_text b =
     (case fb_open b of None \<Rightarrow> None
      | Some f \<Rightarrow> if fc_binary f then None else Some (if editable b then fb_draft b else fc_content f))"

text \<open>
  The user's clicks and the responses. A dialog covers the page, so only its own buttons can
  be reached while it is open.
\<close>

datatype browser_event =
    ClickEntry dir_entry | ClickCrumb nat | ClickRoot | ClickUp
  | Edit jstr | EditMsg jstr | ClickSave
  | ClickNew | ClickDelete dir_entry | ClickRename dir_entry
  | DialogCancel | DialogConfirm jstr
  | Listed nat "dir_listing fetched" | ReadDone nat "file_content fetched" | Mutated "commit_result fetched"
  | BrowserProps jstr jstr "jstr option"

definition dialog_confirm :: "jstr \<Rightarrow> file_browser \<Rightarrow> file_browser" where
  "dialog_confirm v b =
     (case fb_dialog b of
        None \<Rightarrow> b
      | Some (DeleteDialog e) \<Rightarrow> commitDelete e b
      | Some (RenameDialog e) \<Rightarrow> (case prompt_confirm \<lparr>pr_value = v\<rparr> of None \<Rightarrow> b | Some x \<Rightarrow> commitRename e x b)
      | Some NewFileDialog \<Rightarrow> (case prompt_confirm \<lparr>pr_value = v\<rparr> of None \<Rightarrow> b | Some x \<Rightarrow> commitNewFile x b))"

fun page_click :: "file_browser \<Rightarrow> browser_event \<Rightarrow> file_browser" where
  "page_click b (ClickEntry e) = (if e \<in> set (fb_entries b) then onEntry e b else b)"
| "page_click b (ClickCrumb i) = (if i < length (crumbs (fb_path b)) then go_to (crumb_path (fb_path b) i) b else b)"
| "page_click b ClickRoot = go_to [] b"
| "page_click b ClickUp = (if fb_path b \<noteq> [] then go_to (parentPath (fb_path b)) b else b)"
| "page_click b (Edit s) = (if editable b then b\<lparr>fb_draft := s\<rparr> else b)"
| "page_click b (EditMsg s) = (if editable b then b\<lparr>fb_msg := s\<rparr> else b)"
| "page_click b ClickSave = (if editable b \<and> save_reason b = None then onSave b else b)"
| "page_click b ClickNew = (if \<not> fb_busy b then b\<lparr>fb_dialog := Some NewFileDialog\<rparr> else b)"
| "page_click b (ClickDelete e) =
     (if \<not> fb_busy b \<and> e \<in> set (fb_entries b) \<and> \<not> de_is_dir e then b\<lparr>fb_dialog := Some (DeleteDialog e)\<rparr> else b)"
| "page_click b (ClickRename e) =
     (if \<not> fb_busy b \<and> e \<in> set (fb_entries b) then b\<lparr>fb_dialog := Some (RenameDialog e)\<rparr> else b)"
| "page_click b _ = b"

fun browser_step :: "file_browser \<Rightarrow> browser_event \<Rightarrow> file_browser" where
  "browser_step b DialogCancel = b\<lparr>fb_dialog := None\<rparr>"
| "browser_step b (DialogConfirm v) = dialog_confirm v b"
| "browser_step b (Listed k f) = (if k < length (fb_lists b) then listed k f b else b)"
| "browser_step b (ReadDone k f) = (if k < length (fb_reads b) then read_done k f b else b)"
| "browser_step b (Mutated f) = mutated f b"
| "browser_step b (BrowserProps agent app cred) = browser_props agent app cred b"
| "browser_step b e = (if fb_dialog b = None then page_click b e else b)"

section \<open>Lemmas on paths\<close>

lemma parentPath_join: "0x2F \<notin> set n \<Longrightarrow> parentPath (joinPath d n) = d"
  by (simp add: parentPath_def joinPath_def before_last_append)

lemma join_snoc: "ws \<noteq> [] \<Longrightarrow> join d (ws @ [w]) = join d ws @ d @ w"
  by (induction ws rule: induct_list012) auto

lemma crumbs_no_slash: "w \<in> set (crumbs p) \<Longrightarrow> 0x2F \<notin> set w"
  by (auto simp: crumbs_def dest: split_on_parts split: if_splits)

lemma crumb_parent:
  assumes "Suc i < length (crumbs p)"
  shows "parentPath (crumb_path p (Suc i)) = crumb_path p i"
proof -
  let ?c = "crumbs p"
  have "take (Suc i + 1) ?c = take (i + 1) ?c @ [?c ! Suc i]" "take (i + 1) ?c \<noteq> []"
    using assms by (auto simp: take_Suc_conv_app_nth)
  then have "crumb_path p (Suc i) = crumb_path p i @ 0x2F # ?c ! Suc i"
    by (simp add: crumb_path_def join_snoc)
  moreover have "0x2F \<notin> set (?c ! Suc i)" by (rule crumbs_no_slash [of _ p]) (simp add: assms)
  ultimately show ?thesis by (simp add: parentPath_def before_last_append)
qed

lemma crumb_first: "p \<noteq> [] \<Longrightarrow> parentPath (crumb_path p 0) = []"
proof -
  assume "p \<noteq> []"
  then obtain w ws where w: "crumbs p = w # ws" unfolding crumbs_def by (metis list.exhaust split_on_nonempty)
  then have "0x2F \<notin> set w" using crumbs_no_slash [of w p] by simp
  with w show ?thesis by (simp add: crumb_path_def parentPath_def)
qed

lemma crumb_last: "p \<noteq> [] \<Longrightarrow> crumb_path p (length (crumbs p) - 1) = p"
  by (simp add: crumb_path_def crumbs_def)

section \<open>Invariant\<close>

definition browser_ok :: "file_browser \<Rightarrow> bool" where
  "browser_ok b \<longleftrightarrow> (fb_busy b \<longleftrightarrow> fb_mutation b \<noteq> None) \<and> (fb_dialog b \<noteq> None \<longrightarrow> \<not> fb_busy b) \<and>
     (\<exists>old. fb_lists b = old @ [\<lparr>li_path = fb_path b, li_stop = False\<rparr>] \<and> (\<forall>l \<in> set old. li_stop l))"

lemma list_effect_ok:
  "(fb_busy b \<longleftrightarrow> fb_mutation b \<noteq> None) \<Longrightarrow> (fb_dialog b \<noteq> None \<longrightarrow> \<not> fb_busy b) \<Longrightarrow> browser_ok (list_effect b)"
  by (auto simp: browser_ok_def list_effect_def)

lemma go_to_ok: "browser_ok b \<Longrightarrow> browser_ok (go_to p b)"
proof (cases "p = fb_path b")
  case False
  assume "browser_ok b"
  then have "browser_ok (list_effect (b\<lparr>fb_open := None, fb_path := p\<rparr>))"
    by (intro list_effect_ok) (auto simp: browser_ok_def)
  with False show ?thesis by (simp add: go_to_def Let_def)
qed (auto simp: go_to_def browser_ok_def)

lemma start_mutation_ok: "browser_ok b \<Longrightarrow> fb_dialog b = None \<Longrightarrow> browser_ok (start_mutation m r b)"
  by (auto simp: browser_ok_def start_mutation_def)

lemma close_dialog_ok: "browser_ok b \<Longrightarrow> browser_ok (b\<lparr>fb_dialog := None\<rparr>)"
  by (auto simp: browser_ok_def)

lemma commit_ok:
  assumes "browser_ok b"
  shows "browser_ok (commitDelete e b)" "browser_ok (commitNewFile n b)" "browser_ok (commitRename e n b)"
  using close_dialog_ok [OF assms]
  by (auto simp: commitDelete_def commitNewFile_def commitRename_def Let_def intro!: start_mutation_ok)

lemma after_commit_simps [simp]:
  "fb_busy (after_commit m b) = fb_busy b" "fb_mutation (after_commit m b) = fb_mutation b"
  "fb_dialog (after_commit m b) = fb_dialog b" "fb_draft (after_commit m b) = fb_draft b"
  "fb_path (after_commit m b) = fb_path b" "fb_entries (after_commit m b) = fb_entries b"
  by (cases m; simp)+

lemma mutated_ok: "browser_ok b \<Longrightarrow> browser_ok (mutated f b)"
proof (cases "fb_mutation b")
  case (Some mr)
  assume ok: "browser_ok b"
  obtain m req where mr: "mr = (m, req)" by (cases mr)
  show ?thesis
  proof (cases "await_fetch req (\<lambda>_. f) (mutation_res m)")
    case (Inl e)
    then show ?thesis using ok Some mr by (auto simp: mutated_def browser_ok_def)
  next
    case (Inr res)
    have "browser_ok (list_effect (after_commit m (b\<lparr>fb_mutation := None, fb_busy := False,
        fb_status := status_show Success (pushed_text res) (fb_status b)\<rparr>)))"
      by (rule list_effect_ok) simp_all
    then show ?thesis using Inr Some mr by (simp add: mutated_def)
  qed
qed (simp add: mutated_def)

lemma page_click_ok:
  assumes "browser_ok b" "fb_dialog b = None" shows "browser_ok (page_click b e)"
proof (cases e)
  case (ClickEntry x)
  have "browser_ok (b\<lparr>fb_err := None, fb_reads := fb_reads b @ [readFile_req (fb_agent b) (fb_app b) (joinPath (fb_path b) (de_name x))]\<rparr>)"
    using assms(1) by (auto simp: browser_ok_def)
  then show ?thesis using ClickEntry go_to_ok [OF assms(1)] assms(1) by (simp add: onEntry_def)
next
  case ClickSave
  then show ?thesis using assms by (auto simp: onSave_def start_mutation_ok split: option.splits)
next
  case (ClickCrumb i)
  then show ?thesis using go_to_ok [OF assms(1)] assms(1) by simp
next
  case ClickRoot
  then show ?thesis using go_to_ok [OF assms(1)] by simp
next
  case ClickUp
  then show ?thesis using go_to_ok [OF assms(1)] assms(1) by simp
qed (use assms in \<open>auto simp: browser_ok_def\<close>)

lemma listed_ok: "browser_ok b \<Longrightarrow> browser_ok (listed k f b)"
  by (auto simp: listed_def browser_ok_def Let_def split: sum.splits)

lemma read_done_ok: "browser_ok b \<Longrightarrow> browser_ok (read_done k f b)"
  by (auto simp: read_done_def browser_ok_def Let_def split: sum.splits)

lemma dialog_confirm_ok: "browser_ok b \<Longrightarrow> browser_ok (dialog_confirm v b)"
  by (auto simp: dialog_confirm_def commit_ok split: option.splits dialog.splits)

lemma browser_props_ok: "browser_ok b \<Longrightarrow> browser_ok (browser_props agent app cred b)"
  by (auto simp: browser_props_def Let_def intro!: list_effect_ok) (auto simp: browser_ok_def)

lemma browser_step_ok: "browser_ok b \<Longrightarrow> browser_ok (browser_step b e)"
  using page_click_ok [of b e]
  by (cases e) (auto simp: browser_props_ok close_dialog_ok dialog_confirm_ok listed_ok read_done_ok mutated_ok)

lemma browser_run_ok: "browser_ok (foldl browser_step (browser_mount agent app cred) es)"
proof (induction es rule: rev_induct)
  case Nil
  show ?case by (simp add: browser_mount_def list_effect_ok)
qed (simp add: browser_step_ok)

section \<open>Saving\<close>

text \<open>The request of a save reaches the open file with the editor's text.\<close>

lemma write_request:
  assumes "well_formed agent" "well_formed app" "well_formed path"
  shows "\<exists>r. writeFile_req agent app path content message cred = Inr r \<and> req_method r = PUT \<and>
    app_target (req_url r) = Some (agent, app, js ''file'', [(Inr (js ''path''), Inr path)]) \<and>
    req_body r = Some (JObj ((js ''content'', JStr content) # commit_fields message cred))"
proof -
  have "0x2F \<notin> set (js ''file'')" "0x3F \<notin> set (js ''file'')" by (simp_all add: js_def unit_of_def)
  then obtain u where "app_url agent app (path_query ''file'' [(js ''path'', path)]) = Inr u"
    "app_target u = Some (agent, app, js ''file'', [(Inr (js ''path''), Inr path)])"
    using app_target_query [OF assms(1,2), of "[(js ''path'', path)]" "''file''"] assms(3) by auto
  then show ?thesis by (simp add: writeFile_req_def map_result_def send_def commit_fields_def)
qed

lemma delete_request:
  assumes "well_formed agent" "well_formed app" "well_formed path"
  shows "\<exists>r. deleteFile_req agent app path message cred = Inr r \<and> req_method r = DELETE \<and>
    app_target (req_url r) = Some (agent, app, js ''file'', [(Inr (js ''path''), Inr path)])"
proof -
  have "0x2F \<notin> set (js ''file'')" "0x3F \<notin> set (js ''file'')" by (simp_all add: js_def unit_of_def)
  then obtain u where "app_url agent app (path_query ''file'' [(js ''path'', path)]) = Inr u"
    "app_target u = Some (agent, app, js ''file'', [(Inr (js ''path''), Inr path)])"
    using app_target_query [OF assms(1,2), of "[(js ''path'', path)]" "''file''"] assms(3) by auto
  then show ?thesis by (simp add: deleteFile_req_def map_result_def send_def)
qed

lemma read_request:
  assumes "well_formed agent" "well_formed app" shows "\<exists>r. readFile_req agent app path = Inr r"
  by (rule app_url_cases [OF assms]) (simp add: readFile_req_def map_result_def)

lemma answered_simps [simp]:
  "file_res what (answered x) = Inr x"
  by (simp add: file_res_def answered_def resp_ok_def)

lemma response_handlers [simp]:
  "readFile_res (answered c) = Inr c" "writeFile_res (answered r) = Inr r" "deleteFile_res (answered r) = Inr r"
  by (simp_all add: file_handlers)

text \<open>An idle browser with a file open for editing and unsaved changes.\<close>

definition editing :: "file_browser \<Rightarrow> file_content \<Rightarrow> bool" where
  "editing b f \<longleftrightarrow> browser_ok b \<and> fb_open b = Some f \<and> \<not> fc_binary f \<and> \<not> fc_truncated f \<and>
     \<not> fb_busy b \<and> fb_dialog b = None \<and> fb_draft b \<noteq> fc_content f \<and>
     well_formed (fb_agent b) \<and> well_formed (fb_app b) \<and> well_formed (fc_path f)"

lemma save_step:
  assumes "editing b f"
  shows "browser_step b ClickSave = start_mutation (MSave f (fb_draft b))
    (writeFile_req (fb_agent b) (fb_app b) (fc_path f) (fb_draft b)
       (or_else (Some (fb_msg b)) (js ''Update '' @ fc_path f)) (fb_credential b)) b"
  using assms by (simp add: editing_def editable_def save_reason_def onSave_def)

section \<open>Properties\<close>

text \<open>The breadcrumbs and the parent row agree: for every folder the last crumb leads to the
  folder itself, the parent of each crumb is the crumb before it, and the parent of the first
  is the root; and going up undoes entering a folder whose name has no slash.\<close>

lemma breadcrumbs:
  assumes "path \<noteq> []" "0x2F \<notin> set name"
  shows "crumb_path path (length (crumbs path) - 1) = path \<and>
    (\<forall>i. Suc i < length (crumbs path) \<longrightarrow> parentPath (crumb_path path (Suc i)) = crumb_path path i) \<and>
    parentPath (crumb_path path 0) = [] \<and> parentPath (joinPath path name) = path"
  using crumb_last [OF assms(1)] crumb_first [OF assms(1)] crumb_parent parentPath_join [OF assms(2)] by blast

text \<open>C12. In every reachable state of the browser: the busy flag is set exactly while one
  mutation awaits its response, no dialog is open then, the newest listing request is for the
  folder shown, and a response to any older one changes nothing.\<close>

theorem browser_invariant:
  "let b = foldl browser_step (browser_mount agent app cred) es
   in (fb_busy b \<longleftrightarrow> fb_mutation b \<noteq> None) \<and> (fb_dialog b \<noteq> None \<longrightarrow> \<not> fb_busy b) \<and>
      fb_lists b \<noteq> [] \<and> li_path (last (fb_lists b)) = fb_path b \<and>
      (\<forall>k f. k \<noteq> length (fb_lists b) - 1 \<longrightarrow> browser_step b (Listed k f) = b)"
proof -
  let ?b = "foldl browser_step (browser_mount agent app cred) es"
  obtain old where old: "fb_lists ?b = old @ [\<lparr>li_path = fb_path ?b, li_stop = False\<rparr>]"
    "\<forall>l \<in> set old. li_stop l" and ok: "fb_busy ?b \<longleftrightarrow> fb_mutation ?b \<noteq> None" "fb_dialog ?b \<noteq> None \<longrightarrow> \<not> fb_busy ?b"
    using browser_run_ok [of agent app cred es] unfolding browser_ok_def by blast
  have "browser_step ?b (Listed k f) = ?b" if "k \<noteq> length (fb_lists ?b) - 1" for k f
  proof (cases "k < length old")
    case True
    then have "fb_lists ?b ! k = old ! k" "li_stop (old ! k)"
      using old by (auto simp: nth_append)
    then show ?thesis by (simp add: listed_def)
  next
    case False
    then have "\<not> k < length (fb_lists ?b)" using that old(1) by simp
    then show ?thesis by simp
  qed
  with old ok show ?thesis by (simp add: Let_def)
qed

theorem browser_invariant_witness:
  "browser_step (foldl browser_step (browser_mount (js ''dev'') (js ''web'') None) [])
      (Listed 3 (NetworkError (js_Error []))) =
   browser_mount (js ''dev'') (js ''web'') None"
  using browser_invariant [of "js ''dev''" "js ''web''" None "[]"]
  by (simp add: Let_def browser_mount_def list_effect_def)

text \<open>C11. Saving commits what the editor shows: the click sends one PUT for the path of the open
  file with the draft as content and a message that is not empty, and when it succeeds with
  no other click in between the open file is the draft, the editor still shows it, there is
  nothing left to save and the short commit id is reported.\<close>

theorem save_commits:
  assumes "editing b f"
  shows "let s = browser_step b ClickSave; d = browser_step s (Mutated (Response (answered res)))
    in (\<exists>r m. fb_mutation s = Some (MSave f (fb_draft b), Inr r) \<and> m \<noteq> [] \<and> req_method r = PUT \<and>
          app_target (req_url r) = Some (fb_agent b, fb_app b, js ''file'', [(Inr (js ''path''), Inr (fc_path f))]) \<and>
          req_body r = Some (JObj ((js ''content'', JStr (fb_draft b)) # commit_fields m (fb_credential b)))) \<and>
       fb_busy s \<and> \<not> fb_busy d \<and> fb_open d = Some (f\<lparr>fc_content := fb_draft b\<rparr>) \<and>
       shown_text d = Some (fb_draft b) \<and> save_reason d = Some (js ''No changes to save'') \<and>
       st_status (fb_status d) = Some (Success, js ''Pushed '' @ take 7 (sha res) @ js '' to '' @ branch res)"
proof -
  let ?m = "or_else (Some (fb_msg b)) (js ''Update '' @ fc_path f)"
  obtain r where r: "writeFile_req (fb_agent b) (fb_app b) (fc_path f) (fb_draft b) ?m (fb_credential b) = Inr r"
    "req_method r = PUT"
    "app_target (req_url r) = Some (fb_agent b, fb_app b, js ''file'', [(Inr (js ''path''), Inr (fc_path f))])"
    "req_body r = Some (JObj ((js ''content'', JStr (fb_draft b)) # commit_fields ?m (fb_credential b)))"
    using write_request assms unfolding editing_def by metis
  have m: "?m \<noteq> []" by (rule or_else_nonempty) simp
  have s: "browser_step b ClickSave = start_mutation (MSave f (fb_draft b)) (Inr r) b"
    using save_step [OF assms] r(1) by simp
  have d: "browser_step (start_mutation (MSave f (fb_draft b)) (Inr r) b) (Mutated (Response (answered res))) =
      list_effect (b\<lparr>fb_err := None, fb_mutation := None, fb_busy := False,
        fb_status := status_show Success (pushed_text res) (fb_status b), fb_open := Some (f\<lparr>fc_content := fb_draft b\<rparr>)\<rparr>)"
    by (simp add: mutated_def start_mutation_def)
  have "\<not> fc_binary f" "\<not> fc_truncated f" using assms by (simp_all add: editing_def)
  then show ?thesis
    unfolding Let_def s d using r m
    by (auto simp: start_mutation_def list_effect_def shown_text_def editable_def save_reason_def
        status_show_def pushed_text_def Let_def)
qed

definition sample_file :: "file_content" where
  "sample_file = \<lparr>fc_path = js ''a.txt'', fc_content = js ''old'', fc_size = 3, fc_truncated = False, fc_binary = False\<rparr>"

definition sample_browser :: file_browser where
  "sample_browser = (browser_mount (js ''dev'') (js ''web'') None)
     \<lparr>fb_open := Some sample_file, fb_draft := js ''new'',
      fb_entries := [\<lparr>de_name = js ''b.txt'', de_is_dir = False, de_size = 5, de_mod_unix = 0, de_mode = 0\<rparr>,
                     \<lparr>de_name = js ''sub'', de_is_dir = True, de_size = 0, de_mod_unix = 0, de_mode = 0\<rparr>]\<rparr>"

lemma sample_editing: "editing sample_browser sample_file"
  by (auto simp: editing_def sample_browser_def sample_file_def browser_mount_def list_effect_def browser_ok_def)

theorem save_commits_witness:
  "let s = browser_step sample_browser ClickSave;
       d = browser_step s (Mutated (Response (answered \<lparr>sha = js ''0123456789'', branch = js ''main''\<rparr>)))
   in fb_busy s \<and> \<not> fb_busy d \<and> save_reason d = Some (js ''No changes to save'')"
  using save_commits [OF sample_editing, of "\<lparr>sha = js ''0123456789'', branch = js ''main''\<rparr>"]
  unfolding Let_def by blast

text \<open>Opening another file while a save is in flight mixes the two files: when the save of
  \<open>f\<close> is answered after the other file \<open>g\<close> was opened, \<open>f\<close> is the open file again but the
  editor shows the text of \<open>g\<close> as a change of it, and the next save writes that text into
  \<open>f\<close>.\<close>

lemma save_race:
  assumes "editing b f" "e \<in> set (fb_entries b)" "\<not> de_is_dir e" "fb_reads b = []"
    "\<not> fc_binary g" "\<not> fc_truncated g" "fc_content g \<noteq> fb_draft b"
  shows "let d = foldl browser_step b [ClickSave, ClickEntry e, ReadDone 0 (Response (answered g)),
               Mutated (Response (answered res))];
             s = browser_step d ClickSave
    in open_path (fb_open d) = Some (fc_path f) \<and> shown_text d = Some (fc_content g) \<and> save_reason d = None \<and>
       (\<exists>r m. fb_mutation s = Some (m, Inr r) \<and>
          app_target (req_url r) = Some (fb_agent b, fb_app b, js ''file'', [(Inr (js ''path''), Inr (fc_path f))]) \<and>
          (\<exists>rest. req_body r = Some (JObj ((js ''content'', JStr (fc_content g)) # rest))))"
proof -
  let ?w = "\<lambda>d m. writeFile_req (fb_agent b) (fb_app b) (fc_path f) d m (fb_credential b)"
  have wf: "well_formed (fb_agent b)" "well_formed (fb_app b)" "well_formed (fc_path f)"
    using assms(1) by (simp_all add: editing_def)
  obtain r where r: "?w (fb_draft b) (or_else (Some (fb_msg b)) (js ''Update '' @ fc_path f)) = Inr r"
    using write_request [OF wf] by blast
  obtain q where q: "readFile_req (fb_agent b) (fb_app b) (joinPath (fb_path b) (de_name e)) = Inr q"
    using read_request [OF wf(1,2)] by blast
  let ?msg = "js ''Update '' @ fc_path g"
  obtain r2 where r2: "?w (fc_content g) (or_else (Some ?msg) (js ''Update '' @ fc_path f)) = Inr r2"
    "app_target (req_url r2) = Some (fb_agent b, fb_app b, js ''file'', [(Inr (js ''path''), Inr (fc_path f))])"
    "req_body r2 = Some (JObj ((js ''content'', JStr (fc_content g)) #
        commit_fields (or_else (Some ?msg) (js ''Update '' @ fc_path f)) (fb_credential b)))"
    using write_request [OF wf] by metis
  have idle: "fb_dialog b = None" "\<not> fc_binary f" "\<not> fc_truncated f" using assms(1) by (simp_all add: editing_def)
  let ?f = "f\<lparr>fc_content := fb_draft b\<rparr>"
  define s1 where "s1 = start_mutation (MSave f (fb_draft b)) (Inr r) b"
  define s2 where "s2 = s1\<lparr>fb_err := None, fb_reads := [Inr q]\<rparr>"
  define s3 where "s3 = s2\<lparr>fb_reads := [], fb_open := Some g, fb_draft := fc_content g, fb_msg := ?msg\<rparr>"
  define d where "d = list_effect (s3\<lparr>fb_mutation := None, fb_busy := False,
      fb_status := status_show Success (pushed_text res) (fb_status s3), fb_open := Some ?f\<rparr>)"
  have "browser_step b ClickSave = s1" using save_step [OF assms(1)] r by (simp add: s1_def)
  moreover have "browser_step s1 (ClickEntry e) = s2"
    using assms(2-4) idle(1) q by (simp add: s1_def s2_def start_mutation_def onEntry_def)
  moreover have "browser_step s2 (ReadDone 0 (Response (answered g))) = s3"
    by (simp add: s1_def s2_def s3_def start_mutation_def read_done_def)
  moreover have "browser_step s3 (Mutated (Response (answered res))) = d"
    by (simp add: s1_def s2_def s3_def d_def start_mutation_def mutated_def)
  ultimately have run: "foldl browser_step b [ClickSave, ClickEntry e, ReadDone 0 (Response (answered g)),
      Mutated (Response (answered res))] = d" by simp
  have fields: "fb_open d = Some ?f" "fb_draft d = fc_content g" "fb_busy d = False" "fb_dialog d = None"
    "fb_msg d = ?msg" "fb_agent d = fb_agent b" "fb_app d = fb_app b" "fb_credential d = fb_credential b"
    using idle(1) by (simp_all add: d_def s3_def s2_def s1_def list_effect_def start_mutation_def)
  have can_save: "save_reason d = None" "editable d"
    using fields idle(2,3) assms(7) by (simp_all add: save_reason_def editable_def)
  have save: "browser_step d ClickSave = start_mutation (MSave ?f (fc_content g)) (Inr r2) d"
    using can_save fields r2(1) by (simp add: onSave_def)
  show ?thesis
    unfolding Let_def run save using r2 fields can_save idle(2)
    by (simp add: open_path_def shown_text_def start_mutation_def)
qed

text \<open>A folder that cannot be listed keeps the rows of the folder left: entering the folder \<open>d\<close>
  when its listing fails changes the path but not the rows, and confirming the deletion of a
  row \<open>x\<close>, listed in the old folder, deletes the file of that name inside \<open>d\<close>.\<close>

lemma stale_rows:
  assumes "browser_ok b" "\<not> fb_busy b" "fb_dialog b = None" "well_formed (fb_agent b)" "well_formed (fb_app b)"
    "d \<in> set (fb_entries b)" "de_is_dir d" "de_name d \<noteq> []" "x \<in> set (fb_entries b)" "\<not> de_is_dir x"
    "well_formed (joinPath (joinPath (fb_path b) (de_name d)) (de_name x))"
  shows "let c = foldl browser_step b [ClickEntry d, Listed (length (fb_lists b)) (NetworkError err)];
             s = foldl browser_step c [ClickDelete x, DialogConfirm []]
    in fb_path c = joinPath (fb_path b) (de_name d) \<and> fb_entries c = fb_entries b \<and>
       (\<exists>r m. fb_mutation s = Some (m, Inr r) \<and> req_method r = DELETE \<and>
          app_target (req_url r) = Some (fb_agent b, fb_app b, js ''file'',
            [(Inr (js ''path''), Inr (joinPath (joinPath (fb_path b) (de_name d)) (de_name x)))]))"
proof -
  let ?p = "joinPath (fb_path b) (de_name d)" and ?rel = "joinPath (joinPath (fb_path b) (de_name d)) (de_name x)"
  have ne: "?p \<noteq> fb_path b" using assms(8) by (auto simp: joinPath_def)
  define s1 where "s1 = list_effect (b\<lparr>fb_open := None, fb_path := ?p\<rparr>)"
  have s1: "browser_step b (ClickEntry d) = s1"
    using assms(3,6,7) ne by (simp add: onEntry_def go_to_def s1_def)
  obtain l where l: "listDir_req (fb_agent b) (fb_app b) ?p = Inr l"
    by (rule app_url_cases [OF assms(4,5)]) (simp add: listDir_req_def map_result_def)
  define c where "c = s1\<lparr>fb_err := Some (shown_error err)\<rparr>"
  have "browser_step s1 (Listed (length (fb_lists b)) (NetworkError err)) = c"
    using l by (simp add: s1_def c_def list_effect_def listed_def nth_append)
  with s1 have run: "foldl browser_step b [ClickEntry d, Listed (length (fb_lists b)) (NetworkError err)] = c" by simp
  have c: "fb_path c = ?p" "fb_entries c = fb_entries b" "fb_dialog c = None" "\<not> fb_busy c"
    "fb_agent c = fb_agent b" "fb_app c = fb_app b"
    using assms(2,3) by (simp_all add: c_def s1_def list_effect_def)
  obtain r where r: "deleteFile_req (fb_agent b) (fb_app b) ?rel (js ''Delete '' @ ?rel) (fb_credential c) = Inr r"
    "req_method r = DELETE"
    "app_target (req_url r) = Some (fb_agent b, fb_app b, js ''file'', [(Inr (js ''path''), Inr ?rel)])"
    using delete_request [OF assms(4,5,11)] by metis
  have "foldl browser_step c [ClickDelete x, DialogConfirm []] = commitDelete x (c\<lparr>fb_dialog := Some (DeleteDialog x)\<rparr>)"
    using c assms(9,10) by (simp add: dialog_confirm_def)
  also have "fb_mutation \<dots> = Some (MDelete (fb_open c) ?rel, Inr r)"
    using c r(1) by (simp add: commitDelete_def start_mutation_def Let_def)
  finally have "fb_mutation (foldl browser_step c [ClickDelete x, DialogConfirm []]) =
      Some (MDelete (fb_open c) ?rel, Inr r)" .
  with run c r show ?thesis by (simp add: Let_def del: foldl.simps)
qed

end
