(* ===== verification/Session.thy ===== *)
theory Session imports Router Api begin

text \<open>
  The application frame: the session states of App.tsx and Login.tsx, the navigation rail,
  badge and sign-out of AppShell.tsx, the error boundary of ErrorBoundary.tsx and the update
  notice of UpdateBanner.tsx. The state holds, beside what the components keep, the session
  the server associates with the browser's cookie, so that signing out and reloading can be
  followed to the end.
\<close>

section \<open>State\<close>

record login_form =
  lf_user :: jstr
  lf_pass :: jstr
  lf_error :: jstr
  lf_busy :: bool

definition login_mount :: login_form where
  "login_mount = \<lparr>lf_user = js ''admin'', lf_pass = [], lf_error = [], lf_busy = False\<rparr>"

record frame =
  fr_authed :: "bool option"
  fr_router :: router
  fr_login :: login_form
  fr_boundary :: bool
  fr_cookie :: "jstr option"

text \<open>
  Loading the page: the session is unknown until \<open>getSession\<close> answers. The route is parsed
  first; a hash that cannot be decoded leaves no page at all.
\<close>

definition boot :: "jstr \<Rightarrow> jstr option \<Rightarrow> frame result" where
  "boot hash cookie =
     map_result (\<lambda>r. \<lparr>fr_authed = None, fr_router = r, fr_login = login_mount, fr_boundary = False,
                       fr_cookie = cookie\<rparr>) (use_route_init hash)"

text \<open>What the session endpoint answers for a cookie.\<close>

definition session_endpoint :: "jstr option \<Rightarrow> jstr fetched" where
  "session_endpoint cookie =
     (case cookie of None \<Rightarrow> Response (empty_response 401)
      | Some user \<Rightarrow> Response \<lparr>status = 200, json_body = Inr user, error_field = Inr None, body_text = []\<rparr>)"

definition session_answered :: "jstr fetched \<Rightarrow> frame \<Rightarrow> frame" where
  "session_answered f s =
     (case await_fetch (Inr getSession_req) (\<lambda>_. f) getSession_res of
        Inl _ \<Rightarrow> s
      | Inr u \<Rightarrow> s\<lparr>fr_authed := Some (u \<noteq> None)\<rparr>)"

section \<open>Login\<close>

definition set_pass :: "jstr \<Rightarrow> frame \<Rightarrow> frame" where
  "set_pass p s = s\<lparr>fr_login := (fr_login s)\<lparr>lf_pass := p\<rparr>\<rparr>"

definition submit :: "frame \<Rightarrow> frame" where
  "submit s =
     (if lf_busy (fr_login s) then s
      else s\<lparr>fr_login := (fr_login s)\<lparr>lf_error := [], lf_busy := True\<rparr>\<rparr>)"

text \<open>
  The rest of \<open>submit\<close>: a successful login sets the cookie and unmounts the form, a refused
  one shows an error, and a network error ends the handler at its await.
\<close>

definition login_answered :: "jstr \<Rightarrow> unit fetched \<Rightarrow> frame \<Rightarrow> frame" where
  "login_answered user f s =
     (case await_fetch (Inr (login_req (lf_user (fr_login s)) (lf_pass (fr_login s)))) (\<lambda>_. f) login_res of
        Inl _ \<Rightarrow> s
      | Inr True \<Rightarrow> s\<lparr>fr_authed := Some True, fr_login := login_mount, fr_cookie := Some user\<rparr>
      | Inr False \<Rightarrow> s\<lparr>fr_login := (fr_login s)\<lparr>lf_busy := False, lf_error := js ''invalid username or password''\<rparr>\<rparr>)"

section \<open>AppShell\<close>

text \<open>The sign-out button: \<open>onLogout\<close> is \<open>() => setAuthed(false)\<close>.\<close>

definition sign_out :: "frame \<Rightarrow> frame" where
  "sign_out s = s\<lparr>fr_authed := Some False, fr_login := login_mount, fr_boundary := False\<rparr>"

text \<open>The hash a button of the rail navigates to.\<close>

fun rail_hash :: "nav_item \<Rightarrow> jstr" where
  "rail_hash NavFleet = js ''#/''"
| "rail_hash NavErrors = js ''#/errors''"
| "rail_hash NavLogs = js ''#/logs''"
| "rail_hash NavNotif = js ''#/notifications''"
| "rail_hash NavCreds = js ''#/credentials''"

definition rail_class :: "route \<Rightarrow> nav_item \<Rightarrow> jstr" where
  "rail_class r i = js ''ri'' @ (if navItemFor r = Some i then js '' on'' else [])"

definition go_hash :: "jstr \<Rightarrow> frame \<Rightarrow> frame" where
  "go_hash h s = s\<lparr>fr_router := navigate h (fr_router s)\<rparr>"

text \<open>The error badge: the last count received while mounted, shown when positive.\<close>

definition badge_answered :: "bool \<Rightarrow> errors_response fetched \<Rightarrow> int \<Rightarrow> int" where
  "badge_answered cancelled f badge =
     (case await_fetch (Inr (getErrors_req (js ''24h'') None)) (\<lambda>_. f) getErrors_res of
        Inl _ \<Rightarrow> badge
      | Inr r \<Rightarrow> if cancelled then badge else ec_unacknowledged (er_cluster r))"

definition badge_text :: "int \<Rightarrow> jstr option" where
  "badge_text badge = (if 0 < badge then Some (dec_int badge) else None)"

section \<open>What is shown\<close>

datatype page =
    LoadingPage
  | LoginPage
  | Shell jstr "route option"

text \<open>\<open>Shell ctx None\<close> is the shell with the boundary's fallback in place of the page.\<close>

definition shell_ctx :: "route \<Rightarrow> jstr" where
  "shell_ctx r =
     (case r of RDetail _ _ \<Rightarrow> js ''Fleet'' | RCredentials \<Rightarrow> js ''Credentials''
      | RNotifications \<Rightarrow> js ''Notifications'' | RErrors \<Rightarrow> js ''Errors'' | RLogs _ _ \<Rightarrow> js ''Logs''
      | ROverview \<Rightarrow> js ''Fleet'')"

definition render_boundary :: "bool \<Rightarrow> route \<Rightarrow> route option" where
  "render_boundary has_error r = (if has_error then None else Some r)"

definition App :: "frame \<Rightarrow> page" where
  "App s =
     (case fr_authed s of
        None \<Rightarrow> LoadingPage
      | Some False \<Rightarrow> LoginPage
      | Some True \<Rightarrow> Shell (shell_ctx (current (fr_router s)))
                          (render_boundary (fr_boundary s) (current (fr_router s))))"

text \<open>\<open>getDerivedStateFromError\<close>: a page of the shell fails to render.\<close>

definition render_failed :: "frame \<Rightarrow> frame" where
  "render_failed s = (if fr_authed s = Some True then s\<lparr>fr_boundary := True\<rparr> else s)"

section \<open>Events\<close>

datatype frame_event =
    SessionAnswered "jstr fetched"
  | TypePass jstr
  | Submit
  | LoginAnswered jstr "unit fetched"
  | SignOut
  | Hash jstr
  | RenderFailed

fun frame_step :: "frame \<Rightarrow> frame_event \<Rightarrow> frame" where
  "frame_step s (SessionAnswered f) = session_answered f s"
| "frame_step s (TypePass p) = (if App s = LoginPage then set_pass p s else s)"
| "frame_step s Submit = (if App s = LoginPage then submit s else s)"
| "frame_step s (LoginAnswered u f) =
     (if App s = LoginPage \<and> lf_busy (fr_login s) then login_answered u f s else s)"
| "frame_step s SignOut = (case App s of Shell _ _ \<Rightarrow> sign_out s | _ \<Rightarrow> s)"
| "frame_step s (Hash h) = go_hash h s"
| "frame_step s RenderFailed = render_failed s"

text \<open>The events that confirm a session.\<close>

fun grants :: "frame_event \<Rightarrow> bool" where
  "grants (SessionAnswered (Response r)) = (status r = 200)"
| "grants (LoginAnswered _ (Response r)) = (status r = 200)"
| "grants _ = False"

section \<open>UpdateBanner\<close>

text \<open>
  The browser's storage as a map, and whether it can be written. The banner decides once,
  when it is mounted, whether the notice was dismissed before.
\<close>

definition dismissKey :: "jstr \<Rightarrow> jstr" where
  "dismissKey latest = js ''marshal.update.dismissed.'' @ latest"

definition banner_agents :: "update_status \<Rightarrow> nat" where
  "banner_agents u = length (nullish (us_outdated_agents u) [])"

definition banner_relevant :: "update_status \<Rightarrow> bool" where
  "banner_relevant u \<longleftrightarrow> us_enabled u \<and> (us_outdated u \<or> 0 < banner_agents u)"

definition banner_dismissed :: "(jstr \<rightharpoonup> jstr) \<Rightarrow> update_status \<Rightarrow> bool" where
  "banner_dismissed storage u \<longleftrightarrow> banner_relevant u \<and> storage (dismissKey (us_latest u)) = Some (js ''1'')"

definition banner_shown :: "update_status \<Rightarrow> bool \<Rightarrow> bool" where
  "banner_shown u dismissed \<longleftrightarrow> banner_relevant u \<and> \<not> dismissed"

definition banner_dismiss :: "bool \<Rightarrow> (jstr \<rightharpoonup> jstr) \<Rightarrow> update_status \<Rightarrow> (jstr \<rightharpoonup> jstr) \<times> bool" where
  "banner_dismiss writable storage u =
     (if writable then storage(dismissKey (us_latest u) \<mapsto> js ''1'') else storage, True)"

definition banner_text :: "update_status \<Rightarrow> jstr" where
  "banner_text u =
     (if us_outdated u
      then js ''Marshal '' @ us_latest u @ js '' is available'' @
           (if us_current u \<noteq> [] then js '' '' @ em_dash @ js '' this server runs '' @ us_current u else [])
      else js ''Marshal '' @ us_latest u @ js '' is the latest release'') @
     (if 0 < banner_agents u
      then js '' '' @ middle_dot @ js '' '' @ dec_nat (banner_agents u) @ js '' agent'' @
           (if banner_agents u = 1 then [] else js ''s'') @ js '' on an older version''
      else [])"

section \<open>Lemmas\<close>

lemma App_shell: "(\<exists>c r. App s = Shell c r) \<longleftrightarrow> fr_authed s = Some True"
  by (auto simp: App_def split: option.splits bool.splits)

lemma App_login: "App s = LoginPage \<longleftrightarrow> fr_authed s = Some False"
  by (auto simp: App_def split: option.splits bool.splits)

lemma authed_step:
  "fr_authed (frame_step s e) = Some True \<Longrightarrow> fr_authed s = Some True \<and> e \<noteq> SignOut \<or> grants e"
proof (cases e)
  case (SessionAnswered f)
  then show "fr_authed (frame_step s e) = Some True \<Longrightarrow> ?thesis"
    by (cases f) (auto simp: session_answered_def getSession_res_def map_result_def split: if_splits sum.splits)
next
  case (LoginAnswered u f)
  then show "fr_authed (frame_step s e) = Some True \<Longrightarrow> ?thesis"
    by (cases f) (auto simp: login_answered_def login_res_def App_login split: if_splits sum.splits bool.splits)
next
  case SignOut
  then show "fr_authed (frame_step s e) = Some True \<Longrightarrow> ?thesis"
    using App_shell [of s] by (auto simp: sign_out_def split: page.splits)
qed (auto simp: set_pass_def submit_def go_hash_def render_failed_def split: if_splits)

lemma authed_run:
  "fr_authed s \<noteq> Some True \<Longrightarrow> fr_authed (foldl frame_step s es) = Some True \<Longrightarrow>
   \<exists>es1 e es2. es = es1 @ e # es2 \<and> grants e \<and> SignOut \<notin> set es2"
proof (induction es rule: rev_induct)
  case (snoc x es)
  have "fr_authed (foldl frame_step s es) = Some True \<and> x \<noteq> SignOut \<or> grants x"
    using authed_step snoc.prems(2) by simp
  then show ?case
  proof
    assume a: "fr_authed (foldl frame_step s es) = Some True \<and> x \<noteq> SignOut"
    then obtain es1 e es2 where "es = es1 @ e # es2" "grants e" "SignOut \<notin> set es2"
      using snoc by blast
    with a show ?thesis by (intro exI [of _ es1] exI [of _ e] exI [of _ "es2 @ [x]"]) auto
  next
    assume "grants x"
    then show ?thesis by (intro exI [of _ es] exI [of _ x] exI [of _ "[]"]) simp
  qed
qed simp

text \<open>No event of the page ends the session of the cookie.\<close>

lemma cookie_step: "fr_cookie s \<noteq> None \<Longrightarrow> fr_cookie (frame_step s e) \<noteq> None"
  by (cases e) (auto simp: session_answered_def set_pass_def submit_def login_answered_def sign_out_def
      go_hash_def render_failed_def split: sum.splits bool.splits page.splits)

lemma cookie_run: "fr_cookie s \<noteq> None \<Longrightarrow> fr_cookie (foldl frame_step s es) \<noteq> None"
proof (induction es rule: rev_induct)
  case (snoc x xs)
  then have "fr_cookie (foldl frame_step s xs) \<noteq> None" by blast
  then show ?case using cookie_step by simp
qed simp

lemma boundary_step:
  "fr_authed s = Some True \<Longrightarrow> fr_boundary s \<Longrightarrow> e \<noteq> SignOut \<Longrightarrow> (\<forall>f. e \<noteq> SessionAnswered f) \<Longrightarrow>
   fr_authed (frame_step s e) = Some True \<and> fr_boundary (frame_step s e)"
  by (cases e) (auto simp: App_login go_hash_def render_failed_def)

lemma boundary_sticky:
  "fr_authed s = Some True \<Longrightarrow> fr_boundary s \<Longrightarrow>
   \<exists>c. App (foldl frame_step s (map Hash hs)) = Shell c None"
proof (induction hs arbitrary: s)
  case (Cons h hs)
  then show ?case using boundary_step [of s "Hash h"] by auto
qed (simp add: App_def render_boundary_def)

lemma dismissKey_inject [simp]: "dismissKey a = dismissKey b \<longleftrightarrow> a = b"
  by (simp add: dismissKey_def)

section \<open>Properties\<close>

text \<open>Nothing but the loading text and the login form is shown before the server confirmed the
  session: whenever a page of the shell is shown, the session request or a login was answered
  with 200 and the user has not signed out since.\<close>

lemma pages_need_session:
  assumes "boot hash cookie = Inr s" "App (foldl frame_step s es) \<noteq> LoadingPage"
    "App (foldl frame_step s es) \<noteq> LoginPage"
  shows "\<exists>es1 e es2. es = es1 @ e # es2 \<and> grants e \<and> SignOut \<notin> set es2"
proof (rule authed_run)
  show "fr_authed s \<noteq> Some True"
    using assms(1) by (auto simp: boot_def map_result_def split: sum.splits)
  show "fr_authed (foldl frame_step s es) = Some True"
    using assms(2,3) by (auto simp: App_def split: option.splits bool.splits)
qed

lemma boot_overview:
  "boot (js ''#/'') cookie = Inr \<lparr>fr_authed = None, fr_router = \<lparr>location_hash = js ''#/'', current = ROverview\<rparr>,
     fr_login = login_mount, fr_boundary = False, fr_cookie = cookie\<rparr>"
  by (simp add: boot_def use_route_init_def parseHash_def match_logs_def match_detail_def startsWith_def
      map_result_def js_def unit_of_def)

text \<open>Signing out does not end the session: once the browser holds a session, whatever the
  user does, sign out included, reloading the page and the answer of the session endpoint
  bring back a signed-in shell for every hash that can be parsed.\<close>

lemma sign_out_keeps_session:
  assumes "fr_cookie s \<noteq> None" "boot hash (fr_cookie (foldl frame_step s (es @ [SignOut]))) = Inr r"
  shows "\<exists>c p. App (frame_step r (SessionAnswered (session_endpoint (fr_cookie r)))) = Shell c p"
proof -
  have "fr_cookie (foldl frame_step s (es @ [SignOut])) \<noteq> None" using assms(1) by (rule cookie_run)
  moreover have "fr_cookie r = fr_cookie (foldl frame_step s (es @ [SignOut]))"
    using assms(2) by (auto simp: boot_def map_result_def split: sum.splits)
  ultimately obtain u where "fr_cookie r = Some u" by auto
  then have "fr_authed (frame_step r (SessionAnswered (session_endpoint (fr_cookie r)))) = Some True"
    by (simp add: session_answered_def session_endpoint_def getSession_res_def map_result_def)
  then show ?thesis by (simp add: App_shell)
qed

text \<open>The rail leads where it says: clicking an item opens a route for which exactly that item
  is highlighted.\<close>

lemma rail_highlights:
  "navItemFor (current (fr_router (go_hash (rail_hash i) s))) = Some i \<and>
   (rail_class (current (fr_router (go_hash (rail_hash i) s))) j = js ''ri on'' \<longleftrightarrow> j = i)"
proof -
  have "navItemFor (current (fr_router (go_hash (rail_hash i) s))) = Some i"
    by (cases i) (simp_all add: go_hash_def navigate_def on_hashchange_def parseHash_def match_logs_def
        match_detail_def startsWith_def js_def unit_of_def)
  then show ?thesis by (auto simp: rail_class_def js_def)
qed

text \<open>A dismissed update notice stays away until a newer release: with writable storage,
  after dismissing the notice for one release a new mount shows a notice exactly when it is
  relevant, its release differs from the dismissed one and was not itself dismissed before.\<close>

lemma dismissal_per_release:
  "banner_shown v (banner_dismissed (fst (banner_dismiss True storage u)) v) \<longleftrightarrow>
     banner_relevant v \<and> us_latest v \<noteq> us_latest u \<and> storage (dismissKey (us_latest v)) \<noteq> Some (js ''1'')"
  by (auto simp: banner_shown_def banner_dismissed_def banner_dismiss_def)

end
