(* ===== verification/AddApp.thy ===== *)
theory AddApp imports Api Widgets begin

text \<open>
  The add-application form (web/src/AddAppModal.tsx): its fields, the rule that enables
  submission and the text that explains a disabled button, the argument splitter, the
  environment rows, the source document that is sent, and the life of a submission; and the
  connect-agent form (web/src/ConnectAgentModal.tsx).
\<close>

section \<open>The form\<close>

datatype source_type = TCommand | TGit

record env_row =
  er_key :: jstr
  er_value :: jstr

record add_form =
  af_agent :: jstr
  af_type :: source_type
  af_name :: jstr
  af_cmd :: jstr
  af_args :: jstr
  af_cwd :: jstr
  af_repo :: jstr
  af_ref :: jstr
  af_build :: jstr
  af_subdir :: jstr
  af_instances :: jstr
  af_env :: "env_row list"
  af_restart :: jstr
  af_max_restarts :: jstr
  af_kill_timeout :: jstr
  af_max_memory :: jstr
  af_credential :: jstr
  af_busy :: bool
  af_error :: jstr

definition add_mount :: "agent list \<Rightarrow> add_form" where
  "add_mount agents =
     (let connected = filter a_connected agents
      in \<lparr>af_agent = (if length connected = 1 then a_name (hd connected) else []), af_type = TCommand,
          af_name = [], af_cmd = [], af_args = [], af_cwd = [], af_repo = [], af_ref = [], af_build = [],
          af_subdir = [], af_instances = [], af_env = [], af_restart = js ''always'', af_max_restarts = [],
          af_kill_timeout = [], af_max_memory = [], af_credential = [], af_busy = False, af_error = []\<rparr>)"

definition canSubmit :: "add_form \<Rightarrow> bool" where
  "canSubmit f \<longleftrightarrow> af_agent f \<noteq> [] \<and> trim (af_name f) \<noteq> [] \<and> trim (af_cmd f) \<noteq> [] \<and>
     (af_type f = TCommand \<or> trim (af_repo f) \<noteq> []) \<and> \<not> af_busy f"

definition disabledReason :: "add_form \<Rightarrow> jstr option" where
  "disabledReason f =
     (if af_agent f = [] then Some (js ''Select an agent'')
      else if trim (af_name f) = [] then Some (js ''Enter a name'')
      else if trim (af_cmd f) = [] then Some (js ''Enter a command'')
      else if af_type f = TGit \<and> trim (af_repo f) = [] then Some (js ''Enter a repo URL'')
      else if af_busy f then Some (js ''Submitting'' @ ellipsis)
      else None)"

section \<open>Environment rows\<close>

definition env_set_key :: "nat \<Rightarrow> jstr \<Rightarrow> env_row list \<Rightarrow> env_row list" where
  "env_set_key i k rs = map (\<lambda>(j, r). if j = i then r\<lparr>er_key := k\<rparr> else r) (enumerate 0 rs)"

definition env_set_value :: "nat \<Rightarrow> jstr \<Rightarrow> env_row list \<Rightarrow> env_row list" where
  "env_set_value i v rs = map (\<lambda>(j, r). if j = i then r\<lparr>er_value := v\<rparr> else r) (enumerate 0 rs)"

definition env_remove :: "nat \<Rightarrow> env_row list \<Rightarrow> env_row list" where
  "env_remove i rs = map snd (filter (\<lambda>(j, r). j \<noteq> i) (enumerate 0 rs))"

definition env_add :: "env_row list \<Rightarrow> env_row list" where
  "env_add rs = rs @ [\<lparr>er_key = [], er_value = []\<rparr>]"

text \<open>
  \<open>envMap[key] = value\<close> on an object literal: an existing key keeps its place, and the key
  \<open>__proto__\<close> calls a setter that ignores strings.
\<close>

fun env_put :: "jstr \<Rightarrow> jstr \<Rightarrow> (jstr \<times> jstr) list \<Rightarrow> (jstr \<times> jstr) list" where
  "env_put k v [] = (if k = js ''__proto__'' then [] else [(k, v)])"
| "env_put k v ((k', v') # m) = (if k = k' then (k, v) # m else (k', v') # env_put k v m)"

definition env_map :: "env_row list \<Rightarrow> (jstr \<times> jstr) list" where
  "env_map rows =
     foldl (\<lambda>m r. if trim (er_key r) \<noteq> [] then env_put (trim (er_key r)) (er_value r) m else m) [] rows"

section \<open>Arguments\<close>

text \<open>\<open>s.split(/\s+/)\<close>, then \<open>trim\<close> and \<open>filter(Boolean)\<close>.\<close>

function split_ws :: "jstr \<Rightarrow> jstr list" where
  "split_ws s =
     (let w = takeWhile (\<lambda>c. \<not> is_space c) s; r = dropWhile (\<lambda>c. \<not> is_space c) s
      in if r = [] then [w] else w # split_ws (dropWhile is_space r))"
  by pat_completeness auto
termination
proof (relation "measure length", simp_all, goal_cases)
  case (1 s)
  let ?r = "dropWhile (\<lambda>c. \<not> is_space c) s"
  have "\<exists>c \<in> set s. is_space c" using 1 by (auto simp: dropWhile_eq_Nil_conv)
  then have r: "?r \<noteq> []" by (auto simp: dropWhile_eq_Nil_conv)
  then have "is_space (hd ?r)" using hd_dropWhile [of "\<lambda>c. \<not> is_space c" s] by simp
  then have "length (dropWhile is_space ?r) < length ?r"
    using r by (cases ?r) (auto simp: less_Suc_eq_le length_dropWhile_le)
  also have "\<dots> \<le> length s" by (rule length_dropWhile_le)
  finally show ?case .
qed

declare split_ws.simps [simp del]

definition arg_list :: "jstr \<Rightarrow> jstr list" where
  "arg_list s = filter (\<lambda>w. w \<noteq> []) (map trim (split_ws s))"

section \<open>The source that is sent\<close>

definition if_given :: "jstr \<Rightarrow> jstr option" where
  "if_given s = (if trim s \<noteq> [] then Some (trim s) else None)"

definition number_given :: "jstr \<Rightarrow> jsnum option" where
  "number_given s = (if trim s \<noteq> [] then Some (Number s) else None)"

definition megabytes_given :: "jstr \<Rightarrow> jsnum option" where
  "megabytes_given s = (if trim s \<noteq> [] then Some (scale 1024 (scale 1024 (Number s))) else None)"

definition list_given :: "'a list \<Rightarrow> 'a list option" where
  "list_given xs = (if xs \<noteq> [] then Some xs else None)"

definition restart_given :: "jstr \<Rightarrow> jstr option" where
  "restart_given r = (if r \<noteq> js ''always'' then Some r else None)"

definition form_source :: "add_form \<Rightarrow> app_source" where
  "form_source f =
     (case af_type f of
        TGit \<Rightarrow> GitApp
          \<lparr>gs_name = trim (af_name f), gs_cmd = trim (af_cmd f), gs_args = list_given (arg_list (af_args f)),
           gs_instances = number_given (af_instances f), gs_env = list_given (env_map (af_env f)),
           gs_restart = restart_given (af_restart f), gs_repo = trim (af_repo f),
           gs_ref = if_given (af_ref f), gs_build = if_given (af_build f), gs_subdir = if_given (af_subdir f),
           gs_credential = (if af_credential f \<noteq> [] then Some (af_credential f) else None),
           gs_max_memory_restart = megabytes_given (af_max_memory f)\<rparr>
      | TCommand \<Rightarrow> CommandApp
          \<lparr>cs_name = trim (af_name f), cs_cmd = trim (af_cmd f), cs_args = list_given (arg_list (af_args f)),
           cs_cwd = if_given (af_cwd f), cs_instances = number_given (af_instances f),
           cs_env = list_given (env_map (af_env f)), cs_restart = restart_given (af_restart f),
           cs_max_restarts = number_given (af_max_restarts f), cs_kill_timeout = if_given (af_kill_timeout f),
           cs_max_memory_restart = megabytes_given (af_max_memory f)\<rparr>)"

section \<open>Submission\<close>

text \<open>The submit handler up to its await: the new form and the request, if one is sent.\<close>

definition add_submit :: "add_form \<Rightarrow> add_form \<times> request option" where
  "add_submit f =
     (if \<not> canSubmit f then (f, None)
      else (f\<lparr>af_busy := True, af_error := []\<rparr>, Some (addApp_req (af_agent f) (form_source f))))"

datatype add_outcome = Stay | AddedAndClosed

definition add_answered :: "control_result fetched \<Rightarrow> add_form \<Rightarrow> add_form \<times> add_outcome" where
  "add_answered r f =
     (case reply r addApp_res of
        Inl _ \<Rightarrow> (f, Stay)
      | Inr res \<Rightarrow>
          let f' = f\<lparr>af_busy := False\<rparr>
          in if cr_ok res then (f', AddedAndClosed)
             else (f'\<lparr>af_error := or_else (cr_error res) (js ''error'')\<rparr>, Stay))"

section \<open>ConnectAgentModal\<close>

record connect_form =
  co_name :: jstr
  co_address :: jstr
  co_cmd :: jstr
  co_busy :: bool
  co_error :: jstr
  co_copied :: bool

definition connect_mount :: connect_form where
  "connect_mount = \<lparr>co_name = js ''agent'', co_address = [], co_cmd = [], co_busy = False, co_error = [], co_copied = False\<rparr>"

definition newline :: jstr where "newline = [0x0A]"

definition connect_command :: "jstr \<Rightarrow> jstr \<Rightarrow> jstr \<Rightarrow> jstr \<Rightarrow> jstr" where
  "connect_command addr name tok fingerprint =
     js ''cat > marshal.yaml <<'' @ [0x27] @ js ''EOF'' @ [0x27] @ newline @
     js ''server:'' @ newline @
     js ''  address: '' @ addr @ newline @
     js ''  name: '' @ name @ newline @
     js ''  token: '' @ tok @ newline @
     js ''  fingerprint: '' @ fingerprint @ newline @
     js ''EOF'' @ newline @
     js ''marshal start marshal.yaml''"

definition generate_start :: "connect_form \<Rightarrow> connect_form" where
  "generate_start c =
     (if co_busy c then c else c\<lparr>co_busy := True, co_error := [], co_copied := False\<rparr>)"

text \<open>
  The rest of \<open>generate\<close>, with the address and name its closure captured when it was clicked.
\<close>

definition generate_done :: "jstr \<Rightarrow> jstr \<Rightarrow> connect_info fetched \<Rightarrow> connect_form \<Rightarrow> connect_form" where
  "generate_done address name r c =
     (case reply r connectToken_res of
        Inl e \<Rightarrow> c\<lparr>co_busy := False, co_error := string_of_error e\<rparr>
      | Inr info \<Rightarrow>
          let addr = or_else (Some (trim address)) (ci_default_address info)
          in c\<lparr>co_busy := False, co_address := addr,
               co_cmd := connect_command addr (or_else (Some (trim name)) (js ''agent'')) (ci_token info)
                 (ci_fingerprint info)\<rparr>)"

section \<open>Lemmas\<close>

lemma canSubmit_reason: "canSubmit f \<longleftrightarrow> disabledReason f = None"
  by (cases "af_type f") (auto simp: canSubmit_def disabledReason_def)

lemma no_space_trim: "list_all (\<lambda>c. \<not> is_space c) w \<Longrightarrow> trim w = w"
proof -
  assume w: "list_all (\<lambda>c. \<not> is_space c) w"
  then have "dropWhile is_space w = w" by (cases w) auto
  moreover have "dropWhile is_space (rev w) = rev w"
    using w by (cases w rule: rev_cases) auto
  ultimately show ?thesis by (simp add: trim_def)
qed

lemma split_ws_cases:
  "dropWhile (\<lambda>c. \<not> is_space c) s = [] \<Longrightarrow> split_ws s = [takeWhile (\<lambda>c. \<not> is_space c) s]"
  "dropWhile (\<lambda>c. \<not> is_space c) s \<noteq> [] \<Longrightarrow> split_ws s =
     takeWhile (\<lambda>c. \<not> is_space c) s # split_ws (dropWhile is_space (dropWhile (\<lambda>c. \<not> is_space c) s))"
  unfolding split_ws.simps [of s] Let_def by (simp_all only: if_True if_False simp_thms)

lemma split_ws_words: "w \<in> set (split_ws s) \<Longrightarrow> list_all (\<lambda>c. \<not> is_space c) w"
proof (induction s rule: split_ws.induct)
  case (1 s)
  have word: "list_all (\<lambda>c. \<not> is_space c) (takeWhile (\<lambda>c. \<not> is_space c) s)"
    by (auto simp: list_all_iff dest: set_takeWhileD)
  show ?case
  proof (cases "dropWhile (\<lambda>c. \<not> is_space c) s = []")
    case True
    then show ?thesis using 1(2) word by (simp add: split_ws_cases(1))
  next
    case False
    then have "w = takeWhile (\<lambda>c. \<not> is_space c) s \<or>
        w \<in> set (split_ws (dropWhile is_space (dropWhile (\<lambda>c. \<not> is_space c) s)))"
      using 1(2) by (simp add: split_ws_cases(2))
    then show ?thesis using 1(1) [OF refl refl False] word by blast
  qed
qed

lemma split_ws_word: "list_all (\<lambda>c. \<not> is_space c) w \<Longrightarrow> split_ws w = [w]"
proof -
  assume "list_all (\<lambda>c. \<not> is_space c) w"
  then have "takeWhile (\<lambda>c. \<not> is_space c) w = w" "dropWhile (\<lambda>c. \<not> is_space c) w = []"
    by (auto simp: list_all_iff takeWhile_eq_all_conv)
  then show ?thesis by (simp add: split_ws_cases(1))
qed

lemma split_ws_append:
  assumes "list_all (\<lambda>c. \<not> is_space c) w" "is_space c" "s = [] \<or> \<not> is_space (hd s)"
  shows "split_ws (w @ c # s) = w # split_ws s"
proof -
  have "takeWhile (\<lambda>c. \<not> is_space c) (w @ c # s) = w" "dropWhile (\<lambda>c. \<not> is_space c) (w @ c # s) = c # s"
    using assms(1,2) by (auto simp: list_all_iff takeWhile_append dropWhile_append)
  moreover have "dropWhile is_space (c # s) = s" using assms(2,3) by (cases s) auto
  ultimately show ?thesis by (simp add: split_ws_cases(2))
qed

lemma split_ws_join:
  assumes "\<And>w. w \<in> set ws \<Longrightarrow> w \<noteq> [] \<and> list_all (\<lambda>c. \<not> is_space c) w" "ws \<noteq> []"
  shows "split_ws (join [0x20] ws) = ws"
  using assms
proof (induction ws rule: induct_list012)
  case (3 w x xs)
  have sp: "is_space 0x20" by (simp add: is_space_def is_line_terminator_def)
  have w: "list_all (\<lambda>c. \<not> is_space c) w" using "3.prems" by simp
  have "x \<noteq> []" "list_all (\<lambda>c. \<not> is_space c) x" using "3.prems"(1) [of x] by auto
  then have "join [0x20] (x # xs) \<noteq> []" "\<not> is_space (hd (join [0x20] (x # xs)))"
    by (cases x; cases xs; simp)+
  then have "split_ws (w @ 0x20 # join [0x20] (x # xs)) = w # split_ws (join [0x20] (x # xs))"
    by (intro split_ws_append [OF w sp]) simp
  with 3 show ?case by simp
qed (simp_all add: split_ws_word)

lemma arg_list_join:
  assumes "\<And>w. w \<in> set ws \<Longrightarrow> w \<noteq> [] \<and> list_all (\<lambda>c. \<not> is_space c) w"
  shows "arg_list (join [0x20] ws) = ws"
proof (cases "ws = []")
  case True
  then show ?thesis by (simp add: arg_list_def split_ws_word)
next
  case False
  have "map trim ws = ws" using assms by (simp add: map_idI no_space_trim)
  moreover have "filter (\<lambda>w. w \<noteq> []) ws = ws" using assms by (auto simp: filter_id_conv)
  ultimately show ?thesis using split_ws_join [OF assms False] by (simp add: arg_list_def)
qed

lemma arg_list_words: "w \<in> set (arg_list s) \<Longrightarrow> w \<noteq> [] \<and> list_all (\<lambda>c. \<not> is_space c) w"
  using split_ws_words no_space_trim by (auto simp: arg_list_def)

lemma map_of_env_put:
  "k \<noteq> js ''__proto__'' \<Longrightarrow> map_of (env_put k v m) k' = (if k' = k then Some v else map_of m k')"
  by (induction k v m rule: env_put.induct) auto

lemma env_put_proto: "js ''__proto__'' \<notin> fst ` set m \<Longrightarrow> env_put (js ''__proto__'') v m = m"
  by (induction "js ''__proto__''" v m rule: env_put.induct) auto

lemma keys_env_put: "js ''__proto__'' \<notin> fst ` set m \<Longrightarrow> js ''__proto__'' \<notin> fst ` set (env_put k v m)"
  by (induction k v m rule: env_put.induct) auto

lemma env_map_snoc:
  "env_map (rows @ [r]) =
     (if trim (er_key r) \<noteq> [] then env_put (trim (er_key r)) (er_value r) (env_map rows) else env_map rows)"
  by (simp add: env_map_def)

lemma env_map_no_proto: "js ''__proto__'' \<notin> fst ` set (env_map rows)"
proof (induction rows rule: rev_induct)
  case (snoc r rows)
  then show ?case by (simp add: env_map_snoc keys_env_put)
qed (simp add: env_map_def)

lemma env_map_lookup:
  assumes "k \<noteq> []" "k \<noteq> js ''__proto__''"
  shows "map_of (env_map rows) k = map_option er_value (find_first (\<lambda>r. trim (er_key r) = k) (rev rows))"
proof (induction rows rule: rev_induct)
  case (snoc r rows)
  then show ?case
    using assms env_put_proto [OF env_map_no_proto, of "er_value r" rows]
    by (cases "trim (er_key r) = js ''__proto__''") (auto simp: env_map_snoc map_of_env_put)
qed (simp add: env_map_def)

lemma field_stringify: "field k (stringify (JObj ps)) = map_option stringify (map_of ps k)"
  by (induction ps) auto

lemma map_of_opt_field [simp]:
  "map_of (opt_field k f v @ ps) k' = (if k' = k \<and> v \<noteq> None then map_option f v else map_of ps k')"
  "map_of (opt_field k f v) k' = (if k' = k then map_option f v else None)"
  by (auto simp: opt_field_def split: option.splits)

lemmas form_simps = form_source_def if_given_def number_given_def megabytes_given_def list_given_def restart_given_def

text \<open>The document the server reads for the source of a submitted form.\<close>

definition sent_source :: "add_form \<Rightarrow> json" where
  "sent_source f = stringify (source_json (form_source f))"

lemma sent_field:
  "field k (sent_source f) =
     (case source_json (form_source f) of JObj ps \<Rightarrow> map_option stringify (map_of ps k) | _ \<Rightarrow> None)"
  by (cases "af_type f") (simp_all add: sent_source_def form_source_def field_stringify del: stringify.simps)

lemma key_names:
  "js ''type'' \<noteq> js ''name''" "js ''name'' \<noteq> js ''cmd''" by simp_all

lemma stringify_numbers:
  "stringify (JNum (Number s)) = (case Number s of Fin x \<Rightarrow> JNum (Fin x) | _ \<Rightarrow> JNull)"
  by (cases "Number s") simp_all

lemma stringify_megabytes:
  "stringify (JNum (scale 1024 (scale 1024 n))) = (case n of Fin x \<Rightarrow> JNum (Fin (x * 1048576)) | _ \<Rightarrow> JNull)"
  by (cases n) simp_all

lemma sent_command:
  assumes "af_type f = TCommand"
  shows "field k (sent_source f) = map_option stringify (map_of
     ([(js ''type'', JStr (js ''command'')), (js ''name'', JStr (trim (af_name f))), (js ''cmd'', JStr (trim (af_cmd f)))]
      @ opt_field (js ''args'') json_strs (list_given (arg_list (af_args f)))
      @ opt_field (js ''cwd'') JStr (if_given (af_cwd f))
      @ opt_field (js ''instances'') JNum (number_given (af_instances f))
      @ opt_field (js ''env'') json_record (list_given (env_map (af_env f)))
      @ opt_field (js ''restart'') JStr (restart_given (af_restart f))
      @ opt_field (js ''max_restarts'') JNum (number_given (af_max_restarts f))
      @ opt_field (js ''kill_timeout'') JStr (if_given (af_kill_timeout f))
      @ opt_field (js ''max_memory_restart'') JNum (megabytes_given (af_max_memory f))) k)"
  using assms by (simp only: sent_field form_source_def source_type.case source_json.simps json.case
      command_source.select_convs)

lemma sent_git:
  assumes "af_type f = TGit"
  shows "field k (sent_source f) = map_option stringify (map_of
     ([(js ''type'', JStr (js ''git'')), (js ''name'', JStr (trim (af_name f))), (js ''cmd'', JStr (trim (af_cmd f))),
       (js ''repo'', JStr (trim (af_repo f)))]
      @ opt_field (js ''args'') json_strs (list_given (arg_list (af_args f)))
      @ opt_field (js ''instances'') JNum (number_given (af_instances f))
      @ opt_field (js ''env'') json_record (list_given (env_map (af_env f)))
      @ opt_field (js ''restart'') JStr (restart_given (af_restart f))
      @ opt_field (js ''ref'') JStr (if_given (af_ref f))
      @ opt_field (js ''build'') JStr (if_given (af_build f))
      @ opt_field (js ''subdir'') JStr (if_given (af_subdir f))
      @ opt_field (js ''credential'') JStr (if af_credential f \<noteq> [] then Some (af_credential f) else None)
      @ opt_field (js ''max_memory_restart'') JNum (megabytes_given (af_max_memory f))) k)"
  using assms by (simp only: sent_field form_source_def source_type.case source_json.simps json.case
      git_source.select_convs)

lemma sent_values:
  "field (js ''type'') (sent_source f) = Some (JStr (case af_type f of TCommand \<Rightarrow> js ''command'' | TGit \<Rightarrow> js ''git''))"
  "field (js ''name'') (sent_source f) = Some (JStr (trim (af_name f)))"
  "field (js ''cmd'') (sent_source f) = Some (JStr (trim (af_cmd f)))"
  by (cases "af_type f"; simp add: sent_command sent_git del: map_of_append)+

lemma sent_args:
  "field (js ''args'') (sent_source f) =
     (if arg_list (af_args f) = [] then None else Some (JArr (map JStr (arg_list (af_args f)))))"
  by (cases "af_type f") (simp_all add: sent_command sent_git list_given_def json_strs_def comp_def del: map_of_append)

lemma sent_instances:
  "field (js ''instances'') (sent_source f) =
     (if trim (af_instances f) = [] then None
      else Some (case Number (af_instances f) of Fin x \<Rightarrow> JNum (Fin x) | _ \<Rightarrow> JNull))"
  by (cases "af_type f") (simp_all add: sent_command sent_git number_given_def stringify_numbers if_given_def del: map_of_append)

lemma sent_memory:
  "field (js ''max_memory_restart'') (sent_source f) =
     (if trim (af_max_memory f) = [] then None
      else Some (case Number (af_max_memory f) of Fin x \<Rightarrow> JNum (Fin (x * 1048576)) | _ \<Rightarrow> JNull))"
  by (cases "af_type f") (simp_all add: sent_command sent_git megabytes_given_def stringify_megabytes del: map_of_append)

lemma sent_restart:
  "field (js ''restart'') (sent_source f) =
     (if af_restart f = js ''always'' then None else Some (JStr (af_restart f)))"
  by (cases "af_type f") (simp_all add: sent_command sent_git restart_given_def del: map_of_append)

lemma sent_env:
  "field (js ''env'') (sent_source f) =
     (if env_map (af_env f) = [] then None else Some (json_record (env_map (af_env f))))"
  by (cases "af_type f")
    (simp_all add: sent_command sent_git list_given_def json_record_def comp_def case_prod_unfold del: map_of_append)

lemma sent_foreign:
  "af_type f = TCommand \<Longrightarrow> field (js ''repo'') (sent_source f) = None \<and> field (js ''ref'') (sent_source f) = None \<and>
     field (js ''build'') (sent_source f) = None \<and> field (js ''subdir'') (sent_source f) = None \<and>
     field (js ''credential'') (sent_source f) = None"
  "af_type f = TGit \<Longrightarrow> field (js ''cwd'') (sent_source f) = None \<and> field (js ''max_restarts'') (sent_source f) = None \<and>
     field (js ''kill_timeout'') (sent_source f) = None"
  "af_type f = TGit \<Longrightarrow> field (js ''repo'') (sent_source f) = Some (JStr (trim (af_repo f)))"
  by (simp_all add: sent_command sent_git del: map_of_append)

lemmas sent_fields = sent_values sent_args sent_instances sent_memory sent_restart sent_env

section \<open>Properties\<close>


definition sample_form :: add_form where
  "sample_form = (add_mount [])
     \<lparr>af_agent := js ''dev'', af_name := js '' web '', af_cmd := js ''node'',
      af_args := js ''server.js --port 3000'', af_instances := js ''four'', af_repo := js ''https://x/y''\<rparr>"

lemma trim_web: "trim (js '' web '') = js ''web''"
  by (simp add: trim_def js_def unit_of_def is_space_def is_line_terminator_def)

lemma sample_submit: "canSubmit sample_form"
  by (simp add: canSubmit_def sample_form_def add_mount_def trim_web)
    (simp add: trim_def js_def unit_of_def is_space_def is_line_terminator_def)




end
