(* ===== verification/Credentials.thy ===== *)
theory Credentials imports Api ControlActions Widgets Format begin

text \<open>
  The credentials page (web/src/Credentials.tsx): the stored list, the form for a token or a
  generated key, and the two-click deletion. Handlers are split at their awaits: the refresh
  of the list that a handler starts is kept as a continuation until its response arrives. The
  two-click deletion is an instance of \<open>confirm_fire\<close>.
\<close>

section \<open>State\<close>

datatype cred_kind = HttpsToken | SshKey

record cred_page =
  cp_creds :: "credential_meta list"
  cp_loading :: bool
  cp_kind :: cred_kind
  cp_name :: jstr
  cp_username :: jstr
  cp_token :: jstr
  cp_busy :: bool
  cp_error :: jstr
  cp_target :: "jstr option"
  cp_new_key :: jstr
  cp_status :: use_status
  cp_deletes :: "jstr list"
  cp_refreshes :: "jstr option list"

text \<open>
  \<open>cp_deletes\<close> are the names handed to \<open>deleteCredential\<close> so far, and \<open>cp_refreshes\<close> the refreshes
  in flight, each with the success message its caller shows next, if any. The mount effect
  starts the first one.
\<close>

definition cred_mount :: cred_page where
  "cred_mount =
     \<lparr>cp_creds = [], cp_loading = True, cp_kind = HttpsToken, cp_name = [], cp_username = [], cp_token = [],
      cp_busy = False, cp_error = [], cp_target = None, cp_new_key = [], cp_status = status_mount,
      cp_deletes = [], cp_refreshes = [None]\<rparr>"

definition cred_canSubmit :: "cred_page \<Rightarrow> bool" where
  "cred_canSubmit c =
     (if cp_kind c = SshKey then trim (cp_name c) \<noteq> [] \<and> \<not> cp_busy c
      else trim (cp_name c) \<noteq> [] \<and> trim (cp_username c) \<noteq> [] \<and> cp_token c \<noteq> [] \<and> \<not> cp_busy c)"

definition cred_disabledReason :: "cred_page \<Rightarrow> jstr option" where
  "cred_disabledReason c =
     (if cp_busy c then Some (js ''saving'' @ ellipsis)
      else if trim (cp_name c) = [] then Some (js ''enter a name'')
      else if cp_kind c = HttpsToken \<and> trim (cp_username c) = [] then Some (js ''enter a username'')
      else if cp_kind c = HttpsToken \<and> cp_token c = [] then Some (js ''enter a token'')
      else None)"

section \<open>Loading\<close>

text \<open>
  The answer to the \<open>i\<close>-th refresh in flight: when \<open>listCredentials\<close> throws, its caller ends
  with it; otherwise the list is stored and the caller goes on.
\<close>

definition refresh_answered :: "nat \<Rightarrow> credential_meta list fetched \<Rightarrow> cred_page \<Rightarrow> cred_page" where
  "refresh_answered i f c =
     (if i < length (cp_refreshes c)
      then let d = c\<lparr>cp_refreshes := take i (cp_refreshes c) @ drop (Suc i) (cp_refreshes c)\<rparr>
           in case reply f listCredentials_res of
                Inl _ \<Rightarrow> d
              | Inr l \<Rightarrow>
                  let e = d\<lparr>cp_creds := l, cp_loading := False\<rparr>
                  in (case cp_refreshes c ! i of None \<Rightarrow> e
                      | Some m \<Rightarrow> e\<lparr>cp_status := status_show Success m (cp_status e)\<rparr>)
      else c)"

section \<open>Creating\<close>

definition change_kind :: "cred_kind \<Rightarrow> cred_page \<Rightarrow> cred_page" where
  "change_kind k c = c\<lparr>cp_kind := k, cp_new_key := [], cp_error := []\<rparr>"

definition create_request :: "cred_page \<Rightarrow> request" where
  "create_request c =
     (case cp_kind c of
        SshKey \<Rightarrow> createSSHCredential_req (trim (cp_name c))
      | HttpsToken \<Rightarrow> createCredential_req (trim (cp_name c)) (trim (cp_username c)) (cp_token c))"

definition handleCreate :: "cred_page \<Rightarrow> cred_page \<times> request option" where
  "handleCreate c =
     (if \<not> cred_canSubmit c then (c, None)
      else (c\<lparr>cp_busy := True, cp_error := [], cp_new_key := []\<rparr>, Some (create_request c)))"

text \<open>
  The response of the creation; for a success the refresh that follows, with the message that
  is shown after it.
\<close>

definition ssh_created :: "jstr option fetched \<Rightarrow> cred_page \<Rightarrow> cred_page" where
  "ssh_created f c =
     (case reply f createSSHCredential_res of
        Inl _ \<Rightarrow> c
      | Inr res \<Rightarrow>
          let c' = c\<lparr>cp_busy := False\<rparr>
          in if ssh_ok res
             then c'\<lparr>cp_new_key := nullish (ssh_public_key res) [], cp_name := [],
                     cp_refreshes := cp_refreshes c' @ [Some (js ''key generated'')]\<rparr>
             else c'\<lparr>cp_status := status_show Failure (or_else (ssh_error res) (js ''error'')) (cp_status c')\<rparr>)"

definition token_created :: "unit fetched \<Rightarrow> cred_page \<Rightarrow> cred_page" where
  "token_created f c =
     (case reply f createCredential_res of
        Inl _ \<Rightarrow> c
      | Inr res \<Rightarrow>
          let c' = c\<lparr>cp_busy := False\<rparr>
          in if cr_ok res
             then c'\<lparr>cp_name := [], cp_username := [], cp_token := [],
                     cp_refreshes := cp_refreshes c' @ [Some (js ''credential added'')]\<rparr>
             else c'\<lparr>cp_status := status_show Failure (or_else (cr_error res) (js ''error'')) (cp_status c')\<rparr>)"

section \<open>Deleting\<close>

definition handleDelete :: "jstr \<Rightarrow> cred_page \<Rightarrow> cred_page" where
  "handleDelete n c =
     (if cp_target c \<noteq> Some n then c\<lparr>cp_target := Some n\<rparr>
      else c\<lparr>cp_target := None, cp_deletes := cp_deletes c @ [n]\<rparr>)"

definition deleted :: "jstr \<Rightarrow> unit fetched \<Rightarrow> cred_page \<Rightarrow> cred_page" where
  "deleted n f c =
     (case await_fetch (deleteCredential_req n) (\<lambda>_. f) deleteCredential_res of
        Inl _ \<Rightarrow> c
      | Inr res \<Rightarrow> if \<not> cr_ok res then c\<lparr>cp_error := or_else (cr_error res) (js ''error'')\<rparr>
                  else c\<lparr>cp_refreshes := cp_refreshes c @ [None]\<rparr>)"

section \<open>Events\<close>

text \<open>
  A row shows a delete button, or, when it is the target, a confirm and a cancel button. The
  click events name the row of the button.
\<close>

datatype cred_event =
    Listed nat "credential_meta list fetched"
  | ChangeKind cred_kind | TypeName jstr | TypeUsername jstr | TypeToken jstr
  | Create | SshCreated "jstr option fetched" | TokenCreated "unit fetched"
  | ClickDeleteCred jstr | ClickConfirmCred jstr | ClickCancelCred jstr
  | Deleted jstr "unit fetched"

fun cred_step :: "cred_page \<Rightarrow> cred_event \<Rightarrow> cred_page" where
  "cred_step c (Listed i f) = refresh_answered i f c"
| "cred_step c (ChangeKind k) = change_kind k c"
| "cred_step c (TypeName s) = c\<lparr>cp_name := s\<rparr>"
| "cred_step c (TypeUsername s) = c\<lparr>cp_username := s\<rparr>"
| "cred_step c (TypeToken s) = c\<lparr>cp_token := s\<rparr>"
| "cred_step c Create = fst (handleCreate c)"
| "cred_step c (SshCreated f) = ssh_created f c"
| "cred_step c (TokenCreated f) = token_created f c"
| "cred_step c (ClickDeleteCred n) = (if cp_target c \<noteq> Some n then c\<lparr>cp_target := Some n\<rparr> else c)"
| "cred_step c (ClickConfirmCred n) = (if cp_target c = Some n then handleDelete n c else c)"
| "cred_step c (ClickCancelCred n) = (if cp_target c = Some n then c\<lparr>cp_target := None\<rparr> else c)"
| "cred_step c (Deleted n f) = deleted n f c"

text \<open>What a row shows for a type.\<close>

definition cred_type_text :: "credential_meta \<Rightarrow> jstr" where
  "cred_type_text m =
     (if cm_type m = js ''ssh-key'' then js ''ssh-key''
      else js ''https '' @ middle_dot @ js '' '' @ cm_username m)"

section \<open>What is shown\<close>

record cred_row =
  cw_name :: jstr
  cw_class :: jstr
  cw_type :: jstr
  cw_added :: jstr
  cw_confirming :: bool
  cw_key :: "jstr option"

text \<open>\<open>date\<close> is the browser's short date of a time in milliseconds.\<close>

definition cred_row_of :: "(int \<Rightarrow> jstr) \<Rightarrow> cred_page \<Rightarrow> credential_meta \<Rightarrow> cred_row" where
  "cred_row_of date c m =
     \<lparr>cw_name = cm_name m,
      cw_class = js ''v '' @ (if cm_type m = js ''ssh-key'' then js ''indigo'' else js ''sky''),
      cw_type = cred_type_text m, cw_added = formatDateShort date (cm_created_at m), cw_confirming = (cp_target c = Some (cm_name m)),
      cw_key = (if cm_type m = js ''ssh-key'' \<and> nullish (cm_public_key m) [] \<noteq> [] then cm_public_key m else None)\<rparr>"

datatype cred_body = CredsLoading | CredsNone | CredsRows "cred_row list"

definition cred_body_of :: "(int \<Rightarrow> jstr) \<Rightarrow> cred_page \<Rightarrow> cred_body" where
  "cred_body_of date c =
     (if cp_loading c then CredsLoading else if cp_creds c = [] then CredsNone
      else CredsRows (map (cred_row_of date c) (cp_creds c)))"

definition cred_count :: "cred_page \<Rightarrow> jstr option" where
  "cred_count c = (if cp_loading c then None else Some (dec_nat (length (cp_creds c)) @ js '' credentials''))"

definition cred_hint :: "cred_kind \<Rightarrow> jstr" where
  "cred_hint k =
     (case k of
        SshKey \<Rightarrow> js ''generates an ed25519 key pair '' @ em_dash @ js '' add the public key as a deploy key on your repo''
      | HttpsToken \<Rightarrow> js ''stores your personal access token for HTTPS git operations'')"

definition cred_fields :: "cred_kind \<Rightarrow> (jstr \<times> jstr) list" where
  "cred_fields k =
     (js ''name'', js ''my-github'') #
     (if k = HttpsToken then [(js ''username'', js ''github-user''), (js ''token'', js ''ghp_'' @ ellipsis)] else [])"

definition cred_submit_label :: "cred_page \<Rightarrow> jstr" where
  "cred_submit_label c =
     (if cp_busy c then js ''saving'' @ ellipsis
      else case cp_kind c of SshKey \<Rightarrow> js ''generate key'' | HttpsToken \<Rightarrow> js ''add credential'')"

text \<open>Credentials have distinct names, so at most one row asks for a confirmation.\<close>

lemma cred_one_confirming:
  assumes "distinct (map cm_name (cp_creds c))" "cred_body_of date c = CredsRows rows"
  shows "length (filter cw_confirming rows) \<le> 1"
proof -
  have "length (filter (\<lambda>m. cp_target c = Some (cm_name m)) ms) \<le> 1" if "distinct (map cm_name ms)" for ms
    using that
  proof (induction ms)
    case (Cons m ms)
    then have "filter (\<lambda>x. cp_target c = Some (cm_name x)) ms = []" if "cp_target c = Some (cm_name m)"
      using that by (auto simp: filter_empty_conv image_iff)
    with Cons show ?case by auto
  qed simp
  then show ?thesis
    using assms by (auto simp: cred_body_of_def cred_row_of_def filter_map comp_def split: if_splits)
qed

section \<open>Lemmas\<close>

lemma step_keeps:
  "(\<And>n. e \<noteq> ClickDeleteCred n) \<Longrightarrow> (\<And>n. e \<noteq> ClickConfirmCred n) \<Longrightarrow> (\<And>n. e \<noteq> ClickCancelCred n) \<Longrightarrow>
   cp_target (cred_step c e) = cp_target c \<and> cp_deletes (cred_step c e) = cp_deletes c"
  by (cases e) (auto simp: refresh_answered_def change_kind_def handleCreate_def ssh_created_def
      token_created_def deleted_def Let_def split: sum.splits option.splits)

lemma canSubmit_cred_reason: "cred_canSubmit c \<longleftrightarrow> cred_disabledReason c = None"
  by (cases "cp_kind c") (auto simp: cred_canSubmit_def cred_disabledReason_def)

text \<open>
  The machine of one credential \<open>n\<close>: its deletion is pending when it is the target, and it is
  called off by its cancel button or by a click on the delete button of another row.
\<close>

definition calls_off :: "jstr \<Rightarrow> cred_event \<Rightarrow> bool" where
  "calls_off n e \<longleftrightarrow> e = ClickCancelCred n \<or> (\<exists>m. e = ClickDeleteCred m \<and> m \<noteq> n)"

definition cred_pending :: "jstr \<Rightarrow> cred_page \<Rightarrow> jstr option" where
  "cred_pending n c = (if cp_target c = Some n then Some n else None)"

definition cred_asks :: "jstr \<Rightarrow> cred_event \<Rightarrow> jstr option" where
  "cred_asks n e = (if e = ClickDeleteCred n then Some n else None)"

interpretation creds: confirm_fire "\<lambda>_. True" cred_step "cred_pending n" "\<lambda>c. filter (\<lambda>m. m = n) (cp_deletes c)"
    "cred_asks n" "\<lambda>e. e = ClickConfirmCred n" "calls_off n" "\<lambda>c e. None"
  for n
proof (unfold_locales, goal_cases)
  case (2 s e a)
  then show ?case
    using step_keeps [of e s]
    by (cases e) (auto simp: handleDelete_def calls_off_def cred_pending_def cred_asks_def split: if_splits)
next
  case (3 s e)
  then show ?case
    using step_keeps [of e s] by (cases e) (auto simp: handleDelete_def cred_pending_def split: if_splits)
qed simp



text \<open>What ends the wait of the form.\<close>

fun creation_answered :: "cred_event \<Rightarrow> bool" where
  "creation_answered (SshCreated _) = True"
| "creation_answered (TokenCreated _) = True"
| "creation_answered _ = False"

lemma busy_kept: "cp_busy c \<Longrightarrow> \<not> creation_answered e \<Longrightarrow> cp_busy (cred_step c e)"
  by (cases e) (simp_all add: refresh_answered_def change_kind_def handleCreate_def handleDelete_def deleted_def
      Let_def split: sum.split option.split)

lemma busy_run: "cp_busy c \<Longrightarrow> list_all (\<lambda>e. \<not> creation_answered e) es \<Longrightarrow> cp_busy (foldl cred_step c es)"
  by (induction es arbitrary: c) (simp_all add: busy_kept)

lemma busy_no_create: "cp_busy c \<Longrightarrow> handleCreate c = (c, None)"
  by (simp add: handleCreate_def cred_canSubmit_def)

text \<open>What the form of the credentials page sends: a POST with the trimmed name, which is
  not empty, and for a token the trimmed user name and the token as typed; a key request
  carries neither, also when they were typed before the type was switched. From the click to
  the response nothing more is sent, whatever else happens, and the button says why.\<close>

lemma creds_submitted:
  assumes "handleCreate c = (d, Some q)"
  shows "req_method q = POST \<and> req_url q = js ''/api/credentials'' \<and> trim (cp_name c) \<noteq> [] \<and>
    (\<exists>b. req_body q = Some b \<and> field (js ''name'') b = Some (JStr (trim (cp_name c))) \<and>
       (case cp_kind c of
          HttpsToken \<Rightarrow> field (js ''username'') b = Some (JStr (trim (cp_username c))) \<and> trim (cp_username c) \<noteq> [] \<and>
            field (js ''token'') b = Some (JStr (cp_token c)) \<and> cp_token c \<noteq> []
        | SshKey \<Rightarrow> field (js ''type'') b = Some (JStr (js ''ssh-key'')) \<and>
            field (js ''username'') b = None \<and> field (js ''token'') b = None)) \<and>
    (\<forall>es. list_all (\<lambda>e. \<not> creation_answered e) es \<longrightarrow>
       snd (handleCreate (foldl cred_step d es)) = None \<and>
       cred_disabledReason (foldl cred_step d es) = Some (js ''saving'' @ ellipsis))"
proof -
  have ok: "cred_canSubmit c" and d: "d = c\<lparr>cp_busy := True, cp_error := [], cp_new_key := []\<rparr>"
    and q: "q = create_request c"
    using assms by (auto simp: handleCreate_def split: if_splits)
  have "cp_busy d" by (simp add: d)
  then have "snd (handleCreate (foldl cred_step d es)) = None \<and>
      cred_disabledReason (foldl cred_step d es) = Some (js ''saving'' @ ellipsis)"
    if "list_all (\<lambda>e. \<not> creation_answered e) es" for es
    using busy_run [OF _ that, of d] by (simp add: busy_no_create cred_disabledReason_def)
  then show ?thesis
    using ok by (cases "cp_kind c") (simp_all add: q create_request_def createCredential_req_def
        createSSHCredential_req_def send_def cred_canSubmit_def)
qed

end
