(* ===== verification/Charts.thy ===== *)
theory Charts imports ApiTypes Format begin

text \<open>
  The three charts: Sparkline.tsx, components/BarSparkline.tsx and MetricChart.tsx. A chart is
  modelled by the coordinates it computes, as exact rationals, and the texts built from them.
  \<open>Math.max\<close> and \<open>Math.min\<close> over a list that is not empty are \<open>Max\<close> and \<open>Min\<close> of its set.
\<close>

section \<open>Sparkline\<close>

definition point_text :: "rat \<times> rat \<Rightarrow> jstr" where
  "point_text p = toFixed 1 (fst p) @ js '','' @ toFixed 1 (snd p)"

definition or_one :: "rat \<Rightarrow> rat" where
  "or_one x = (if x = 0 then 1 else x)"

definition spark_coords :: "rat \<Rightarrow> rat \<Rightarrow> rat list \<Rightarrow> (rat \<times> rat) list" where
  "spark_coords width height points =
     (let lo = Min (set points); hi = Max (set points); span = or_one (hi - lo);
          stepX = (if length points > 1 then width / of_nat (length points - 1) else 0)
      in map (\<lambda>(i, v). (of_nat i * stepX, height - ((v - lo) / span) * height)) (enumerate 0 points))"

definition Sparkline :: "rat \<Rightarrow> rat \<Rightarrow> rat list \<Rightarrow> jstr option" where
  "Sparkline width height points =
     (if points = [] then None else Some (join [0x20] (map point_text (spark_coords width height points))))"

section \<open>BarSparkline\<close>

definition VB_W :: rat where "VB_W = 120"
definition VB_H :: rat where "VB_H = 22"

record bar =
  bar_x :: rat
  bar_y :: rat
  bar_w :: rat
  bar_h :: int

definition BarSparkline :: "rat list \<Rightarrow> bar list option" where
  "BarSparkline points =
     (let maxVal = (if length points > 0 then Max (set points) else 0)
      in if length points = 0 \<or> maxVal = 0 then None
         else let step = VB_W / of_nat (length points); barW = max 1 (step - 1)
              in Some (map (\<lambda>(i, v).
                   let barH = Math_round ((v / maxVal) * VB_H)
                   in \<lparr>bar_x = of_nat i * step, bar_y = VB_H - of_int barH, bar_w = barW, bar_h = barH\<rparr>)
                 (enumerate 0 points)))"

section \<open>MetricChart\<close>

definition chart_W :: rat where "chart_W = 480"
definition chart_H :: rat where "chart_H = 140"
definition PAD :: rat where "PAD = 28"

definition avg_of :: "metric \<Rightarrow> bucket \<Rightarrow> rat" where
  "avg_of m b = (case m of Cpu \<Rightarrow> cpu_avg b | Mem \<Rightarrow> mem_avg b)"

definition max_of :: "metric \<Rightarrow> bucket \<Rightarrow> rat" where
  "max_of m b = (case m of Cpu \<Rightarrow> cpu_max b | Mem \<Rightarrow> mem_max b)"

definition chart_hi :: "metric \<Rightarrow> bucket list \<Rightarrow> rat" where
  "chart_hi m buckets = or_one (Max (set (map (max_of m) buckets)))"

definition chart_x :: "nat \<Rightarrow> nat \<Rightarrow> rat" where
  "chart_x n i = PAD + (if n > 1 then of_nat i * (chart_W - 2 * PAD) / of_nat (n - 1) else 0)"

definition chart_y :: "rat \<Rightarrow> rat \<Rightarrow> rat" where
  "chart_y hi v = chart_H - PAD - ((v - 0) / or_one (hi - 0)) * (chart_H - 2 * PAD)"

definition chart_line :: "rat \<Rightarrow> rat list \<Rightarrow> (rat \<times> rat) list" where
  "chart_line hi series = map (\<lambda>(i, v). (chart_x (length series) i, chart_y hi v)) (enumerate 0 series)"

definition areaPoints :: "rat \<Rightarrow> rat list \<Rightarrow> (rat \<times> rat) list" where
  "areaPoints hi series =
     chart_line hi series @
     [(chart_x (length series) (length series - 1), chart_y hi 0), (chart_x (length series) 0, chart_y hi 0)]"

text \<open>
  The bucket under the pointer: \<open>clientX\<close> and the left edge and width of the element, which is
  not empty when a mouse moves over it.
\<close>

definition chart_onMove :: "nat \<Rightarrow> rat \<Rightarrow> rat \<Rightarrow> rat \<Rightarrow> nat" where
  "chart_onMove n clientX left_edge width =
     (let frac = (clientX - left_edge) / width; l = PAD / chart_W; r = (chart_W - PAD) / chart_W;
          dataFrac = max 0 (min 1 ((frac - l) / (r - l)))
      in if n > 1 then nat (Math_round (dataFrac * of_nat (n - 1))) else 0)"

text \<open>
  What is drawn for a hover state: nothing without buckets; otherwise the filled area, the peak
  and average lines, the axis labels, the cross hair and, when the hovered bucket exists, its
  average and peak.
\<close>

record chart =
  ch_area :: jstr
  ch_max :: jstr
  ch_avg :: jstr
  ch_labels :: "jstr \<times> jstr"
  ch_cross :: "rat option"
  ch_readout :: "(jstr \<times> jstr) option"

definition line_text :: "(rat \<times> rat) list \<Rightarrow> jstr" where
  "line_text ps = join [0x20] (map point_text ps)"

definition MetricChart :: "bucket list \<Rightarrow> metric \<Rightarrow> nat option \<Rightarrow> chart option" where
  "MetricChart buckets m hover =
     (if buckets = [] then None
      else let avg = map (avg_of m) buckets; mx = map (max_of m) buckets; hi = chart_hi m buckets
           in Some \<lparr>ch_area = line_text (areaPoints hi avg), ch_max = line_text (chart_line hi mx),
                ch_avg = line_text (chart_line hi avg), ch_labels = (fmt m hi, fmt m 0),
                ch_cross = map_option (chart_x (length buckets)) hover,
                ch_readout = (case hover of None \<Rightarrow> None | Some h \<Rightarrow>
                  if h < length buckets
                  then Some (fmtPrecise m (avg_of m (buckets ! h)), fmtPrecise m (max_of m (buckets ! h)))
                  else None)\<rparr>)"

section \<open>Lemmas\<close>

lemma or_one_pos: "0 \<le> x \<Longrightarrow> 0 < or_one x"
  by (simp add: or_one_def)

text \<open>The fraction of the way between two bounds.\<close>

lemma frac_bounds:
  fixes v :: rat
  assumes "lo \<le> v" "v \<le> hi"
  shows "0 \<le> (v - lo) / or_one (hi - lo)" "(v - lo) / or_one (hi - lo) \<le> 1"
  using assms by (auto simp: or_one_def divide_simps)

lemma scaled_bounds:
  fixes f :: rat
  assumes "0 \<le> f" "f \<le> 1" "0 \<le> h"
  shows "0 \<le> h - f * h" "h - f * h \<le> h"
  using assms mult_right_mono [of f 1 h] by auto

lemma chart_x_range: "i < n \<Longrightarrow> PAD \<le> chart_x n i \<and> chart_x n i \<le> chart_W - PAD"
proof -
  assume "i < n"
  then have "of_nat i * (424 :: rat) / of_nat (n - 1) \<le> 424" if "n > 1"
    using that by (simp add: divide_le_eq)
  then show ?thesis by (auto simp: chart_x_def PAD_def chart_W_def)
qed

lemma chart_y_range: "0 \<le> v \<Longrightarrow> v \<le> hi \<Longrightarrow> PAD \<le> chart_y hi v \<and> chart_y hi v \<le> chart_H - PAD"
  using frac_bounds [of 0 v hi] scaled_bounds [of "(v - 0) / or_one (hi - 0)" 84]
  by (auto simp: chart_y_def PAD_def chart_H_def)

text \<open>A list of points in a rectangle.\<close>

definition inside :: "rat \<Rightarrow> rat \<Rightarrow> rat \<Rightarrow> rat \<Rightarrow> (rat \<times> rat) list \<Rightarrow> bool" where
  "inside x0 x1 y0 y1 ps \<longleftrightarrow> list_all (\<lambda>(x, y). x0 \<le> x \<and> x \<le> x1 \<and> y0 \<le> y \<and> y \<le> y1) ps"

lemma inside_append [simp]: "inside x0 x1 y0 y1 (ps @ qs) \<longleftrightarrow> inside x0 x1 y0 y1 ps \<and> inside x0 x1 y0 y1 qs"
  by (simp add: inside_def)

lemma inside_Cons: "inside x0 x1 y0 y1 ((x, y) # ps) \<longleftrightarrow> (x0 \<le> x \<and> x \<le> x1 \<and> y0 \<le> y \<and> y \<le> y1) \<and> inside x0 x1 y0 y1 ps"
  by (simp add: inside_def)

lemma inside_map_enumerate:
  "(\<And>i. i < length vs \<Longrightarrow> x0 \<le> f i \<and> f i \<le> x1 \<and> y0 \<le> g (vs ! i) \<and> g (vs ! i) \<le> y1) \<Longrightarrow>
   inside x0 x1 y0 y1 (map (\<lambda>(i, v). (f i, g v)) (enumerate 0 vs))"
  by (auto simp: inside_def list_all_iff in_set_enumerate_eq)

lemma step_range:
  fixes w :: rat
  assumes "i < n" "0 \<le> w"
  shows "0 \<le> of_nat i * (if n > 1 then w / of_nat (n - 1) else 0)"
    "of_nat i * (if n > 1 then w / of_nat (n - 1) else 0) \<le> w"
proof -
  have "of_nat i * w \<le> of_nat (n - 1) * w" using assms by (intro mult_right_mono) auto
  then show "of_nat i * (if n > 1 then w / of_nat (n - 1) else 0) \<le> w"
    using assms by (auto simp: field_simps)
qed (use assms in auto)

lemma spark_inside:
  assumes "0 \<le> w" "0 \<le> h"
  shows "inside 0 w 0 h (spark_coords w h points)"
  unfolding spark_coords_def Let_def
proof (rule inside_map_enumerate)
  fix i assume i: "i < length points"
  then have "points ! i \<in> set points" by simp
  then have "Min (set points) \<le> points ! i" "points ! i \<le> Max (set points)" by simp_all
  from frac_bounds [OF this] step_range [OF i assms(1)] scaled_bounds [OF _ _ assms(2)]
  show "0 \<le> of_nat i * (if length points > 1 then w / of_nat (length points - 1) else 0) \<and>
    of_nat i * (if length points > 1 then w / of_nat (length points - 1) else 0) \<le> w \<and>
    0 \<le> h - (points ! i - Min (set points)) / or_one (Max (set points) - Min (set points)) * h \<and>
    h - (points ! i - Min (set points)) / or_one (Max (set points) - Min (set points)) * h \<le> h" by blast
qed

lemma chart_line_inside:
  assumes "list_all (\<lambda>v. 0 \<le> v \<and> v \<le> hi) series"
  shows "inside PAD (chart_W - PAD) PAD (chart_H - PAD) (chart_line hi series)"
  unfolding chart_line_def
  by (rule inside_map_enumerate) (use assms in \<open>simp add: chart_x_range chart_y_range list_all_length\<close>)

lemma area_inside:
  assumes "list_all (\<lambda>v. 0 \<le> v \<and> v \<le> hi) series" "series \<noteq> []" "0 \<le> hi"
  shows "inside PAD (chart_W - PAD) PAD (chart_H - PAD) (areaPoints hi series)"
proof -
  have "0 < length series" "length series - 1 < length series" using assms(2) by auto
  then show ?thesis
    using chart_line_inside [OF assms(1)] chart_x_range chart_y_range [OF order_refl assms(3)]
    by (simp add: areaPoints_def inside_Cons) (simp add: inside_def)
qed

lemma chart_hi_bound: "b \<in> set buckets \<Longrightarrow> 0 \<le> max_of m b \<Longrightarrow> max_of m b \<le> chart_hi m buckets"
proof -
  assume "b \<in> set buckets" "0 \<le> max_of m b"
  then have "max_of m b \<le> Max (set (map (max_of m) buckets))" by simp
  with \<open>0 \<le> max_of m b\<close> show ?thesis by (auto simp: chart_hi_def or_one_def)
qed

text \<open>The bars: each inside the box, none over the next one, and the highest of full height.\<close>

definition bars_fit :: "bar list \<Rightarrow> bool" where
  "bars_fit bs \<longleftrightarrow> list_all (\<lambda>b. 0 \<le> bar_x b \<and> bar_x b + bar_w b \<le> VB_W \<and> 0 \<le> bar_y b \<and>
      bar_y b + of_int (bar_h b) = VB_H \<and> 0 \<le> bar_h b) bs \<and>
    sorted_wrt (\<lambda>a b. bar_x a + bar_w a \<le> bar_x b) bs"

lemma bars_of:
  assumes "BarSparkline points = Some bs"
  shows "length bs = length points"
    "i < length points \<Longrightarrow> bs ! i =
      (let h = Math_round (points ! i / Max (set points) * VB_H)
       in \<lparr>bar_x = of_nat i * (VB_W / of_nat (length points)), bar_y = VB_H - of_int h,
           bar_w = max 1 (VB_W / of_nat (length points) - 1), bar_h = h\<rparr>)"
  using assms by (auto simp: BarSparkline_def Let_def nth_enumerate_eq split: if_splits)

lemma bar_height_range:
  fixes v :: rat
  assumes "0 \<le> v" "v \<le> m" "0 < m"
  shows "0 \<le> Math_round (v / m * VB_H)" "Math_round (v / m * VB_H) \<le> 22"
proof -
  have "0 \<le> v / m * VB_H" "v / m * VB_H \<le> 22"
    using assms by (auto simp: VB_H_def field_simps)
  then show "0 \<le> Math_round (v / m * VB_H)" "Math_round (v / m * VB_H) \<le> 22"
    using Math_round_mono [of 0 "v / m * VB_H"] Math_round_mono [of "v / m * VB_H" 22]
      Math_round_of_int [of 0] Math_round_of_int [of 22] by simp_all
qed

lemma bar_width:
  assumes "0 < n" "n \<le> 120"
  shows "max 1 (VB_W / of_nat n - 1) \<le> VB_W / of_nat n"
proof -
  have "(of_nat n :: rat) \<le> 120" using assms(2) by (metis of_nat_le_iff of_nat_numeral)
  then show ?thesis using assms(1) by (simp add: VB_W_def field_simps)
qed

lemma BarSparkline_fits:
  assumes "BarSparkline points = Some bs" "list_all (\<lambda>v. 0 \<le> v) points" "length points \<le> 120"
  shows "bars_fit bs"
proof -
  let ?n = "length points" and ?m = "Max (set points)"
  let ?step = "VB_W / of_nat (length points)"
  have ne: "points \<noteq> []" "?m \<noteq> 0" using assms(1) by (auto simp: BarSparkline_def Let_def split: if_splits)
  then have "?m \<in> set points" by simp
  then have m: "0 < ?m" using ne(2) assms(2) by (auto simp: list_all_iff order_less_le)
  have w: "max 1 (?step - 1) \<le> ?step" using ne(1) assms(3) by (intro bar_width) auto
  have "0 \<le> ?step" by (simp add: VB_W_def)
  have len: "length bs = ?n" by (rule bars_of(1) [OF assms(1)])
  note b = bars_of(2) [OF assms(1)]
  have x: "of_nat i * ?step + max 1 (?step - 1) \<le> of_nat j * ?step" if "i < j" for i j :: nat
  proof -
    have "of_nat i * ?step + ?step = of_nat (Suc i) * ?step" by (simp only: of_nat_Suc distrib_right mult_1 add.commute)
    also have "\<dots> \<le> of_nat j * ?step" using that \<open>0 \<le> ?step\<close> by (intro mult_right_mono) auto
    finally show ?thesis using w by linarith
  qed
  have "sorted_wrt (\<lambda>a b. bar_x a + bar_w a \<le> bar_x b) bs"
    using x by (simp add: sorted_wrt_iff_nth_less len b Let_def)
  moreover have "0 \<le> bar_x (bs ! i) \<and> bar_x (bs ! i) + bar_w (bs ! i) \<le> VB_W \<and> 0 \<le> bar_y (bs ! i) \<and>
      bar_y (bs ! i) + of_int (bar_h (bs ! i)) = VB_H \<and> 0 \<le> bar_h (bs ! i)" if i: "i < ?n" for i
  proof -
    have v: "0 \<le> points ! i" "points ! i \<le> ?m" using i assms(2) by (auto simp: list_all_length)
    have "of_nat ?n * ?step = VB_W" using ne(1) by simp
    then have "of_nat i * ?step + max 1 (?step - 1) \<le> VB_W" using x [OF i] by simp
    moreover have "(of_int (Math_round (points ! i / ?m * VB_H)) :: rat) \<le> of_int 22"
      using bar_height_range(2) [OF v m] by (simp only: of_int_le_iff)
    moreover have "0 \<le> of_nat i * ?step" using \<open>0 \<le> ?step\<close> by (rule mult_nonneg_nonneg [OF of_nat_0_le_iff])
    ultimately show ?thesis
      using bar_height_range(1) [OF v m] by (simp add: b [OF i] Let_def VB_H_def)
  qed
  ultimately show ?thesis by (simp add: bars_fit_def list_all_length len)
qed

text \<open>With more bars than units of width the last bar leaves the box.\<close>

lemma bars_overflow:
  assumes "BarSparkline points = Some bs" "120 < length points"
  shows "VB_W < bar_x (last bs) + bar_w (last bs)"
proof -
  let ?n = "length points"
  have len: "length bs = ?n" by (rule bars_of(1) [OF assms(1)])
  have n: "(120 :: rat) < of_nat ?n" using assms(2) by (metis of_nat_less_iff of_nat_numeral)
  have i: "?n - 1 < ?n" using assms(2) by simp
  have "bs ! (?n - 1) = last bs" using len assms(2) by (metis last_conv_nth list.size(3) not_less_zero)
  then have l: "bar_x (last bs) = of_nat (?n - 1) * (VB_W / of_nat ?n)" "1 \<le> bar_w (last bs)"
    using bars_of(2) [OF assms(1) i] by (simp_all add: Let_def)
  have "(of_nat (?n - 1) :: rat) = of_nat ?n - 1" using assms(2) by (simp add: of_nat_diff)
  moreover have "119 * of_nat ?n < (of_nat ?n * 120 - 120 :: rat)" using n by simp
  then have "119 < (of_nat ?n * 120 - 120 :: rat) / of_nat ?n" using n by (subst pos_less_divide_eq) auto
  ultimately have "VB_W < of_nat (?n - 1) * (VB_W / of_nat ?n) + 1" by (simp add: VB_W_def algebra_simps)
  then show ?thesis using l by simp
qed

section \<open>The hovered bucket\<close>

text \<open>Rounding to a whole number of steps picks the nearest one, also past the ends.\<close>

lemma round_nearest:
  fixes t :: rat
  assumes "i \<le> k"
  defines "h \<equiv> Math_round (max 0 (min 1 (t / of_nat k)) * of_nat k)"
  assumes "0 < k"
  shows "0 \<le> h" "h \<le> int k" "\<bar>of_int h - t\<bar> \<le> \<bar>of_nat i - t\<bar>"
proof -
  let ?t = "max 0 (min 1 (t / of_nat k)) * of_nat k"
  have t: "?t = max 0 (min (of_nat k) t)" using assms(3) by (auto simp: max_def min_def field_simps)
  then have r: "0 \<le> ?t" "?t \<le> of_int (int k)" by auto
  have h: "h = \<lfloor>?t + 1 / 2\<rfloor>" by (simp add: h_def Math_round_def)
  show "0 \<le> h" using r(1) unfolding h by simp
  show hk: "h \<le> int k" using r(2) unfolding h by linarith
  have i: "0 \<le> (of_nat i :: rat)" "(of_nat i :: rat) \<le> of_nat k" using assms(1) by auto
  show "\<bar>of_int h - t\<bar> \<le> \<bar>of_nat i - t\<bar>"
  proof -
    consider "t < 0" | "of_nat k < t" | "0 \<le> t" "t \<le> of_nat k" by linarith
    then show ?thesis
    proof cases
      case 1
      then have "?t = of_int 0" unfolding t by simp
      then have "h = 0" unfolding h_def by (metis Math_round_of_int)
      then show ?thesis using 1 i by simp
    next
      case 2
      then have "?t = of_int (int k)" unfolding t by simp
      then have "h = int k" unfolding h_def by (metis Math_round_of_int)
      then show ?thesis using 2 i by simp
    next
      case 3
      then have "?t = t" unfolding t by simp
      then have b: "of_int h - 1 / 2 \<le> t" "t < of_int h + 1 / 2"
        using Math_round_bounds [of ?t] by (simp_all add: h_def)
      show ?thesis
      proof (cases "int i = h")
        case False
        then have "of_int (int i) \<le> (of_int (h - 1) :: rat) \<or> of_int (h + 1) \<le> (of_int (int i) :: rat)"
          unfolding of_int_le_iff by linarith
        then show ?thesis using b by auto
      qed auto
    qed
  qed
qed

text \<open>The place of the pointer in the coordinates of the view box.\<close>

definition pointer_x :: "rat \<Rightarrow> rat \<Rightarrow> rat \<Rightarrow> rat" where
  "pointer_x clientX left_edge width = (clientX - left_edge) / width * chart_W"

lemma onMove_round:
  assumes "1 < n"
  shows "chart_onMove n clientX l w =
    nat (Math_round (max 0 (min 1 ((pointer_x clientX l w - PAD) / 424 * of_nat (n - 1) / of_nat (n - 1))) * of_nat (n - 1)))"
proof -
  have e: "((clientX - l) / w - PAD / chart_W) / ((chart_W - PAD) / chart_W - PAD / chart_W) =
      (pointer_x clientX l w - PAD) / 424"
    by (cases "w = 0") (simp_all add: pointer_x_def PAD_def chart_W_def divide_simps)
  have "(pointer_x clientX l w - PAD) / 424 * of_nat (n - 1) / of_nat (n - 1) = (pointer_x clientX l w - PAD) / 424"
    using assms by (intro nonzero_mult_div_cancel_right) simp
  then show ?thesis using assms by (simp only: chart_onMove_def Let_def e if_True)
qed

lemma chart_x_dist:
  assumes "1 < n"
  shows "\<bar>chart_x n i - px\<bar> = \<bar>of_nat i - (px - PAD) / 424 * of_nat (n - 1)\<bar> * (424 / of_nat (n - 1))"
proof -
  have n: "0 < (of_nat (n - 1) :: rat)" using assms by simp
  have "chart_x n i - px = (of_nat i - (px - PAD) / 424 * of_nat (n - 1)) * (424 / of_nat (n - 1))"
    using assms n by (simp add: chart_x_def chart_W_def PAD_def field_simps)
  then show ?thesis using n by (simp only: abs_mult) simp
qed

section \<open>Properties\<close>



text \<open>Hovering shows the bucket under the pointer: for every position of the mouse the index
  is one of the chart and no other bucket is drawn nearer to the pointer, so the cross hair is
  at the nearest point and the readout is that bucket's.\<close>

lemma hover_nearest:
  assumes "buckets \<noteq> []"
  shows "let n = length buckets; i = chart_onMove n clientX left_edge width; px = pointer_x clientX left_edge width
    in i < n \<and> \<not> (\<exists>j<n. \<bar>chart_x n j - px\<bar> < \<bar>chart_x n i - px\<bar>) \<and>
       map_option ch_cross (MetricChart buckets m (Some i)) = Some (Some (chart_x n i)) \<and>
       map_option ch_readout (MetricChart buckets m (Some i)) =
         Some (Some (fmtPrecise m (avg_of m (buckets ! i)), fmtPrecise m (max_of m (buckets ! i))))"
proof -
  let ?n = "length buckets" and ?px = "pointer_x clientX left_edge width"
  let ?i = "chart_onMove ?n clientX left_edge width"
  have "?i < ?n \<and> \<not> (\<exists>j<?n. \<bar>chart_x ?n j - ?px\<bar> < \<bar>chart_x ?n ?i - ?px\<bar>)"
  proof (cases "1 < ?n")
    case True
    let ?k = "?n - 1" and ?t = "(?px - PAD) / 424 * of_nat (?n - 1)"
    let ?h = "Math_round (max 0 (min 1 (?t / of_nat ?k)) * of_nat ?k)"
    have k: "0 < ?k" using True by simp
    note near = round_nearest [OF _ k, of _ ?t]
    have i: "?i = nat ?h" by (rule onMove_round [OF True])
    then have hi: "(of_nat ?i :: rat) = of_int ?h" using near(1) [of 0] by simp
    have "?i \<le> ?k" using near(2) [of 0] by (simp add: i)
    moreover have "\<bar>chart_x ?n ?i - ?px\<bar> \<le> \<bar>chart_x ?n j - ?px\<bar>" if "j < ?n" for j
    proof -
      have "j \<le> ?k" using that by simp
      from near(3) [OF this] have "\<bar>of_nat ?i - ?t\<bar> \<le> \<bar>of_nat j - ?t\<bar>" unfolding hi .
      then show ?thesis unfolding chart_x_dist [OF True] by (rule mult_right_mono) simp
    qed
    moreover have "?i < ?n" using \<open>?i \<le> ?k\<close> k by simp
    ultimately show ?thesis by (meson not_less)
  next
    case False
    then have "?n = 1" using assms by (cases buckets) auto
    then show ?thesis by (simp add: chart_onMove_def Let_def)
  qed
  then show ?thesis using assms by (simp add: MetricChart_def Let_def)
qed

text \<open>A hover state that outlives its bucket draws a cross hair outside the chart.\<close>

lemma stale_cross:
  assumes "1 < n" "n \<le> i"
  shows "chart_W - PAD < chart_x n i"
proof -
  have "(of_nat (n - 1) :: rat) < of_nat i" using assms by simp
  then show ?thesis using assms(1) by (simp add: chart_x_def chart_W_def PAD_def field_simps)
qed

end
