(* ===== verification/Polling.thy ===== *)
theory Polling imports Prelude begin

text \<open>
  The polling effect every page uses: an effect sets a closure flag (\<open>stop\<close>, or \<open>live\<close> with
  the opposite sense), sends a first request, repeats it on an interval, and its cleanup sets
  the flag, which makes later answers to its requests be ignored. The flags of all runs of an
  effect are kept, with the requests in flight, so that answers may arrive late and in any
  order. The locale \<open>guarded_poll\<close> states what the flag is for, the locale \<open>mounted_page\<close> what the
  application needs of a page it mounts and leaves; the pages interpret both.
\<close>

section \<open>Runs of an effect\<close>

text \<open>One run: the dependencies it closed over, its local variables and its flag.\<close>

record ('k, 'l) effect_run =
  ef_key :: 'k
  ef_local :: 'l
  ef_stop :: bool

text \<open>All runs, and the requests in flight with the run that awaits each.\<close>

record ('k, 'l, 'q) polls =
  pl_runs :: "('k, 'l) effect_run list"
  pl_flight :: "(nat \<times> 'q) list"

definition no_polls :: "('k, 'l, 'q) polls" where
  "no_polls = \<lparr>pl_runs = [], pl_flight = []\<rparr>"

definition poll_cleanup :: "('k, 'l, 'q) polls \<Rightarrow> ('k, 'l, 'q) polls" where
  "poll_cleanup p =
     p\<lparr>pl_runs := (if pl_runs p = [] then []
       else butlast (pl_runs p) @ [(last (pl_runs p))\<lparr>ef_stop := True\<rparr>])\<rparr>"

definition poll_send :: "nat \<Rightarrow> 'q \<Rightarrow> ('k, 'l, 'q) polls \<Rightarrow> ('k, 'l, 'q) polls" where
  "poll_send i q p = p\<lparr>pl_flight := pl_flight p @ [(i, q)]\<rparr>"

text \<open>Running the effect: the cleanup of the last run, a new run and its first request.\<close>

definition poll_start :: "'k \<Rightarrow> 'l \<Rightarrow> 'q \<Rightarrow> ('k, 'l, 'q) polls \<Rightarrow> ('k, 'l, 'q) polls" where
  "poll_start k l q p =
     (let c = poll_cleanup p
      in poll_send (length (pl_runs c)) q
           (c\<lparr>pl_runs := pl_runs c @ [\<lparr>ef_key = k, ef_local = l, ef_stop = False\<rparr>]\<rparr>))"

text \<open>The interval, which the cleanup clears.\<close>

definition poll_running :: "('k, 'l, 'q) polls \<Rightarrow> bool" where
  "poll_running p \<longleftrightarrow> pl_runs p \<noteq> [] \<and> \<not> ef_stop (last (pl_runs p))"

definition poll_tick :: "'q \<Rightarrow> ('k, 'l, 'q) polls \<Rightarrow> ('k, 'l, 'q) polls" where
  "poll_tick q p = (if poll_running p then poll_send (length (pl_runs p) - 1) q p else p)"

text \<open>The \<open>j\<close>-th request in flight is answered: its run, what was asked, and the rest.\<close>

definition poll_take :: "nat \<Rightarrow> ('k, 'l, 'q) polls \<Rightarrow> (nat \<times> 'q \<times> ('k, 'l, 'q) polls) option" where
  "poll_take j p =
     (if j < length (pl_flight p)
      then Some (fst (pl_flight p ! j), snd (pl_flight p ! j),
                 p\<lparr>pl_flight := take j (pl_flight p) @ drop (Suc j) (pl_flight p)\<rparr>)
      else None)"

definition poll_local :: "nat \<Rightarrow> 'l \<Rightarrow> ('k, 'l, 'q) polls \<Rightarrow> ('k, 'l, 'q) polls" where
  "poll_local i l p = p\<lparr>pl_runs := (pl_runs p)[i := (pl_runs p ! i)\<lparr>ef_local := l\<rparr>]\<rparr>"

definition poll_stopped :: "nat \<Rightarrow> ('k, 'l, 'q) polls \<Rightarrow> bool" where
  "poll_stopped i p = ef_stop (pl_runs p ! i)"

section \<open>The invariant\<close>

text \<open>Only the last run may be live, and requests in flight belong to runs.\<close>

definition polls_ok :: "('k, 'l, 'q) polls \<Rightarrow> bool" where
  "polls_ok p \<longleftrightarrow> list_all ef_stop (butlast (pl_runs p)) \<and>
     list_all (\<lambda>f. fst f < length (pl_runs p)) (pl_flight p)"

lemma runs_simps [simp]:
  "length (pl_runs (poll_cleanup p)) = length (pl_runs p)"
  "pl_flight (poll_cleanup p) = pl_flight p"
  "pl_runs (poll_send i q p) = pl_runs p"
  "pl_flight (poll_send i q p) = pl_flight p @ [(i, q)]"
  "length (pl_runs (poll_start k l q p)) = Suc (length (pl_runs p))"
  "pl_runs (poll_tick q p) = pl_runs p"
  "length (pl_runs (poll_local i l p)) = length (pl_runs p)"
  "pl_flight (poll_local i l p) = pl_flight p"
  by (simp_all add: poll_cleanup_def poll_send_def poll_start_def poll_tick_def poll_local_def Let_def)

lemma poll_start_runs:
  "pl_runs (poll_start k l q p) = pl_runs (poll_cleanup p) @ [\<lparr>ef_key = k, ef_local = l, ef_stop = False\<rparr>]"
  by (simp add: poll_start_def Let_def)

lemma poll_cleanup_last:
  "pl_runs p \<noteq> [] \<Longrightarrow> pl_runs (poll_cleanup p) \<noteq> [] \<and> ef_key (last (pl_runs (poll_cleanup p))) = ef_key (last (pl_runs p))"
  by (simp add: poll_cleanup_def)

lemma polls_ok_none [simp]: "polls_ok no_polls"
  by (simp add: polls_ok_def no_polls_def)

lemma cleanup_all_stopped: "polls_ok p \<Longrightarrow> list_all ef_stop (pl_runs (poll_cleanup p))"
  by (simp add: polls_ok_def poll_cleanup_def)

lemma polls_ok_cleanup: "polls_ok p \<Longrightarrow> polls_ok (poll_cleanup p)"
  by (auto simp: polls_ok_def poll_cleanup_def list_all_iff)

lemma polls_ok_start: "polls_ok p \<Longrightarrow> polls_ok (poll_start k l q p)"
  using cleanup_all_stopped [of p]
  by (auto simp: polls_ok_def poll_start_def poll_send_def Let_def list_all_iff butlast_append intro: less_SucI)

lemma polls_ok_tick: "polls_ok p \<Longrightarrow> polls_ok (poll_tick q p)"
  by (auto simp: polls_ok_def poll_tick_def poll_running_def)

lemma polls_ok_send: "polls_ok p \<Longrightarrow> i < length (pl_runs p) \<Longrightarrow> polls_ok (poll_send i q p)"
  by (simp add: polls_ok_def)

lemma polls_ok_local: "polls_ok p \<Longrightarrow> polls_ok (poll_local i l p)"
proof -
  assume p: "polls_ok p"
  have "ef_stop (((pl_runs p)[i := (pl_runs p ! i)\<lparr>ef_local := l\<rparr>]) ! j) = ef_stop (pl_runs p ! j)" for j
    by (cases "i < length (pl_runs p)"; cases "i = j") (simp_all add: list_update_beyond)
  with p show ?thesis
    by (auto simp: polls_ok_def list_all_length poll_local_def nth_butlast)
qed

lemma poll_take_ok:
  assumes "polls_ok p" "poll_take j p = Some (i, q, p')"
  shows "polls_ok p'" "i < length (pl_runs p)" "pl_runs p' = pl_runs p"
proof -
  have j: "j < length (pl_flight p)" and i: "(i, q) = pl_flight p ! j"
    and p': "p' = p\<lparr>pl_flight := take j (pl_flight p) @ drop (Suc j) (pl_flight p)\<rparr>"
    using assms(2) by (auto simp: poll_take_def split: if_splits)
  show "i < length (pl_runs p)" using assms(1) j i by (metis fst_conv list_all_length polls_ok_def)
  show "polls_ok p'" using assms(1) p'
    by (auto simp: polls_ok_def list_all_iff dest: in_set_takeD in_set_dropD)
  show "pl_runs p' = pl_runs p" by (simp add: p')
qed

text \<open>A run that is not stopped is the last one.\<close>

lemma live_is_last: "polls_ok p \<Longrightarrow> i < length (pl_runs p) \<Longrightarrow> \<not> poll_stopped i p \<Longrightarrow> Suc i = length (pl_runs p)"
proof (rule ccontr)
  assume p: "polls_ok p" "i < length (pl_runs p)" "\<not> poll_stopped i p" and "Suc i \<noteq> length (pl_runs p)"
  then have "i < length (butlast (pl_runs p))" by simp
  then have "ef_stop (butlast (pl_runs p) ! i)" using p(1) by (simp add: polls_ok_def list_all_length)
  with \<open>i < length (butlast (pl_runs p))\<close> p(3) show False by (simp add: poll_stopped_def nth_butlast)
qed

lemma poll_take_live:
  assumes "polls_ok p" "poll_take j p = Some (i, q, p')" "\<not> poll_stopped i p'"
  shows "Suc i = length (pl_runs p)"
  using poll_take_ok [OF assms(1,2)] live_is_last [of p' i] assms(3) by simp

lemma poll_take_runs: "poll_take j p = Some (i, q, p') \<Longrightarrow> pl_runs p' = pl_runs p"
  by (auto simp: poll_take_def split: if_splits)

section \<open>Live and idle effects\<close>

text \<open>While its component is mounted the last run of an effect is live; once it is gone all are stopped.\<close>

definition polls_live :: "('k, 'l, 'q) polls \<Rightarrow> bool" where
  "polls_live p \<longleftrightarrow> polls_ok p \<and> poll_running p"

definition polls_idle :: "('k, 'l, 'q) polls \<Rightarrow> bool" where
  "polls_idle p \<longleftrightarrow> polls_ok p \<and> list_all ef_stop (pl_runs p)"

lemma polls_live_start [simp]: "polls_ok p \<Longrightarrow> polls_live (poll_start k l q p)"
  by (simp add: polls_live_def polls_ok_start poll_running_def poll_start_runs)

lemma polls_live_ok: "polls_live p \<Longrightarrow> polls_ok p" "polls_live p \<Longrightarrow> poll_running p"
  by (simp_all add: polls_live_def)

lemma polls_live_tick: "polls_live p \<Longrightarrow> polls_live (poll_tick q p)"
  by (simp add: polls_live_def polls_ok_tick) (simp add: poll_running_def)

lemma polls_live_take: "polls_live p \<Longrightarrow> poll_take j p = Some (i, q, p') \<Longrightarrow> polls_live p'"
  using poll_take_ok [of p j i q p'] by (simp add: polls_live_def poll_running_def)

lemma polls_live_local: "polls_live p \<Longrightarrow> polls_live (poll_local i l p)"
proof -
  assume p: "polls_live p"
  then have "pl_runs p \<noteq> []" "\<not> ef_stop (last (pl_runs p))" by (simp_all add: polls_live_def poll_running_def)
  then have "poll_running (poll_local i l p)"
    by (cases "i = length (pl_runs p) - 1")
      (auto simp: poll_running_def poll_local_def last_conv_nth nth_list_update)
  with p show ?thesis by (simp add: polls_live_def polls_ok_local)
qed

lemma polls_idle_cleanup: "polls_ok p \<Longrightarrow> polls_idle (poll_cleanup p)"
  by (simp add: polls_idle_def polls_ok_cleanup cleanup_all_stopped)

lemma polls_idle_not_running: "polls_idle p \<Longrightarrow> \<not> poll_running p"
  unfolding polls_idle_def poll_running_def list_all_iff by (meson last_in_set)

lemma polls_idle_tick: "polls_idle p \<Longrightarrow> poll_tick q p = p"
  using polls_idle_not_running [of p] by (simp add: poll_tick_def)

lemma polls_idle_take:
  assumes "polls_idle p" "poll_take j p = Some (i, q, p')"
  shows "polls_idle p'" "poll_stopped i p'"
  using poll_take_ok [of p j i q p'] assms by (auto simp: polls_idle_def poll_stopped_def list_all_length)

lemma polls_idle_ok: "polls_idle p \<Longrightarrow> polls_ok p"
  by (simp add: polls_idle_def)

section \<open>Pages of the application\<close>

text \<open>
  What the application relies on when it mounts and unmounts a page: a mounted page stays in
  order under its own events, leaving stops all its effects, and a page left neither polls nor
  logs out any more.
\<close>

locale mounted_page =
  fixes step :: "'s \<Rightarrow> 'e \<Rightarrow> 's" and leave :: 'e and running :: "'s \<Rightarrow> bool" and idle :: "'s \<Rightarrow> bool"
    and logouts :: "'s \<Rightarrow> nat"
  assumes running_step: "running s \<Longrightarrow> e \<noteq> leave \<Longrightarrow> running (step s e)"
    and leave_idle: "running s \<Longrightarrow> idle (step s leave)"
    and idle_step: "idle s \<Longrightarrow> idle (step s e) \<and> logouts (step s e) = logouts s"
begin

lemma running_run: "running s \<Longrightarrow> leave \<notin> set es \<Longrightarrow> running (foldl step s es)"
proof (induction es arbitrary: s)
  case (Cons e es)
  then show ?case using running_step [of s e] by auto
qed simp

lemma idle_run: "idle s \<Longrightarrow> idle (foldl step s es) \<and> logouts (foldl step s es) = logouts s"
proof (induction es arbitrary: s)
  case (Cons e es)
  then show ?case using idle_step [of s e] by simp
qed simp

end

section \<open>Guarded pages\<close>

text \<open>
  A page whose shown data is replaced by the answers its effect takes. \<open>takes s e\<close> is the run
  whose answer the event \<open>e\<close> delivers, with the data it puts on the page; \<open>taken_by\<close> collects
  them along a run of the page.
\<close>

fun taken_by :: "('s \<Rightarrow> 'e \<Rightarrow> (nat \<times> 'd) option) \<Rightarrow> ('s \<Rightarrow> 'e \<Rightarrow> 's) \<Rightarrow> 's \<Rightarrow> 'e list \<Rightarrow> (nat \<times> 'd) list" where
  "taken_by takes step s [] = []"
| "taken_by takes step s (e # es) =
     (case takes s e of None \<Rightarrow> [] | Some t \<Rightarrow> [t]) @ taken_by takes step (step s e) es"

text \<open>
  The law \<open>takes_live\<close> is the guard of the code. Then the answers reach the page in the order
  of the runs: an answer for an earlier selection never replaces one for a later selection.
\<close>

locale guarded_poll =
  fixes ok :: "'s \<Rightarrow> bool" and step :: "'s \<Rightarrow> 'e \<Rightarrow> 's" and runs :: "'s \<Rightarrow> nat"
    and takes :: "'s \<Rightarrow> 'e \<Rightarrow> (nat \<times> 'd) option" and shown :: "'s \<Rightarrow> 'd"
  assumes ok_step: "ok s \<Longrightarrow> ok (step s e)"
    and runs_step: "ok s \<Longrightarrow> runs s \<le> runs (step s e)"
    and takes_live: "ok s \<Longrightarrow> takes s e = Some (i, d) \<Longrightarrow> Suc i = runs s"
    and shown_step: "ok s \<Longrightarrow> shown (step s e) = (case takes s e of None \<Rightarrow> shown s | Some (i, d) \<Rightarrow> d)"
begin

abbreviation taken :: "'s \<Rightarrow> 'e list \<Rightarrow> (nat \<times> 'd) list" where
  "taken \<equiv> taken_by takes step"

lemma run_ok: "ok s \<Longrightarrow> ok (foldl step s es)"
  by (induction es arbitrary: s) (simp_all add: ok_step)

lemma runs_mono: "ok s \<Longrightarrow> runs s \<le> runs (foldl step s es)"
proof (induction es arbitrary: s)
  case (Cons e es)
  show ?case using Cons.IH [OF ok_step [OF Cons.prems], of e] runs_step [OF Cons.prems, of e] by simp
qed simp

lemma taken_range: "ok s \<Longrightarrow> t \<in> set (taken s es) \<Longrightarrow> runs s \<le> Suc (fst t) \<and> Suc (fst t) \<le> runs (foldl step s es)"
proof (induction es arbitrary: s)
  case (Cons e es)
  show ?case
  proof (cases "t \<in> set (taken (step s e) es)")
    case True
    then show ?thesis
      using Cons.IH [OF ok_step [OF Cons.prems(1)] True] runs_step [OF Cons.prems(1), of e] by simp
  next
    case False
    then have "takes s e = Some t" using Cons.prems(2) by (auto split: option.splits)
    then have "Suc (fst t) = runs s" using takes_live [OF Cons.prems(1), of e "fst t" "snd t"] by simp
    then show ?thesis using runs_mono [OF Cons.prems(1), of "e # es"] by simp
  qed
qed simp

lemma taken_in_order: "ok s \<Longrightarrow> sorted (map fst (taken s es))"
proof (induction es arbitrary: s)
  case (Cons e es)
  have IH: "sorted (map fst (taken (step s e) es))" by (rule Cons.IH [OF ok_step [OF Cons.prems]])
  show ?case
  proof (cases "takes s e")
    case (Some t)
    have "fst t \<le> fst u" if "u \<in> set (taken (step s e) es)" for u
      using taken_range [OF ok_step [OF Cons.prems] that] runs_step [OF Cons.prems, of e]
        takes_live [OF Cons.prems, of e "fst t" "snd t"] Some by simp
    with IH Some show ?thesis by auto
  qed (use IH in simp)
qed simp

lemma shown_is_last: "ok s \<Longrightarrow> shown (foldl step s es) = (if taken s es = [] then shown s else snd (last (taken s es)))"
proof (induction es arbitrary: s)
  case (Cons e es)
  show ?case
    using Cons.IH [OF ok_step [OF Cons.prems], of e] shown_step [OF Cons.prems, of e]
    by (auto split: option.splits)
qed simp

lemma newest_shown:
  assumes "ok s"
  shows "sorted (map fst (taken s es)) \<and>
    shown (foldl step s es) = (if taken s es = [] then shown s else snd (last (taken s es)))"
  using taken_in_order [OF assms] shown_is_last [OF assms] by blast

end

end
