(* ===== verification/Ledger.thy ===== *)
theory Ledger imports JsString begin

text \<open>
  The layout components the pages share (web/src/components/Cluster.tsx, Ledger.tsx and
  EmptyState.tsx): what they show for their properties and which handlers a click runs.
\<close>

section \<open>Cells\<close>

datatype cell_color = Teal | Indigo | Olive | Amber | Rose | Sky

fun color_text :: "cell_color \<Rightarrow> jstr" where
  "color_text Teal = js ''teal''"
| "color_text Indigo = js ''indigo''"
| "color_text Olive = js ''olive''"
| "color_text Amber = js ''amber''"
| "color_text Rose = js ''rose''"
| "color_text Sky = js ''sky''"

record cell =
  cell_label :: jstr
  cell_class :: jstr
  cell_value :: jstr
  cell_unit :: "jstr option"
  cell_sub :: "jstr option"

text \<open>An empty unit or sub line is not rendered.\<close>

definition if_shown :: "jstr option \<Rightarrow> jstr option" where
  "if_shown s = (case s of None \<Rightarrow> None | Some t \<Rightarrow> if t = [] then None else Some t)"

definition Cell :: "jstr \<Rightarrow> jstr \<Rightarrow> jstr option \<Rightarrow> jstr option \<Rightarrow> cell_color option \<Rightarrow> cell" where
  "Cell label value unit sub color =
     \<lparr>cell_label = label, cell_class = js ''v'' @ (case color of None \<Rightarrow> [] | Some c \<Rightarrow> js '' '' @ color_text c),
      cell_value = value, cell_unit = if_shown unit, cell_sub = if_shown sub\<rparr>"

definition MetricCluster_class :: "nat \<Rightarrow> jstr" where
  "MetricCluster_class cols = js ''cluster c'' @ dec_nat cols"

section \<open>Ledger rows\<close>

datatype action_variant = QWarn | QDanger

definition QuickAction_class :: "action_variant option \<Rightarrow> jstr" where
  "QuickAction_class v =
     js ''qbtn'' @ (case v of None \<Rightarrow> [] | Some QWarn \<Rightarrow> js '' warn'' | Some QDanger \<Rightarrow> js '' dgr'')"

definition LedgerRow_class :: "bool \<Rightarrow> bool \<Rightarrow> jstr" where
  "LedgerRow_class clickable dim =
     js ''lr'' @ (if clickable then js '' clk'' else []) @ (if dim then js '' dim'' else [])"

text \<open>
  A click inside a row: on a quick action, whose handler stops the event before it reaches the
  row, or elsewhere. The handlers are functions on the state of the page.
\<close>

datatype row_target = OnAction nat | OnRow

definition LedgerRow_click :: "('s \<Rightarrow> 's) option \<Rightarrow> ('s \<Rightarrow> 's) list \<Rightarrow> row_target \<Rightarrow> 's \<Rightarrow> 's" where
  "LedgerRow_click onClick actions t s =
     (case t of
        OnAction i \<Rightarrow> if i < length actions then (actions ! i) s else s
      | OnRow \<Rightarrow> (case onClick of None \<Rightarrow> s | Some f \<Rightarrow> f s))"

text \<open>The count of a section header is shown unless it is absent.\<close>

definition SectionHeader_text :: "jstr \<Rightarrow> jstr \<Rightarrow> jstr option \<Rightarrow> jstr list" where
  "SectionHeader_text index title count = [index, title] @ (case count of None \<Rightarrow> [] | Some c \<Rightarrow> [c])"

definition EmptyState :: "jstr \<Rightarrow> jstr option \<Rightarrow> jstr list" where
  "EmptyState message action = message # (case action of None \<Rightarrow> [] | Some a \<Rightarrow> [a])"

end
