(* ===== verification/ErrorsPage.thy ===== *)
theory ErrorsPage imports Api Polling Format begin

text \<open>
  The errors page (web/src/Errors.tsx): the range, the effect that loads the signatures, the
  acknowledgement of one signature and of all, with the requests in flight, and the texts the
  page derives from its data. Its loading effect is an instance of \<open>guarded_poll\<close>.
\<close>

section \<open>State\<close>

datatype err_range = Day | Week | AllTime

fun range_text :: "err_range \<Rightarrow> jstr" where
  "range_text Day = js ''24h''"
| "range_text Week = js ''7d''"
| "range_text AllTime = js ''all''"

definition rangeLabel :: "err_range \<Rightarrow> jstr" where
  "rangeLabel r =
     (if r = Day then js ''in 24h'' else if r = Week then js ''in 7d'' else js ''all time'')"

text \<open>
  \<open>ep_acks\<close> are the single acknowledgements in flight, \<open>ep_all\<close> the number of answers the
  \<open>Promise.all\<close> of \<open>onAckAll\<close> still awaits, and \<open>ep_sent\<close> every acknowledgement sent so far.
\<close>

record errors_page =
  ep_range :: err_range
  ep_data :: "errors_response option"
  ep_err :: "jstr option"
  ep_tick :: nat
  ep_polls :: "(err_range \<times> nat, unit, unit) polls"
  ep_acking :: bool
  ep_acks :: "(jstr \<times> bool) list"
  ep_all :: nat
  ep_sent :: "(jstr \<times> bool) list"

text \<open>The effect on \<open>[range, tick]\<close>.\<close>

definition load_errors :: "errors_page \<Rightarrow> errors_page" where
  "load_errors s = s\<lparr>ep_err := None, ep_polls := poll_start (ep_range s, ep_tick s) () () (ep_polls s)\<rparr>"

definition errors_mount :: errors_page where
  "errors_mount =
     load_errors \<lparr>ep_range = Day, ep_data = None, ep_err = None, ep_tick = 0, ep_polls = no_polls,
       ep_acking = False, ep_acks = [], ep_all = 0, ep_sent = []\<rparr>"

section \<open>Operations\<close>

definition errors_loaded :: "nat \<Rightarrow> errors_response fetched \<Rightarrow> errors_page \<Rightarrow> errors_page" where
  "errors_loaded j f s =
     (case poll_take j (ep_polls s) of
        None \<Rightarrow> s
      | Some (i, _, p) \<Rightarrow>
          let s' = s\<lparr>ep_polls := p\<rparr>
          in if poll_stopped i p then s'
             else case reply f getErrors_res of
                    Inl e \<Rightarrow> s'\<lparr>ep_err := Some (string_of_error e)\<rparr>
                  | Inr d \<Rightarrow> s'\<lparr>ep_data := Some d\<rparr>)"

text \<open>While the page is mounted its last run is live; once it has been left no state update counts.\<close>

definition change_range :: "err_range \<Rightarrow> errors_page \<Rightarrow> errors_page" where
  "change_range r s =
     (if r = ep_range s \<or> \<not> poll_running (ep_polls s) then s else load_errors (s\<lparr>ep_range := r\<rparr>))"

definition reload_errors :: "errors_page \<Rightarrow> errors_page" where
  "reload_errors s =
     (if poll_running (ep_polls s) then load_errors (s\<lparr>ep_tick := ep_tick s + 1\<rparr>) else s)"

definition onAck :: "err_signature \<Rightarrow> errors_page \<Rightarrow> errors_page" where
  "onAck sig s =
     s\<lparr>ep_acks := ep_acks s @ [(es_id sig, \<not> es_acknowledged sig)],
       ep_sent := ep_sent s @ [(es_id sig, \<not> es_acknowledged sig)]\<rparr>"

definition ack_answered :: "nat \<Rightarrow> unit fetched \<Rightarrow> errors_page \<Rightarrow> errors_page" where
  "ack_answered k f s =
     (if k < length (ep_acks s)
      then let s' = s\<lparr>ep_acks := take k (ep_acks s) @ drop (Suc k) (ep_acks s)\<rparr>
           in case reply f ackError_res of Inl _ \<Rightarrow> s' | Inr _ \<Rightarrow> reload_errors s'
      else s)"

definition unacked :: "errors_page \<Rightarrow> err_signature list" where
  "unacked s =
     nullish (map_option (\<lambda>d. filter (\<lambda>g. \<not> es_acknowledged g) (er_signatures d)) (ep_data s)) []"

definition onAckAll :: "errors_page \<Rightarrow> errors_page" where
  "onAckAll s =
     (if ep_acking s \<or> length (unacked s) = 0 then s
      else s\<lparr>ep_acking := True, ep_all := length (unacked s),
             ep_sent := ep_sent s @ map (\<lambda>g. (es_id g, True)) (unacked s)\<rparr>)"

text \<open>
  One answer to the running \<open>Promise.all\<close>: a failure settles it at once, and the other answers
  then change nothing; otherwise it settles with the last one. The \<open>finally\<close> block follows.
\<close>

definition all_answered :: "unit fetched \<Rightarrow> errors_page \<Rightarrow> errors_page" where
  "all_answered f s =
     (if ep_all s = 0 then s
      else let settled = (is_error (reply f ackError_res) \<or> ep_all s = 1)
           in if settled then reload_errors (s\<lparr>ep_all := 0, ep_acking := False\<rparr>)
              else s\<lparr>ep_all := ep_all s - 1\<rparr>)"

definition mostRecentSig :: "errors_response \<Rightarrow> err_signature option" where
  "mostRecentSig d =
     foldl (\<lambda>best s. case best of None \<Rightarrow> Some s
        | Some b \<Rightarrow> if es_last_unix s > es_last_unix b then Some s else best) None (er_signatures d)"

section \<open>What is shown\<close>

definition lastSub :: "errors_page \<Rightarrow> jstr" where
  "lastSub s =
     (case Option.bind (ep_data s) mostRecentSig of
        Some g \<Rightarrow> js ''ago '' @ middle_dot @ js '' '' @ es_agent g @ js '' / '' @ es_proc g
      | None \<Rightarrow> js ''ago'')"

record errors_view =
  ev_title :: jstr
  ev_errors :: jstr
  ev_sub :: jstr
  ev_unacked :: jstr
  ev_unacked_sub :: jstr
  ev_affected :: jstr
  ev_last :: jstr
  ev_ack_all :: jstr
  ev_ack_all_disabled :: bool
  ev_count :: "jstr option"
  ev_failed :: "jstr option"
  ev_loading :: bool
  ev_partial :: bool

definition errors_view_of :: "rat \<Rightarrow> errors_page \<Rightarrow> errors_view" where
  "errors_view_of now s =
     (let cell = (\<lambda>f. case ep_data s of None \<Rightarrow> em_dash | Some d \<Rightarrow> f d); n = length (unacked s)
      in \<lparr>ev_title = js ''Errors '' @ range_text (ep_range s),
          ev_errors = cell (\<lambda>d. dec_int (ec_errors (er_cluster d))),
          ev_sub = rangeLabel (ep_range s),
          ev_unacked = cell (\<lambda>d. dec_int (ec_unacknowledged (er_cluster d))),
          ev_unacked_sub = (case ep_data s of None \<Rightarrow> js ''error signatures''
             | Some d \<Rightarrow> js ''of '' @ dec_int (ec_signatures (er_cluster d)) @ js '' signatures''),
          ev_affected = cell (\<lambda>d. dec_int (ec_affected_procs (er_cluster d))),
          ev_last = cell (\<lambda>d. relativeTime (ec_last_error_unix (er_cluster d)) now),
          ev_ack_all = (if ep_acking s then js ''acking'' @ ellipsis
             else js ''ack all'' @ (if n > 0 then js '' '' @ middle_dot @ js '' '' @ dec_nat n else [])),
          ev_ack_all_disabled = (ep_acking s \<or> n = 0),
          ev_count = map_option (\<lambda>d. dec_nat (length (er_signatures d)) @ js '' signatures'') (ep_data s),
          ev_failed = (case ep_err s of Some e \<Rightarrow> if e = [] then None else Some (js ''Failed to load: '' @ e) | None \<Rightarrow> None),
          ev_loading = ((ep_err s = None \<or> ep_err s = Some []) \<and> ep_data s = None),
          ev_partial = (case ep_data s of None \<Rightarrow> False | Some d \<Rightarrow> er_truncated d)\<rparr>)"

text \<open>One row of the ledger.\<close>

record errors_row =
  ew_index :: jstr
  ew_sample :: jstr
  ew_source :: jstr
  ew_where :: jstr
  ew_count :: jstr
  ew_last :: jstr
  ew_dim :: bool
  ew_button :: jstr

definition errors_row_of :: "rat \<Rightarrow> nat \<Rightarrow> err_signature \<Rightarrow> errors_row" where
  "errors_row_of now i g =
     \<lparr>ew_index = padStart 2 0x30 (dec_nat (i + 1)), ew_sample = es_sample g,
      ew_source = nullish (es_source g) em_dash,
      ew_where = es_agent g @ js '' / '' @ es_proc g @
        (if length (es_affected g) > 1
         then js '' '' @ middle_dot @ js '' '' @ dec_nat (length (es_affected g)) @ js '' procs'' else []),
      ew_count = dec_int (es_count g), ew_last = relativeTime (es_last_unix g) now,
      ew_dim = es_acknowledged g,
      ew_button = (if es_acknowledged g then js ''acked'' else js ''ack'')\<rparr>"

definition errors_rows :: "rat \<Rightarrow> errors_page \<Rightarrow> errors_row list" where
  "errors_rows now s =
     (case ep_data s of None \<Rightarrow> [] | Some d \<Rightarrow> map (\<lambda>(i, g). errors_row_of now i g) (enumerate 0 (er_signatures d)))"

section \<open>Events\<close>

datatype errors_event =
    ErrorsAnswered nat "errors_response fetched" | ChangeRange err_range | ClickAck nat | AckAnswered nat "unit fetched"
  | ClickAckAll | AllAnswered "unit fetched" | LeaveErrors

fun errors_step :: "errors_page \<Rightarrow> errors_event \<Rightarrow> errors_page" where
  "errors_step s (ErrorsAnswered j f) = errors_loaded j f s"
| "errors_step s (ChangeRange r) = change_range r s"
| "errors_step s (ClickAck i) =
     (case ep_data s of None \<Rightarrow> s
      | Some d \<Rightarrow> if i < length (er_signatures d) then onAck (er_signatures d ! i) s else s)"
| "errors_step s (AckAnswered k f) = ack_answered k f s"
| "errors_step s ClickAckAll = onAckAll s"
| "errors_step s (AllAnswered f) = all_answered f s"
| "errors_step s LeaveErrors = s\<lparr>ep_polls := poll_cleanup (ep_polls s)\<rparr>"

text \<open>The answer an event puts on the page, with its run of the effect.\<close>

fun errors_takes :: "errors_page \<Rightarrow> errors_event \<Rightarrow> (nat \<times> errors_response option) option" where
  "errors_takes s (ErrorsAnswered j f) =
     (case poll_take j (ep_polls s) of
        None \<Rightarrow> None
      | Some (i, _, p) \<Rightarrow> if poll_stopped i p then None
          else case reply f getErrors_res of Inl _ \<Rightarrow> None | Inr d \<Rightarrow> Some (i, Some d))"
| "errors_takes s _ = None"

section \<open>The invariant\<close>

text \<open>
  The newest request asks for the range and tick shown, earlier runs are stopped, and the page
  is acknowledging all exactly while answers are awaited.
\<close>

definition errors_ok :: "errors_page \<Rightarrow> bool" where
  "errors_ok s \<longleftrightarrow> polls_ok (ep_polls s) \<and> pl_runs (ep_polls s) \<noteq> [] \<and>
     ef_key (last (pl_runs (ep_polls s))) = (ep_range s, ep_tick s) \<and> (ep_acking s \<longleftrightarrow> 0 < ep_all s)"

lemma load_ok:
  "polls_ok (ep_polls s) \<Longrightarrow> (ep_acking s \<longleftrightarrow> 0 < ep_all s) \<Longrightarrow> errors_ok (load_errors s)"
  by (simp add: errors_ok_def load_errors_def polls_ok_start poll_start_runs)

lemma reload_ok: "errors_ok s \<Longrightarrow> errors_ok (reload_errors s)"
  unfolding reload_errors_def using load_ok [of "s\<lparr>ep_tick := ep_tick s + 1\<rparr>"] by (simp add: errors_ok_def)

lemma errors_mount_ok: "errors_ok errors_mount"
  unfolding errors_mount_def by (rule load_ok) simp_all

lemma errors_loaded_ok: "errors_ok s \<Longrightarrow> errors_ok (errors_loaded j f s)"
  by (auto simp: errors_loaded_def errors_ok_def Let_def poll_take_ok split: option.splits sum.splits)

lemma ack_answered_ok: "errors_ok s \<Longrightarrow> errors_ok (ack_answered k f s)"
proof -
  assume s: "errors_ok s"
  let ?d = "s\<lparr>ep_acks := take k (ep_acks s) @ drop (Suc k) (ep_acks s)\<rparr>"
  have "errors_ok ?d" using s by (simp add: errors_ok_def)
  with s show ?thesis using reload_ok [of ?d] by (simp add: ack_answered_def Let_def split: sum.split)
qed

lemma all_answered_ok: "errors_ok s \<Longrightarrow> errors_ok (all_answered f s)"
proof -
  assume s: "errors_ok s"
  have "errors_ok (reload_errors (s\<lparr>ep_all := 0, ep_acking := False\<rparr>))"
    by (rule reload_ok) (use s in \<open>simp_all add: errors_ok_def\<close>)
  then show ?thesis using s by (auto simp: all_answered_def errors_ok_def)
qed

lemma errors_step_ok: "errors_ok s \<Longrightarrow> errors_ok (errors_step s e)"
proof (cases e)
  case (ChangeRange r)
  assume s: "errors_ok s"
  have "errors_ok (load_errors (s\<lparr>ep_range := r\<rparr>))"
    by (rule load_ok) (use s in \<open>simp_all add: errors_ok_def\<close>)
  with s ChangeRange show ?thesis by (simp add: change_range_def)
next
  case (ClickAck i)
  assume "errors_ok s"
  moreover have "errors_ok s \<Longrightarrow> errors_ok (onAck g s)" for g by (simp add: errors_ok_def onAck_def)
  ultimately show ?thesis using ClickAck by (simp split: option.split)
next
  case LeaveErrors
  assume "errors_ok s"
  with LeaveErrors show ?thesis by (simp add: errors_ok_def polls_ok_cleanup poll_cleanup_last)
next
  case ClickAckAll
  assume "errors_ok s"
  with ClickAckAll show ?thesis by (simp add: onAckAll_def errors_ok_def)
qed (simp_all add: errors_loaded_ok ack_answered_ok all_answered_ok)

lemma errors_run_ok: "errors_ok s \<Longrightarrow> errors_ok (foldl errors_step s es)"
  by (induction es arbitrary: s) (simp_all add: errors_step_ok)

lemma errors_runs_step: "length (pl_runs (ep_polls s)) \<le> length (pl_runs (ep_polls (errors_step s e)))"
  by (cases e) (auto simp: errors_loaded_def change_range_def load_errors_def reload_errors_def onAck_def onAckAll_def
      ack_answered_def all_answered_def Let_def poll_take_def split: option.splits sum.splits if_splits)

text \<open>The loading effect of the page.\<close>

interpretation errors_poll: guarded_poll errors_ok errors_step "\<lambda>s. length (pl_runs (ep_polls s))" errors_takes ep_data
proof (unfold_locales, goal_cases)
  case (1 s e)
  then show ?case by (rule errors_step_ok)
next
  case (2 s e)
  show ?case by (rule errors_runs_step)
next
  case (3 s e i d)
  then have "\<exists>j p. poll_take j (ep_polls s) = Some (i, (), p) \<and> \<not> poll_stopped i p"
    by (cases e) (auto split: option.splits if_splits sum.splits, blast)
  then obtain j p where "poll_take j (ep_polls s) = Some (i, (), p)" "\<not> poll_stopped i p" by blast
  then show ?case
    using 3(1) poll_take_ok [of "ep_polls s" j i "()" p] live_is_last [of p i] by (simp add: errors_ok_def)
next
  case (4 s e)
  show ?case
    by (cases e) (auto simp: errors_loaded_def change_range_def load_errors_def reload_errors_def onAck_def
        onAckAll_def ack_answered_def all_answered_def Let_def split: option.splits sum.splits)
qed

text \<open>The page is mounted with a live run and left with none; it never logs out.\<close>

lemmas errors_ops = errors_loaded_def change_range_def load_errors_def reload_errors_def onAck_def onAckAll_def
  ack_answered_def all_answered_def

interpretation errors_mounted: mounted_page errors_step LeaveErrors "\<lambda>s. polls_live (ep_polls s)" "\<lambda>s. polls_idle (ep_polls s)"
    "\<lambda>_. 0"
proof (unfold_locales, goal_cases)
  case (1 s e)
  then show ?case
    by (cases e) (auto simp: errors_ops Let_def polls_live_ok dest: polls_live_take split: option.split sum.split)
next
  case (2 s)
  then show ?case by (simp add: polls_idle_cleanup polls_live_ok)
next
  case (3 s e)
  then show ?case
    by (cases e) (auto simp: errors_ops Let_def polls_idle_not_running polls_idle_ok polls_idle_cleanup
        dest: polls_idle_take split: option.split sum.split)
qed

section \<open>Acknowledging\<close>

fun all_event :: "errors_event \<Rightarrow> bool" where
  "all_event (AllAnswered _) = True"
| "all_event _ = False"

lemma acking_kept:
  assumes "errors_ok s" "ep_acking s" "\<not> all_event e"
  shows "ep_acking (errors_step s e) \<and> ep_all (errors_step s e) = ep_all s"
  using assms
  by (cases e) (auto simp: errors_loaded_def change_range_def load_errors_def reload_errors_def onAck_def
      onAckAll_def ack_answered_def Let_def split: option.splits sum.splits)

lemma acking_run:
  assumes "errors_ok s" "ep_acking s" "list_all (\<lambda>e. \<not> all_event e) es"
  shows "ep_acking (foldl errors_step s es) \<and> ep_all (foldl errors_step s es) = ep_all s"
  using assms
proof (induction es arbitrary: s)
  case (Cons e es)
  then show ?case using acking_kept [of s e] errors_step_ok [of s e] Cons.IH [of "errors_step s e"] by simp
qed simp

lemma all_successes:
  assumes "ep_all s = Suc n"
  shows "foldl errors_step s (replicate (Suc n) (AllAnswered (Response (empty_response 200)))) =
    reload_errors (s\<lparr>ep_all := 0, ep_acking := False\<rparr>)"
  using assms
proof (induction n arbitrary: s)
  case 0
  then show ?case by (simp add: all_answered_def ackError_res_def)
next
  case (Suc n)
  have "errors_step s (AllAnswered (Response (empty_response 200))) = s\<lparr>ep_all := Suc n\<rparr>"
    using Suc.prems by (simp add: all_answered_def ackError_res_def resp_ok_def)
  then show ?case using Suc.IH [of "s\<lparr>ep_all := Suc n\<rparr>"] by (simp add: replicate_Suc)
qed

lemma mostRecentSig_max:
  "mostRecentSig d = Some g \<Longrightarrow> g \<in> set (er_signatures d) \<and> (\<forall>h \<in> set (er_signatures d). es_last_unix h \<le> es_last_unix g)"
proof -
  let ?f = "\<lambda>best s. case best of None \<Rightarrow> Some s | Some b \<Rightarrow> if es_last_unix s > es_last_unix b then Some s else best"
  have "foldl ?f None xs = Some g \<Longrightarrow> g \<in> set xs \<and> (\<forall>h \<in> set xs. es_last_unix h \<le> es_last_unix g)" for xs
  proof (induction xs arbitrary: g rule: rev_induct)
    case (snoc x xs)
    show ?case
    proof (cases "foldl ?f None xs")
      case None
      then have "xs = []" by (cases xs rule: rev_cases) (auto split: option.splits if_splits)
      then show ?thesis using snoc.prems by simp
    next
      case (Some b)
      then show ?thesis using snoc.IH [OF Some] snoc.prems by (force split: if_splits)
    qed
  qed simp
  then show "mostRecentSig d = Some g \<Longrightarrow> g \<in> set (er_signatures d) \<and> (\<forall>h \<in> set (er_signatures d). es_last_unix h \<le> es_last_unix g)"
    unfolding mostRecentSig_def .
qed

section \<open>Properties\<close>

text \<open>The errors page never goes back to an older selection: whatever order the answers come
  in, those put on the page belong to runs of the loading effect in increasing order, the data
  shown is the last of them, and the newest request asks for the range selected.\<close>

lemma errors_newest:
  "let s = foldl errors_step errors_mount es; ts = taken_by errors_takes errors_step errors_mount es
   in sorted (map fst ts) \<and> ep_data s = (if ts = [] then None else snd (last ts)) \<and>
      fst (ef_key (last (pl_runs (ep_polls s)))) = ep_range s"
proof -
  have "ep_data errors_mount = None" by (simp add: errors_mount_def load_errors_def)
  then show ?thesis
    using errors_poll.newest_shown [OF errors_mount_ok, of es] errors_run_ok [OF errors_mount_ok, of es]
    by (simp add: Let_def errors_ok_def)
qed

text \<open>C33. Acknowledging all sends one acknowledgement for each unacknowledged signature shown, in
  their order and nothing else; until its answers are in, the button stays disabled and a
  further click sends nothing, whatever else happens; and when every answer is a success, or
  as soon as one fails, the button is free again and the list is loaded anew.\<close>

theorem ack_all_settles:
  assumes "errors_ok s" "poll_running (ep_polls s)" "ep_data s = Some d" "\<not> ep_acking s" "unacked s \<noteq> []"
  shows "let t = errors_step s ClickAckAll; n = length (unacked s);
      done_ok = foldl errors_step t (replicate n (AllAnswered (Response (empty_response 200))));
      done_bad = errors_step t (AllAnswered (NetworkError err))
    in ep_sent t = ep_sent s @ map (\<lambda>g. (es_id g, True)) (filter (\<lambda>g. \<not> es_acknowledged g) (er_signatures d)) \<and>
       \<not> (\<exists>es. list_all (\<lambda>e. \<not> all_event e) es \<and>
            (\<not> ev_ack_all_disabled (errors_view_of now (foldl errors_step t es)) \<or>
             errors_step (foldl errors_step t es) ClickAckAll \<noteq> foldl errors_step t es)) \<and>
       (\<forall>u \<in> {done_ok, done_bad}. \<not> ep_acking u \<and>
          length (pl_runs (ep_polls u)) = Suc (length (pl_runs (ep_polls t))) \<and>
          fst (ef_key (last (pl_runs (ep_polls u)))) = ep_range s)"
proof -
  define t where "t = errors_step s ClickAckAll"
  let ?n = "length (unacked s)" and ?u = "reload_errors (t\<lparr>ep_all := 0, ep_acking := False\<rparr>)"
  have te: "t = s\<lparr>ep_acking := True, ep_all := ?n, ep_sent := ep_sent s @ map (\<lambda>g. (es_id g, True)) (unacked s)\<rparr>"
    using assms(4,5) by (simp add: onAckAll_def t_def)
  have tf: "ep_acking t" "ep_all t = ?n" "ep_range t = ep_range s" "poll_running (ep_polls t)"
    using assms(2) by (simp_all add: te)
  obtain m where m: "?n = Suc m" using assms(5) by (cases "unacked s") auto
  have ok: "errors_ok t" unfolding t_def by (rule errors_step_ok [OF assms(1)])
  have sent: "ep_sent t = ep_sent s @ map (\<lambda>g. (es_id g, True)) (filter (\<lambda>g. \<not> es_acknowledged g) (er_signatures d))"
    by (simp add: te unacked_def assms(3))
  have busy: "ev_ack_all_disabled (errors_view_of now (foldl errors_step t es)) \<and>
      errors_step (foldl errors_step t es) ClickAckAll = foldl errors_step t es"
    if "list_all (\<lambda>e. \<not> all_event e) es" for es
    using acking_run [OF ok tf(1) that] by (simp add: errors_view_of_def Let_def onAckAll_def)
  have good: "foldl errors_step t (replicate ?n (AllAnswered (Response (empty_response 200)))) = ?u"
    unfolding m by (rule all_successes) (simp add: tf m)
  have bad: "errors_step t (AllAnswered (NetworkError err)) = ?u"
    by (simp add: tf m all_answered_def)
  have u: "\<not> ep_acking ?u" "length (pl_runs (ep_polls ?u)) = Suc (length (pl_runs (ep_polls t)))"
    "fst (ef_key (last (pl_runs (ep_polls ?u)))) = ep_range s"
    by (simp_all add: reload_errors_def load_errors_def poll_start_runs tf)
  show ?thesis unfolding Let_def t_def [symmetric] good bad using sent busy u by blast
qed

text \<open>A page with one signature to acknowledge.\<close>

definition sample_errors :: errors_response where
  "sample_errors =
     \<lparr>er_range = js ''24h'', er_since = 0, er_now = 0,
      er_cluster = \<lparr>ec_errors = 3, ec_signatures = 1, ec_unacknowledged = 1, ec_affected_procs = 1, ec_last_error_unix = 0\<rparr>,
      er_signatures = [\<lparr>es_id = js ''a1'', es_sample = js ''boom'', es_source = None, es_agent = js ''dev'', es_proc = js ''web'',
        es_affected = [], es_count = 3, es_first_unix = 0, es_last_unix = 0, es_buckets = [], es_acknowledged = False\<rparr>],
      er_truncated = False\<rparr>"

lemma sample_page:
  "let s = errors_mount\<lparr>ep_data := Some sample_errors\<rparr>
   in errors_ok s \<and> poll_running (ep_polls s) \<and> ep_data s = Some sample_errors \<and> \<not> ep_acking s \<and> unacked s \<noteq> []"
  using errors_mount_ok
  by (simp add: errors_ok_def unacked_def sample_errors_def errors_mount_def load_errors_def poll_running_def poll_start_runs)

theorem ack_all_settles_witness:
  "let s = errors_mount\<lparr>ep_data := Some sample_errors\<rparr> in ep_sent (errors_step s ClickAckAll) = ep_sent s @ [(js ''a1'', True)]"
  using sample_page ack_all_settles [of "errors_mount\<lparr>ep_data := Some sample_errors\<rparr>" sample_errors]
  by (simp add: Let_def sample_errors_def)

text \<open>A range whose load fails shows the figures of the range left: from a page with data, after
  switching to another range whose request fails, the heading names the new range while the
  counts and rows are those of the old one.\<close>

lemma errors_mislabelled:
  assumes "poll_running (ep_polls s)" "ep_data s = Some d" "r \<noteq> ep_range s"
  shows "let t = foldl errors_step s [ChangeRange r, ErrorsAnswered (length (pl_flight (ep_polls s))) (NetworkError e)];
             v = errors_view_of now t
    in ev_title v = js ''Errors '' @ range_text r \<and> ev_sub v = rangeLabel r \<and>
       ev_errors v = ev_errors (errors_view_of now s) \<and> errors_rows now t = errors_rows now s \<and> \<not> ev_loading v"
proof -
  let ?l = "errors_step s (ChangeRange r)"
  have l: "?l = load_errors (s\<lparr>ep_range := r\<rparr>)" using assms(1,3) by (simp add: change_range_def)
  then have f: "ep_data ?l = Some d" "ep_range ?l = r" by (simp_all add: load_errors_def assms(2))
  have keep: "ep_data (errors_loaded j (NetworkError e) u) = ep_data u \<and> ep_range (errors_loaded j (NetworkError e) u) = ep_range u"
    for j u by (simp add: errors_loaded_def Let_def split: option.split)
  show ?thesis
    using keep [of "length (pl_flight (ep_polls s))" ?l] f assms(2)
    by (simp add: Let_def errors_view_of_def errors_rows_def del: errors_step.simps(2))
qed

end
