(* ===== verification/ProcessDetail.thy ===== *)
theory ProcessDetail imports Api Polling Format Router Charts Ledger begin

text \<open>
  The page of one process (web/src/ProcessDetail.tsx): its three polling effects with the
  requests in flight (the fleet followed by the error counts, the metrics, the recent logs),
  the controls, and what the page derives from its state. The page is not mounted anew when
  the route moves from one process to another: only its effects run again.
\<close>

section \<open>State\<close>

record shown_proc =
  sp_state :: jstr
  sp_pid :: int
  sp_uptime_ms :: int
  sp_restarts :: int
  sp_restarts_24h :: int
  sp_cpu :: rat
  sp_mem :: int
  sp_threads :: int
  sp_open_fds :: int
  sp_source :: "source_kind option"
  sp_credential :: "jstr option"
  sp_detail :: "jstr option"

definition shown_of :: "proc \<Rightarrow> shown_proc" where
  "shown_of p =
     \<lparr>sp_state = p_state p, sp_pid = p_pid p, sp_uptime_ms = p_uptime_ms p, sp_restarts = p_restarts p,
      sp_restarts_24h = p_restarts_24h p, sp_cpu = p_cpu p, sp_mem = p_mem p, sp_threads = p_threads p,
      sp_open_fds = p_open_fds p, sp_source = p_source p, sp_credential = p_credential p, sp_detail = p_detail p\<rparr>"

definition WINDOWS :: "(jstr \<times> int) list" where
  "WINDOWS = [(js ''15m'', 15 * 60 * 1000), (js ''1h'', 60 * 60 * 1000), (js ''6h'', 6 * 60 * 60 * 1000)]"

definition RECENT_CAP :: nat where
  "RECENT_CAP = 5000"

datatype subview = SubOver | SubFiles

text \<open>The closure variables of a run of the log effect.\<close>

record log_local =
  ll_cursor :: int
  ll_first :: bool

text \<open>
  The props, the state hooks, the effects, the runs awaiting error counts (the second request
  of a fleet tick), the control requests sent and the calls of \<open>onLogout\<close>.
\<close>

record detail_page =
  dp_agent :: jstr
  dp_proc :: jstr
  dp_p :: "shown_proc option"
  dp_connected :: bool
  dp_errCount :: int
  dp_window :: int
  dp_detail :: "bucket list"
  dp_lines :: "log_line list"
  dp_sub :: subview
  dp_live :: bool
  dp_fleet :: "(jstr \<times> jstr, unit, unit) polls"
  dp_stats :: "nat list"
  dp_metrics :: "(jstr \<times> jstr \<times> int, unit, unit) polls"
  dp_logs :: "(jstr \<times> jstr, log_local, int) polls"
  dp_sent :: "(jstr \<times> jstr \<times> control_action) list"
  dp_logouts :: nat

section \<open>Effects\<close>

definition start_fleet :: "detail_page \<Rightarrow> detail_page" where
  "start_fleet s = s\<lparr>dp_fleet := poll_start (dp_agent s, dp_proc s) () () (dp_fleet s)\<rparr>"

definition start_metrics :: "detail_page \<Rightarrow> detail_page" where
  "start_metrics s = s\<lparr>dp_metrics := poll_start (dp_agent s, dp_proc s, dp_window s) () () (dp_metrics s)\<rparr>"

definition start_logs :: "detail_page \<Rightarrow> detail_page" where
  "start_logs s =
     s\<lparr>dp_lines := [],
       dp_logs := poll_start (dp_agent s, dp_proc s) \<lparr>ll_cursor = 0, ll_first = True\<rparr> 0 (dp_logs s)\<rparr>"

definition detail_mount :: "jstr \<Rightarrow> jstr \<Rightarrow> detail_page" where
  "detail_mount agent proc =
     start_logs (start_metrics (start_fleet
       \<lparr>dp_agent = agent, dp_proc = proc, dp_p = None, dp_connected = False, dp_errCount = 0,
        dp_window = snd (hd WINDOWS), dp_detail = [], dp_lines = [], dp_sub = SubOver, dp_live = False,
        dp_fleet = no_polls, dp_stats = [], dp_metrics = no_polls, dp_logs = no_polls, dp_sent = [],
        dp_logouts = 0\<rparr>))"

text \<open>
  New props. \<open>onLogout\<close> is a new function whenever the app renders, so the fleet effect, which
  depends on it, runs again even when the process is the same. While the page is mounted the
  last run of that effect is live; once it has been left no props or state change any more.
\<close>

definition detail_props :: "jstr \<Rightarrow> jstr \<Rightarrow> detail_page \<Rightarrow> detail_page" where
  "detail_props agent proc s =
     (let moved = (agent \<noteq> dp_agent s \<or> proc \<noteq> dp_proc s);
          t = start_fleet (s\<lparr>dp_agent := agent, dp_proc := proc\<rparr>)
      in if \<not> poll_running (dp_fleet s) then s
         else if moved then start_logs (start_metrics t) else t)"

definition set_window :: "int \<Rightarrow> detail_page \<Rightarrow> detail_page" where
  "set_window w s =
     (if w = dp_window s \<or> \<not> poll_running (dp_fleet s) then s else start_metrics (s\<lparr>dp_window := w\<rparr>))"

definition detail_leave :: "detail_page \<Rightarrow> detail_page" where
  "detail_leave s =
     s\<lparr>dp_fleet := poll_cleanup (dp_fleet s), dp_metrics := poll_cleanup (dp_metrics s), dp_logs := poll_cleanup (dp_logs s)\<rparr>"

text \<open>The interval of the log effect asks for what follows the cursor of its run.\<close>

definition logs_tick :: "detail_page \<Rightarrow> detail_page" where
  "logs_tick s =
     (if poll_running (dp_logs s)
      then let l = ef_local (last (pl_runs (dp_logs s)))
           in s\<lparr>dp_logs := poll_tick (if ll_first l then 0 else ll_cursor l) (dp_logs s)\<rparr>
      else s)"

section \<open>Answers\<close>

text \<open>
  The first half of a fleet tick. An error of any kind logs out, unless the run was stopped;
  otherwise the error counts of the agent are asked for, if its name can be encoded.
\<close>

definition find_proc :: "jstr \<Rightarrow> jstr \<Rightarrow> agent list \<Rightarrow> proc option" where
  "find_proc agent proc agents =
     Option.bind (find_first (\<lambda>x. a_name x = agent) agents) (\<lambda>a. find_first (\<lambda>x. p_name x = proc) (a_procs a))"

definition is_connected :: "jstr \<Rightarrow> agent list \<Rightarrow> bool" where
  "is_connected agent agents = nullish (map_option a_connected (find_first (\<lambda>x. a_name x = agent) agents)) False"

definition fleet_answered :: "nat \<Rightarrow> agent list fetched \<Rightarrow> detail_page \<Rightarrow> detail_page" where
  "fleet_answered j f s =
     (case poll_take j (dp_fleet s) of
        None \<Rightarrow> s
      | Some (i, _, p) \<Rightarrow>
          let s' = s\<lparr>dp_fleet := p\<rparr>; agent = fst (ef_key (pl_runs p ! i)); proc = snd (ef_key (pl_runs p ! i))
          in case reply f getFleet_res of
               Inl _ \<Rightarrow> if poll_stopped i p then s' else s'\<lparr>dp_logouts := dp_logouts s' + 1\<rparr>
             | Inr agents \<Rightarrow>
                 if poll_stopped i p then s'
                 else let u = s'\<lparr>dp_connected := is_connected agent agents,
                                 dp_p := map_option shown_of (find_proc agent proc agents)\<rparr>
                      in (case getLogStats_req agent of
                            Inl _ \<Rightarrow> u
                          | Inr _ \<Rightarrow> u\<lparr>dp_stats := dp_stats u @ [i]\<rparr>))"

text \<open>The error lines of a process over the labels of its instances.\<close>

definition count_label :: "jstr \<Rightarrow> jstr \<Rightarrow> bool" where
  "count_label proc label \<longleftrightarrow> label = proc \<or> startsWith label (proc @ js ''#'')"

definition count_errors :: "jstr \<Rightarrow> (jstr \<times> int) list \<Rightarrow> int" where
  "count_errors proc counts =
     foldl (\<lambda>n (label, c). if count_label proc label then n + c else n) 0 counts"

definition stats_answered :: "nat \<Rightarrow> (jstr \<times> int) list option fetched \<Rightarrow> detail_page \<Rightarrow> detail_page" where
  "stats_answered k f s =
     (if k < length (dp_stats s)
      then let i = dp_stats s ! k; s' = s\<lparr>dp_stats := take k (dp_stats s) @ drop (Suc k) (dp_stats s)\<rparr>
           in case reply f getLogStats_res of
                Inl _ \<Rightarrow> s'
              | Inr counts \<Rightarrow>
                  if poll_stopped i (dp_fleet s) then s'
                  else s'\<lparr>dp_errCount := count_errors (snd (ef_key (pl_runs (dp_fleet s) ! i))) counts\<rparr>
      else s)"

text \<open>\<open>data[0]?.procs[0]?.buckets ?? []\<close>\<close>

definition first_buckets :: "agent_metrics list \<Rightarrow> bucket list" where
  "first_buckets data =
     (case data of [] \<Rightarrow> [] | a # _ \<Rightarrow> (case am_procs a of [] \<Rightarrow> [] | p # _ \<Rightarrow> pm_buckets p))"

definition metrics_answered :: "nat \<Rightarrow> agent_metrics list fetched \<Rightarrow> detail_page \<Rightarrow> detail_page" where
  "metrics_answered j f s =
     (case poll_take j (dp_metrics s) of
        None \<Rightarrow> s
      | Some (i, _, p) \<Rightarrow>
          let s' = s\<lparr>dp_metrics := p\<rparr>
          in case reply f getMetricsForProc_res of
               Inl _ \<Rightarrow> s'
             | Inr d \<Rightarrow> if poll_stopped i p then s' else s'\<lparr>dp_detail := first_buckets d\<rparr>)"

definition logs_answered :: "nat \<Rightarrow> logs_response fetched \<Rightarrow> detail_page \<Rightarrow> detail_page" where
  "logs_answered j f s =
     (case poll_take j (dp_logs s) of
        None \<Rightarrow> s
      | Some (i, _, p) \<Rightarrow>
          let s' = s\<lparr>dp_logs := p\<rparr>
          in case reply f getLogs_res of
               Inl _ \<Rightarrow> s'
             | Inr res \<Rightarrow>
                 if poll_stopped i p then s'
                 else let c = (if lr_cursor res \<noteq> 0 then lr_cursor res else ll_cursor (ef_local (pl_runs p ! i)))
                      in s'\<lparr>dp_logs := poll_local i \<lparr>ll_cursor = c, ll_first = False\<rparr> p,
                            dp_lines := (if 0 < length (lr_lines res)
                              then keep_last RECENT_CAP (dp_lines s' @ lr_lines res) else dp_lines s')\<rparr>)"

section \<open>Controls\<close>

datatype detail_button = BtnRestart | BtnReload bool | BtnStop

text \<open>
  The header buttons, disabled while the agent is offline. Reload asks with
  \<open>window.confirm\<close>, whose answer is part of the click; the other two act at once. The result
  of the request is not looked at.
\<close>

definition doControl :: "control_action \<Rightarrow> detail_page \<Rightarrow> detail_page" where
  "doControl a s = s\<lparr>dp_sent := dp_sent s @ [(dp_agent s, dp_proc s, a)]\<rparr>"

definition detail_click :: "detail_button \<Rightarrow> detail_page \<Rightarrow> detail_page" where
  "detail_click b s =
     (if \<not> dp_connected s then s
      else case b of
             BtnRestart \<Rightarrow> doControl Restart s
           | BtnReload yes \<Rightarrow> if yes then doControl Reload s else s
           | BtnStop \<Rightarrow> doControl Stop s)"

section \<open>What is shown\<close>

definition peak :: "(bucket \<Rightarrow> rat) \<Rightarrow> bucket list \<Rightarrow> rat option" where
  "peak f bs = (if bs = [] then None else Some (Max (set (map f bs))))"

definition windowLabel :: "int \<Rightarrow> jstr" where
  "windowLabel w = nullish (map_option fst (find_first (\<lambda>x. snd x = w) WINDOWS)) []"

definition headerMeta :: "shown_proc option \<Rightarrow> jstr" where
  "headerMeta p =
     (let parts = (case p of None \<Rightarrow> []
        | Some q \<Rightarrow> (if sp_pid q \<noteq> 0 then [js ''pid '' @ dec_int (sp_pid q)] else []) @
            (if nullish (sp_detail q) [] \<noteq> [] then [nullish (sp_detail q) []] else []))
      in join (js '' '' @ middle_dot @ js '' '')
           ((case p of None \<Rightarrow> em_dash | Some q \<Rightarrow> sp_state q) # parts))"

definition uptimeSec :: "rat \<Rightarrow> shown_proc option \<Rightarrow> int" where
  "uptimeSec nowSec p =
     (case p of None \<Rightarrow> 0
      | Some q \<Rightarrow> if sp_uptime_ms q > 0 then \<lfloor>nowSec - of_int (sp_uptime_ms q) / 1000\<rfloor> else 0)"

text \<open>The cells; \<open>date\<close> is the browser's short date of a time in milliseconds.\<close>

definition detail_cells :: "(int \<Rightarrow> jstr) \<Rightarrow> rat \<Rightarrow> detail_page \<Rightarrow> cell list" where
  "detail_cells date nowSec s =
     (let p = dp_p s; up = uptimeSec nowSec p
      in [Cell (js ''CPU'') (case p of None \<Rightarrow> em_dash | Some q \<Rightarrow> toFixed 1 (sp_cpu q)) (Some (js ''%''))
            (Some (case peak cpu_max (dp_detail s) of None \<Rightarrow> []
               | Some x \<Rightarrow> js ''peak '' @ toFixed 1 x @ js ''% '' @ middle_dot @ js '' '' @ windowLabel (dp_window s)))
            (Some Teal),
          Cell (js ''Memory'') (case p of None \<Rightarrow> em_dash | Some q \<Rightarrow> mib (of_int (sp_mem q))) (Some (js ''MB''))
            (Some (case peak mem_max (dp_detail s) of None \<Rightarrow> []
               | Some x \<Rightarrow> js ''peak '' @ dec_int (Math_round (x / 1048576)) @ js '' MB''))
            (Some Indigo),
          Cell (js ''Uptime'') (if up > 0 then relativeTime up nowSec else em_dash) None
            (Some (if up > 0 then js ''since '' @ formatDateShort date up else [])) (Some Olive),
          Cell (js ''Restarts'') (case p of None \<Rightarrow> em_dash | Some q \<Rightarrow> dec_int (sp_restarts q)) None
            (Some (case p of None \<Rightarrow> js ''stable''
               | Some q \<Rightarrow> if sp_restarts_24h q > 0 then dec_int (sp_restarts_24h q) @ js '' in 24h'' else js ''stable''))
            (Some Amber),
          Cell (js ''Errors 5m'') (dec_int (dp_errCount s)) None (Some []) (Some Rose),
          Cell (js ''Threads'') (case p of None \<Rightarrow> em_dash | Some q \<Rightarrow> dec_int (sp_threads q)) None
            (Some (case p of None \<Rightarrow> []
               | Some q \<Rightarrow> js ''fds '' @ (if sp_open_fds q = -1 then em_dash else dec_int (sp_open_fds q))))
            (Some Sky)])"

definition recent_lines :: "detail_page \<Rightarrow> log_line list" where
  "recent_lines s = keep_last 8 (dp_lines s)"

definition showFiles :: "detail_page \<Rightarrow> bool" where
  "showFiles s \<longleftrightarrow> (\<exists>q \<in> set_option (dp_p s). sp_source q = Some SrcGit)"

definition offline_reason :: "detail_page \<Rightarrow> jstr option" where
  "offline_reason s = (if dp_connected s then None else Some (js ''Agent offline''))"

definition subtab_class :: "detail_page \<Rightarrow> subview \<Rightarrow> jstr" where
  "subtab_class s v = js ''subtab'' @ (if dp_sub s = v then js '' on'' else [])"

text \<open>The body of the page: the overview, or the file browser with its agent, app and credential.\<close>

datatype detail_body = OverBody | FilesBody jstr jstr "jstr option" | EmptyBody

definition detail_body_of :: "detail_page \<Rightarrow> detail_body" where
  "detail_body_of s =
     (if dp_sub s = SubOver then OverBody
      else if showFiles s then FilesBody (dp_agent s) (dp_proc s) (Option.bind (dp_p s) sp_credential)
      else EmptyBody)"

section \<open>Events\<close>

datatype detail_event =
    Props jstr jstr | SetWindow int | FleetTick | MetricsTick | LogsTick
  | FleetAnswered nat "agent list fetched" | StatsAnswered nat "(jstr \<times> int) list option fetched"
  | MetricsAnswered nat "agent_metrics list fetched" | LogsAnswered nat "logs_response fetched"
  | Press detail_button | OpenSub subview | ShowLive bool | LeaveDetail

fun detail_step :: "detail_page \<Rightarrow> detail_event \<Rightarrow> detail_page" where
  "detail_step s (Props a p) = detail_props a p s"
| "detail_step s (SetWindow w) = set_window w s"
| "detail_step s FleetTick = s\<lparr>dp_fleet := poll_tick () (dp_fleet s)\<rparr>"
| "detail_step s MetricsTick = s\<lparr>dp_metrics := poll_tick () (dp_metrics s)\<rparr>"
| "detail_step s LogsTick = logs_tick s"
| "detail_step s (FleetAnswered j f) = fleet_answered j f s"
| "detail_step s (StatsAnswered k f) = stats_answered k f s"
| "detail_step s (MetricsAnswered j f) = metrics_answered j f s"
| "detail_step s (LogsAnswered j f) = logs_answered j f s"
| "detail_step s (Press b) = detail_click b s"
| "detail_step s (OpenSub v) = (if v = SubFiles \<and> \<not> showFiles s then s else s\<lparr>dp_sub := v\<rparr>)"
| "detail_step s (ShowLive b) = s\<lparr>dp_live := b\<rparr>"
| "detail_step s LeaveDetail = detail_leave s"

text \<open>The answers an event puts on the page, with their run of the fleet and of the metrics effect.\<close>

fun fleet_takes :: "detail_page \<Rightarrow> detail_event \<Rightarrow> (nat \<times> bool \<times> shown_proc option) option" where
  "fleet_takes s (FleetAnswered j f) =
     (case poll_take j (dp_fleet s) of
        None \<Rightarrow> None
      | Some (i, _, p) \<Rightarrow> if poll_stopped i p then None
          else case reply f getFleet_res of
                 Inl _ \<Rightarrow> None
               | Inr agents \<Rightarrow> let agent = fst (ef_key (pl_runs p ! i)); proc = snd (ef_key (pl_runs p ! i))
                   in Some (i, is_connected agent agents, map_option shown_of (find_proc agent proc agents)))"
| "fleet_takes s _ = None"

fun metrics_takes :: "detail_page \<Rightarrow> detail_event \<Rightarrow> (nat \<times> bucket list) option" where
  "metrics_takes s (MetricsAnswered j f) =
     (case poll_take j (dp_metrics s) of
        None \<Rightarrow> None
      | Some (i, _, p) \<Rightarrow> if poll_stopped i p then None
          else case reply f getMetricsForProc_res of Inl _ \<Rightarrow> None | Inr d \<Rightarrow> Some (i, first_buckets d))"
| "metrics_takes s _ = None"

section \<open>What each operation keeps\<close>

lemma started_simps [simp]:
  "dp_metrics (start_fleet s) = dp_metrics s" "dp_logs (start_fleet s) = dp_logs s" "dp_p (start_fleet s) = dp_p s"
  "dp_connected (start_fleet s) = dp_connected s" "dp_detail (start_fleet s) = dp_detail s" "dp_lines (start_fleet s) = dp_lines s"
  "dp_agent (start_fleet s) = dp_agent s" "dp_proc (start_fleet s) = dp_proc s" "dp_errCount (start_fleet s) = dp_errCount s"
  "dp_window (start_fleet s) = dp_window s"
  "dp_fleet (start_metrics s) = dp_fleet s" "dp_logs (start_metrics s) = dp_logs s" "dp_p (start_metrics s) = dp_p s"
  "dp_connected (start_metrics s) = dp_connected s" "dp_detail (start_metrics s) = dp_detail s"
  "dp_lines (start_metrics s) = dp_lines s" "dp_agent (start_metrics s) = dp_agent s" "dp_proc (start_metrics s) = dp_proc s"
  "dp_errCount (start_metrics s) = dp_errCount s" "dp_window (start_metrics s) = dp_window s"
  "dp_fleet (start_logs s) = dp_fleet s" "dp_metrics (start_logs s) = dp_metrics s" "dp_p (start_logs s) = dp_p s"
  "dp_connected (start_logs s) = dp_connected s" "dp_detail (start_logs s) = dp_detail s" "dp_lines (start_logs s) = []"
  "dp_agent (start_logs s) = dp_agent s" "dp_proc (start_logs s) = dp_proc s" "dp_errCount (start_logs s) = dp_errCount s"
  "dp_window (start_logs s) = dp_window s"
  "dp_fleet (start_fleet s) = poll_start (dp_agent s, dp_proc s) () () (dp_fleet s)"
  "dp_metrics (start_metrics s) = poll_start (dp_agent s, dp_proc s, dp_window s) () () (dp_metrics s)"
  "dp_logs (start_logs s) = poll_start (dp_agent s, dp_proc s) \<lparr>ll_cursor = 0, ll_first = True\<rparr> 0 (dp_logs s)"
  "dp_sent (start_fleet s) = dp_sent s" "dp_sent (start_metrics s) = dp_sent s" "dp_sent (start_logs s) = dp_sent s"
  by (simp_all add: start_fleet_def start_metrics_def start_logs_def)

lemmas other_ops = set_window_def detail_leave_def logs_tick_def stats_answered_def metrics_answered_def logs_answered_def
  detail_click_def doControl_def

text \<open>Only answers to fleet requests, and the effect itself, touch the fleet polls.\<close>

lemma fleet_polls_step:
  "dp_fleet (detail_step s e) =
     (case e of
        Props a p \<Rightarrow> if poll_running (dp_fleet s) then poll_start (a, p) () () (dp_fleet s) else dp_fleet s
      | FleetTick \<Rightarrow> poll_tick () (dp_fleet s)
      | FleetAnswered j f \<Rightarrow> (case poll_take j (dp_fleet s) of None \<Rightarrow> dp_fleet s | Some (_, _, p) \<Rightarrow> p)
      | LeaveDetail \<Rightarrow> poll_cleanup (dp_fleet s)
      | _ \<Rightarrow> dp_fleet s)"
  by (cases e) (auto simp: detail_props_def fleet_answered_def other_ops Let_def split: option.split sum.split detail_button.split)

lemma metrics_polls_step:
  "dp_metrics (detail_step s e) =
     (case e of
        Props a p \<Rightarrow> if poll_running (dp_fleet s) \<and> (a \<noteq> dp_agent s \<or> p \<noteq> dp_proc s) then poll_start (a, p, dp_window s) () () (dp_metrics s) else dp_metrics s
      | SetWindow w \<Rightarrow> if w = dp_window s \<or> \<not> poll_running (dp_fleet s) then dp_metrics s else poll_start (dp_agent s, dp_proc s, w) () () (dp_metrics s)
      | MetricsTick \<Rightarrow> poll_tick () (dp_metrics s)
      | MetricsAnswered j f \<Rightarrow> (case poll_take j (dp_metrics s) of None \<Rightarrow> dp_metrics s | Some (_, _, p) \<Rightarrow> p)
      | LeaveDetail \<Rightarrow> poll_cleanup (dp_metrics s)
      | _ \<Rightarrow> dp_metrics s)"
  by (cases e) (auto simp: detail_props_def fleet_answered_def other_ops Let_def split: option.split sum.split detail_button.split)

lemma fleet_shown_step:
  "(dp_connected (detail_step s e), dp_p (detail_step s e)) =
     (case fleet_takes s e of None \<Rightarrow> (dp_connected s, dp_p s) | Some (i, d) \<Rightarrow> d)"
  by (cases e) (auto simp: detail_props_def fleet_answered_def other_ops Let_def split: option.split sum.split detail_button.split)

lemma metrics_shown_step:
  "dp_detail (detail_step s e) = (case metrics_takes s e of None \<Rightarrow> dp_detail s | Some (i, d) \<Rightarrow> d)"
  by (cases e) (auto simp: detail_props_def fleet_answered_def other_ops Let_def split: option.split sum.split detail_button.split)

lemma polls_step_ok:
  "polls_ok (dp_fleet s) \<Longrightarrow> polls_ok (dp_fleet (detail_step s e))"
  "polls_ok (dp_metrics s) \<Longrightarrow> polls_ok (dp_metrics (detail_step s e))"
  by (auto simp: fleet_polls_step metrics_polls_step polls_ok_start polls_ok_tick polls_ok_cleanup
      dest: poll_take_ok split: detail_event.split option.split)

lemma polls_step_grow:
  "length (pl_runs (dp_fleet s)) \<le> length (pl_runs (dp_fleet (detail_step s e)))"
  "length (pl_runs (dp_metrics s)) \<le> length (pl_runs (dp_metrics (detail_step s e)))"
  by (auto simp: fleet_polls_step metrics_polls_step poll_take_runs split: detail_event.split option.split)

lemma fleet_takes_Some:
  "fleet_takes s e = Some t \<Longrightarrow> \<exists>j p. poll_take j (dp_fleet s) = Some (fst t, (), p) \<and> \<not> poll_stopped (fst t) p"
proof (cases e)
  case (FleetAnswered j f)
  assume "fleet_takes s e = Some t"
  with FleetAnswered show ?thesis
    by (intro exI [of _ j]) (auto simp: Let_def split: option.splits if_splits sum.splits)
qed simp_all

lemma metrics_takes_Some:
  "metrics_takes s e = Some t \<Longrightarrow> \<exists>j p. poll_take j (dp_metrics s) = Some (fst t, (), p) \<and> \<not> poll_stopped (fst t) p"
proof (cases e)
  case (MetricsAnswered j f)
  assume "metrics_takes s e = Some t"
  with MetricsAnswered show ?thesis
    by (intro exI [of _ j]) (auto split: option.splits if_splits sum.splits)
qed simp_all

interpretation detail_fleet: guarded_poll "\<lambda>s. polls_ok (dp_fleet s)" detail_step "\<lambda>s. length (pl_runs (dp_fleet s))"
    fleet_takes "\<lambda>s. (dp_connected s, dp_p s)"
proof (unfold_locales, goal_cases)
  case (3 s e i d)
  then show ?case using fleet_takes_Some [OF 3(2)] poll_take_live by fastforce
qed (rule polls_step_ok polls_step_grow fleet_shown_step; assumption?)+

interpretation detail_metrics: guarded_poll "\<lambda>s. polls_ok (dp_metrics s)" detail_step "\<lambda>s. length (pl_runs (dp_metrics s))"
    metrics_takes dp_detail
proof (unfold_locales, goal_cases)
  case (3 s e i d)
  then show ?case using metrics_takes_Some [OF 3(2)] poll_take_live by fastforce
qed (rule polls_step_ok polls_step_grow metrics_shown_step; assumption?)+

lemma detail_logs_step:
  "dp_logs (detail_step s e) =
     (case e of
        Props a p \<Rightarrow> if poll_running (dp_fleet s) \<and> (a \<noteq> dp_agent s \<or> p \<noteq> dp_proc s)
          then poll_start (a, p) \<lparr>ll_cursor = 0, ll_first = True\<rparr> 0 (dp_logs s) else dp_logs s
      | LogsTick \<Rightarrow> dp_logs (logs_tick s)
      | LogsAnswered j f \<Rightarrow> dp_logs (logs_answered j f s)
      | LeaveDetail \<Rightarrow> poll_cleanup (dp_logs s)
      | _ \<Rightarrow> dp_logs s)"
  by (cases e) (auto simp: detail_props_def fleet_answered_def other_ops Let_def split: option.split sum.split detail_button.split)

lemma log_ops_live:
  "polls_live (dp_logs s) \<Longrightarrow> polls_live (dp_logs (logs_tick s))"
  "polls_live (dp_logs s) \<Longrightarrow> polls_live (dp_logs (logs_answered j f s))"
  by (auto simp: logs_tick_def logs_answered_def Let_def polls_live_tick polls_live_local dest: polls_live_take
      split: option.split sum.split)

lemma log_ops_idle:
  "polls_idle (dp_logs s) \<Longrightarrow> polls_idle (dp_logs (logs_tick s))"
  "polls_idle (dp_logs s) \<Longrightarrow> polls_idle (dp_logs (logs_answered j f s))"
  by (auto simp: logs_tick_def logs_answered_def Let_def polls_idle_not_running dest: polls_idle_take
      split: option.split sum.split)

text \<open>The page while it is mounted and once it was left; a stopped run of the fleet effect does not log out.\<close>

definition detail_live :: "detail_page \<Rightarrow> bool" where
  "detail_live s \<longleftrightarrow> polls_live (dp_fleet s) \<and> polls_live (dp_metrics s) \<and> polls_live (dp_logs s)"

definition detail_idle :: "detail_page \<Rightarrow> bool" where
  "detail_idle s \<longleftrightarrow> polls_idle (dp_fleet s) \<and> polls_idle (dp_metrics s) \<and> polls_idle (dp_logs s)"

fun detail_fails :: "detail_event \<Rightarrow> detail_page \<Rightarrow> bool" where
  "detail_fails (FleetAnswered j f) s =
     (case poll_take j (dp_fleet s) of None \<Rightarrow> False | Some (i, _, p) \<Rightarrow> \<not> poll_stopped i p \<and> is_error (reply f getFleet_res))"
| "detail_fails _ s = False"

lemma detail_logouts_step: "dp_logouts (detail_step s e) = dp_logouts s + (if detail_fails e s then 1 else 0)"
  by (cases e) (auto simp: detail_props_def fleet_answered_def start_fleet_def start_metrics_def start_logs_def other_ops
      Let_def split: option.split sum.split detail_button.split)

interpretation detail_mounted: mounted_page detail_step LeaveDetail detail_live detail_idle dp_logouts
proof (unfold_locales, goal_cases)
  case (1 s e)
  then have "polls_live (dp_fleet (detail_step s e))" "polls_live (dp_metrics (detail_step s e))"
    "polls_live (dp_logs (detail_step s e))"
    by (auto simp: detail_live_def fleet_polls_step metrics_polls_step detail_logs_step polls_live_ok polls_live_tick log_ops_live
        dest: polls_live_take split: detail_event.split option.split)
  then show ?case by (simp add: detail_live_def)
next
  case (2 s)
  then show ?case by (simp add: detail_live_def detail_idle_def detail_leave_def polls_idle_cleanup polls_live_ok)
next
  case (3 s e)
  then have "polls_idle (dp_fleet (detail_step s e))" "polls_idle (dp_metrics (detail_step s e))"
    "polls_idle (dp_logs (detail_step s e))"
    by (auto simp: detail_idle_def fleet_polls_step metrics_polls_step detail_logs_step polls_idle_not_running polls_idle_ok
        polls_idle_tick polls_idle_cleanup log_ops_idle dest: polls_idle_take split: detail_event.split option.split)
  moreover have "\<not> detail_fails e s"
    using 3 by (cases e) (auto simp: detail_idle_def dest: polls_idle_take split: option.split)
  ultimately show ?case by (simp add: detail_idle_def detail_logouts_step)
qed

section \<open>The recent logs\<close>

text \<open>
  Where lines come from: \<open>from k l\<close> says that \<open>l\<close> is a line of the process \<open>k\<close>. A run is honest
  when every answer to a log request holds lines of the process asked for only.
\<close>

fun honest_event :: "(jstr \<times> jstr \<Rightarrow> log_line \<Rightarrow> bool) \<Rightarrow> detail_page \<Rightarrow> detail_event \<Rightarrow> bool" where
  "honest_event from s (LogsAnswered j f) =
     (case poll_take j (dp_logs s) of
        None \<Rightarrow> True
      | Some (i, _, p) \<Rightarrow> (case reply f getLogs_res of Inl _ \<Rightarrow> True
          | Inr res \<Rightarrow> list_all (from (ef_key (pl_runs p ! i))) (lr_lines res)))"
| "honest_event from s _ = True"

fun honest_run :: "(jstr \<times> jstr \<Rightarrow> log_line \<Rightarrow> bool) \<Rightarrow> detail_page \<Rightarrow> detail_event list \<Rightarrow> bool" where
  "honest_run from s [] = True"
| "honest_run from s (e # es) = (honest_event from s e \<and> honest_run from (detail_step s e) es)"

definition detail_lines_ok :: "(jstr \<times> jstr \<Rightarrow> log_line \<Rightarrow> bool) \<Rightarrow> detail_page \<Rightarrow> bool" where
  "detail_lines_ok from s \<longleftrightarrow>
     polls_ok (dp_logs s) \<and> pl_runs (dp_logs s) \<noteq> [] \<and> ef_key (last (pl_runs (dp_logs s))) = (dp_agent s, dp_proc s) \<and>
     length (dp_lines s) \<le> RECENT_CAP \<and> list_all (from (dp_agent s, dp_proc s)) (dp_lines s)"

lemma lines_ok_cong:
  "dp_logs t = dp_logs s \<Longrightarrow> dp_lines t = dp_lines s \<Longrightarrow> dp_agent t = dp_agent s \<Longrightarrow> dp_proc t = dp_proc s \<Longrightarrow>
   detail_lines_ok from t = detail_lines_ok from s"
  by (simp add: detail_lines_ok_def)

lemma start_logs_ok: "polls_ok (dp_logs s) \<Longrightarrow> detail_lines_ok from (start_logs s)"
  by (simp add: detail_lines_ok_def polls_ok_start poll_start_runs)

lemma logs_answered_ok:
  assumes s: "detail_lines_ok from s" and h: "honest_event from s (LogsAnswered j f)"
  shows "detail_lines_ok from (logs_answered j f s)"
proof (cases "poll_take j (dp_logs s)")
  case None
  then show ?thesis using s by (simp add: logs_answered_def)
next
  case (Some t)
  obtain i q p where t: "poll_take j (dp_logs s) = Some (i, q, p)" using Some by (cases t) auto
  have ok: "polls_ok (dp_logs s)" using s by (simp add: detail_lines_ok_def)
  note p = poll_take_ok [OF ok t]
  have drop: "detail_lines_ok from (s\<lparr>dp_logs := p\<rparr>)" using s p by (simp add: detail_lines_ok_def)
  show ?thesis
  proof (cases "reply f getLogs_res")
    case (Inl e)
    then show ?thesis using drop by (simp add: logs_answered_def t)
  next
    case (Inr res)
    show ?thesis
    proof (cases "poll_stopped i p")
      case True
      then show ?thesis using drop by (simp add: logs_answered_def t Inr)
    next
      case False
      have i: "Suc i = length (pl_runs p)" using poll_take_live [OF ok t False] p(3) by simp
      have runs: "pl_runs p \<noteq> []" "length (pl_runs p) - 1 = i" using i by auto
      then have "pl_runs p ! i = last (pl_runs p)" by (simp add: last_conv_nth)
      then have key: "ef_key (pl_runs p ! i) = (dp_agent s, dp_proc s)" using s p(3) by (simp add: detail_lines_ok_def)
      then have new: "list_all (from (dp_agent s, dp_proc s)) (lr_lines res)" using h by (simp add: t Inr)
      let ?l = "\<lparr>ll_cursor = (if lr_cursor res \<noteq> 0 then lr_cursor res else ll_cursor (ef_local (pl_runs p ! i))),
        ll_first = False\<rparr>"
      have "ef_key (last (pl_runs (poll_local i ?l p))) = ef_key (pl_runs p ! i)" "pl_runs (poll_local i ?l p) \<noteq> []"
        using runs by (simp_all add: poll_local_def last_list_update)
      moreover have "list_all (from (dp_agent s, dp_proc s)) (keep_last RECENT_CAP (dp_lines s @ lr_lines res))"
        using s new set_keep_last [of RECENT_CAP "dp_lines s @ lr_lines res"]
        by (auto simp: detail_lines_ok_def list_all_iff)
      moreover have "logs_answered j f s = s\<lparr>dp_logs := poll_local i ?l p,
          dp_lines := (if 0 < length (lr_lines res) then keep_last RECENT_CAP (dp_lines s @ lr_lines res) else dp_lines s)\<rparr>"
        using False by (simp add: logs_answered_def t Inr)
      ultimately show ?thesis
        using s polls_ok_local [OF p(1), of i ?l] key by (simp add: detail_lines_ok_def)
    qed
  qed
qed

lemma detail_step_lines_ok:
  assumes "detail_lines_ok from s" "honest_event from s e" shows "detail_lines_ok from (detail_step s e)"
proof -
  have ok: "polls_ok (dp_logs s)" using assms(1) by (simp add: detail_lines_ok_def)
  show ?thesis
  proof (cases e)
    case (Props a p)
    show ?thesis
    proof (cases "poll_running (dp_fleet s) \<and> (a \<noteq> dp_agent s \<or> p \<noteq> dp_proc s)")
      case True
      then show ?thesis using start_logs_ok [of "start_metrics (start_fleet (s\<lparr>dp_agent := a, dp_proc := p\<rparr>))"] ok Props
        by (simp add: detail_props_def)
    next
      case False
      then show ?thesis using assms(1) Props by (auto simp: detail_props_def detail_lines_ok_def Let_def split: if_splits)
    qed
  next
    case (LogsAnswered j f)
    with assms show ?thesis by (simp add: logs_answered_ok del: honest_event.simps)
  next
    case LogsTick
    with assms(1) show ?thesis by (simp add: logs_tick_def detail_lines_ok_def polls_ok_tick Let_def)
  next
    case LeaveDetail
    with assms(1) show ?thesis by (simp add: detail_leave_def detail_lines_ok_def polls_ok_cleanup poll_cleanup_last)
  next
    case (SetWindow w)
    have "detail_lines_ok from (set_window w s) = detail_lines_ok from s"
      by (rule lines_ok_cong) (simp_all add: set_window_def)
    with assms(1) SetWindow show ?thesis by simp
  next
    case (FleetAnswered j f)
    have "detail_lines_ok from (fleet_answered j f s) = detail_lines_ok from s"
      by (rule lines_ok_cong) (simp_all add: fleet_answered_def Let_def split: option.split sum.split)
    with assms(1) FleetAnswered show ?thesis by simp
  next
    case (StatsAnswered j f)
    have "detail_lines_ok from (stats_answered j f s) = detail_lines_ok from s"
      by (rule lines_ok_cong) (simp_all add: stats_answered_def Let_def split: sum.split)
    with assms(1) StatsAnswered show ?thesis by simp
  next
    case (MetricsAnswered j f)
    have "detail_lines_ok from (metrics_answered j f s) = detail_lines_ok from s"
      by (rule lines_ok_cong) (simp_all add: metrics_answered_def Let_def split: option.split sum.split)
    with assms(1) MetricsAnswered show ?thesis by simp
  next
    case (Press b)
    have "detail_lines_ok from (detail_click b s) = detail_lines_ok from s"
      by (rule lines_ok_cong) (simp_all add: detail_click_def doControl_def split: detail_button.split)
    with assms(1) Press show ?thesis by simp
  qed (use assms(1) in \<open>simp_all add: detail_lines_ok_def\<close>)
qed

lemma detail_run_lines_ok:
  "detail_lines_ok from s \<Longrightarrow> honest_run from s es \<Longrightarrow> detail_lines_ok from (foldl detail_step s es)"
  by (induction es arbitrary: s) (simp_all add: detail_step_lines_ok)

lemma detail_mount_lines_ok: "detail_lines_ok from (detail_mount a p)"
  unfolding detail_mount_def by (rule start_logs_ok) simp

section \<open>Properties\<close>


text \<open>C30. The recent logs of the process page are those of the process shown: when the server
  answers each log request with lines of the process asked for, then after any events,
  including moves to other processes with answers still on their way, every line kept is of
  the process in the heading, at most 5000 are kept and at most 8 of them shown.\<close>

theorem detail_logs_current:
  assumes "honest_run from (detail_mount agent proc) es"
  shows "let s = foldl detail_step (detail_mount agent proc) es
    in length (dp_lines s) \<le> 5000 \<and> list_all (from (dp_agent s, dp_proc s)) (dp_lines s) \<and>
       length (recent_lines s) \<le> 8 \<and> set (recent_lines s) \<subseteq> set (dp_lines s)"
  using detail_run_lines_ok [OF detail_mount_lines_ok assms] set_keep_last
  by (simp add: Let_def detail_lines_ok_def RECENT_CAP_def recent_lines_def)

definition sample_line :: log_line where
  "sample_line = \<lparr>l_ts = 0, l_name = js ''web'', l_instance = 0, l_stderr = False, l_text = js ''hi''\<rparr>"

theorem detail_logs_current_witness:
  "let s = foldl detail_step (detail_mount (js ''dev'') (js ''web''))
      [LogsAnswered 0 (Response \<lparr>status = 200, json_body = Inr \<lparr>lr_cursor = 1, lr_lines = [sample_line]\<rparr>,
         error_field = Inr None, body_text = []\<rparr>)]
   in dp_lines s = [sample_line] \<and> list_all (\<lambda>l. l_name l = snd (dp_agent s, dp_proc s)) (dp_lines s)"
proof -
  let ?m = "detail_mount (js ''dev'') (js ''web'')"
  let ?e = "LogsAnswered 0 (Response \<lparr>status = 200, json_body = Inr \<lparr>lr_cursor = 1, lr_lines = [sample_line]\<rparr>,
         error_field = Inr None, body_text = []\<rparr>)"
  have m: "dp_logs ?m = \<lparr>pl_runs = [\<lparr>ef_key = (js ''dev'', js ''web''), ef_local = \<lparr>ll_cursor = 0, ll_first = True\<rparr>, ef_stop = False\<rparr>],
      pl_flight = [(0, 0)]\<rparr>" "dp_lines ?m = []"
    by (simp_all add: detail_mount_def poll_start_def poll_cleanup_def poll_send_def no_polls_def)
  have "honest_run (\<lambda>k l. l_name l = snd k) ?m [?e]"
    by (simp add: m poll_take_def getLogs_res_def json_or_401_def sample_line_def)
  from detail_logs_current [OF this]
  have "list_all (\<lambda>l. l_name l = snd (dp_agent (detail_step ?m ?e), dp_proc (detail_step ?m ?e))) (dp_lines (detail_step ?m ?e))"
    by (simp add: Let_def)
  moreover have "dp_lines (detail_step ?m ?e) = [sample_line]"
    by (simp add: logs_answered_def m poll_take_def poll_stopped_def getLogs_res_def json_or_401_def Let_def keep_last_def RECENT_CAP_def)
  ultimately show ?thesis by (simp add: Let_def)
qed

text \<open>After a move to another process the page shows the figures of the one left under the new
  name until answers come: state, connection, error count and charts are unchanged while the
  heading, the log box and the requests are those of the new process, so a click on stop is
  sent to the new process on the word of the old agent's connection, without any
  confirmation. Switching the window likewise labels the old peak with the new window.\<close>

lemma detail_stale:
  assumes "(agent, proc) \<noteq> (dp_agent s, dp_proc s)" "dp_connected s" "dp_detail s \<noteq> []" "w \<noteq> dp_window s"
    and running: "poll_running (dp_fleet s)"
  shows "let t = detail_step s (Props agent proc); u = detail_step t (Press BtnStop); v = detail_step s (SetWindow w)
    in dp_agent t = agent \<and> dp_proc t = proc \<and> dp_lines t = [] \<and> detail_cells date now t = detail_cells date now s \<and>
       headerMeta (dp_p t) = headerMeta (dp_p s) \<and> dp_sent u = dp_sent s @ [(agent, proc, Stop)] \<and>
       cell_sub (hd (detail_cells date now v)) = Some (js ''peak '' @ toFixed 1 (Max (set (map cpu_max (dp_detail s)))) @
         js ''% '' @ middle_dot @ js '' '' @ windowLabel w)"
proof -
  let ?t = "detail_step s (Props agent proc)"
  have moved: "agent \<noteq> dp_agent s \<or> proc \<noteq> dp_proc s" using assms(1) by auto
  then have t: "dp_agent ?t = agent" "dp_proc ?t = proc" "dp_lines ?t = []" "dp_p ?t = dp_p s"
    "dp_connected ?t = dp_connected s" "dp_errCount ?t = dp_errCount s" "dp_detail ?t = dp_detail s"
    "dp_window ?t = dp_window s" "dp_sent ?t = dp_sent s"
    using running by (simp_all add: detail_props_def)
  then have "dp_sent (detail_step ?t (Press BtnStop)) = dp_sent s @ [(agent, proc, Stop)]"
    using assms(2) by (simp add: detail_click_def doControl_def del: detail_step.simps(1))
  moreover have "detail_cells date now ?t = detail_cells date now s" unfolding detail_cells_def t by (rule refl)
  moreover have "cell_sub (hd (detail_cells date now (detail_step s (SetWindow w)))) =
      Some (js ''peak '' @ toFixed 1 (Max (set (map cpu_max (dp_detail s)))) @ js ''% '' @ middle_dot @ js '' '' @ windowLabel w)"
    using assms(3,4) running by (simp add: set_window_def detail_cells_def Let_def peak_def Cell_def if_shown_def start_metrics_def)
  ultimately show ?thesis unfolding Let_def using t by simp
qed

end
