(* ===== verification/Notifications.thy ===== *)
theory Notifications imports Api ControlActions Widgets Ledger begin

text \<open>
  The notifications page (web/src/Notifications.tsx): the configuration and its reloads, the
  channel, rule and settings forms with the requests they send, and the test buttons. Handlers
  are split at their awaits; nothing guards against a second click or orders the reloads.
\<close>

section \<open>The channel types\<close>

definition EVENT_TYPES :: "jstr list" where
  "EVENT_TYPES =
     [js ''crash'', js ''restart_loop'', js ''agent_down'', js ''agent_up'', js ''deploy_fail'', js ''recovered'']"

definition CHANNEL_TYPES :: "channel_type list" where
  "CHANNEL_TYPES = [Webhook, Telegram, Slack, Email]"

fun CONFIG_FIELDS :: "channel_type \<Rightarrow> jstr list" where
  "CONFIG_FIELDS Webhook = [js ''url'']"
| "CONFIG_FIELDS Telegram = [js ''chat_id'']"
| "CONFIG_FIELDS Slack = []"
| "CONFIG_FIELDS Email = [js ''host'', js ''port'', js ''from'', js ''to'', js ''username'', js ''tls'']"

fun SECRET_FIELDS :: "channel_type \<Rightarrow> jstr list" where
  "SECRET_FIELDS Webhook = [js ''hmac'']"
| "SECRET_FIELDS Telegram = [js ''bot_token'']"
| "SECRET_FIELDS Slack = [js ''webhook_url'']"
| "SECRET_FIELDS Email = [js ''password'']"

section \<open>The forms\<close>

record channel_form =
  cf_type :: channel_type
  cf_name :: jstr
  cf_enabled :: bool
  cf_fields :: "(jstr \<times> jstr) list"
  cf_status :: use_status

definition channel_form_mount :: channel_form where
  "channel_form_mount =
     \<lparr>cf_type = Webhook, cf_name = [], cf_enabled = True, cf_fields = [], cf_status = status_mount\<rparr>"

text \<open>\<open>{ ...fields, [f]: v }\<close>\<close>

fun put_field :: "jstr \<Rightarrow> jstr \<Rightarrow> (jstr \<times> jstr) list \<Rightarrow> (jstr \<times> jstr) list" where
  "put_field f v [] = [(f, v)]"
| "put_field f v ((g, w) # r) = (if g = f then (f, v) # r else (g, w) # put_field f v r)"

definition field_value :: "channel_form \<Rightarrow> jstr \<Rightarrow> jstr" where
  "field_value c f = nullish (map_of (cf_fields c) f) []"

definition allFields :: "channel_form \<Rightarrow> jstr list" where
  "allFields c = CONFIG_FIELDS (cf_type c) @ SECRET_FIELDS (cf_type c)"

definition set_channel_type :: "channel_type \<Rightarrow> channel_form \<Rightarrow> channel_form" where
  "set_channel_type ty c = c\<lparr>cf_type := ty, cf_fields := []\<rparr>"

definition type_field :: "jstr \<Rightarrow> jstr \<Rightarrow> channel_form \<Rightarrow> channel_form" where
  "type_field f v c = (if f \<in> set (allFields c) then c\<lparr>cf_fields := put_field f v (cf_fields c)\<rparr> else c)"

definition channel_config :: "channel_form \<Rightarrow> (jstr \<times> jstr) list" where
  "channel_config c = map (\<lambda>f. (f, field_value c f)) (CONFIG_FIELDS (cf_type c))"

definition channel_secrets :: "channel_form \<Rightarrow> (jstr \<times> jstr) list" where
  "channel_secrets c =
     map (\<lambda>f. (f, field_value c f)) (filter (\<lambda>f. field_value c f \<noteq> []) (SECRET_FIELDS (cf_type c)))"

definition channel_request :: "channel_form \<Rightarrow> request" where
  "channel_request c = putChannel_req (cf_name c) (cf_type c) (cf_enabled c) (channel_config c) (channel_secrets c)"

definition name_reason :: "string \<Rightarrow> jstr \<Rightarrow> jstr option" where
  "name_reason why name = (if trim name \<noteq> [] then None else Some (js why))"

record rule_form =
  rf_name :: jstr
  rf_events :: "jstr list"
  rf_agent :: jstr
  rf_process :: jstr
  rf_chans :: "jstr list"
  rf_status :: use_status

definition rule_form_mount :: rule_form where
  "rule_form_mount =
     \<lparr>rf_name = [], rf_events = [], rf_agent = js ''*'', rf_process = js ''*'', rf_chans = [], rf_status = status_mount\<rparr>"

definition toggle :: "'a list \<Rightarrow> 'a \<Rightarrow> 'a list" where
  "toggle list v = (if v \<in> set list then filter (\<lambda>x. x \<noteq> v) list else list @ [v])"

definition rule_of :: "rule_form \<Rightarrow> notif_rule" where
  "rule_of r =
     \<lparr>nr_name = rf_name r, nr_enabled = True, nr_events = rf_events r, nr_agent = rf_agent r,
      nr_process = rf_process r, nr_channels = rf_chans r\<rparr>"

record settings_form =
  sf_cooldown :: jsnum
  sf_recovery :: bool
  sf_coalesce :: jsnum
  sf_overrides :: "(jstr \<times> jstr) list"
  sf_status :: use_status
  sf_testing :: bool

text \<open>\<open>String(v)\<close> of a number the server stores, which is an integer.\<close>

fun integer_text :: "jsnum \<Rightarrow> jstr" where
  "integer_text (Fin x) = dec_int \<lfloor>x\<rfloor>"
| "integer_text (Infinity neg) = (if neg then js ''-Infinity'' else js ''Infinity'')"
| "integer_text NaN = js ''NaN''"

definition settings_mount :: "notif_settings \<Rightarrow> settings_form" where
  "settings_mount s =
     \<lparr>sf_cooldown = ns_cooldown s, sf_recovery = (\<not> nullish (ns_suppress_recovery s) False),
      sf_coalesce = nullish (ns_coalesce s) (Fin 10),
      sf_overrides = map (\<lambda>ev. (ev, case Option.bind (ns_overrides s) (\<lambda>m. map_of m ev) of
          None \<Rightarrow> [] | Some v \<Rightarrow> integer_text v)) EVENT_TYPES,
      sf_status = status_mount, sf_testing = False\<rparr>"

definition settings_of :: "settings_form \<Rightarrow> notif_settings" where
  "settings_of s =
     \<lparr>ns_cooldown = sf_cooldown s, ns_suppress_recovery = Some (\<not> sf_recovery s),
      ns_overrides = Some (map (\<lambda>ev. (ev, Number (nullish (map_of (sf_overrides s) ev) [])))
        (filter (\<lambda>ev. nullish (map_of (sf_overrides s) ev) [] \<noteq> []) EVENT_TYPES)),
      ns_coalesce = Some (sf_coalesce s)\<rparr>"

section \<open>The page\<close>

text \<open>
  The forms are mounted with the first configuration. \<open>np_reloads\<close> counts the reloads in
  flight, \<open>np_puts\<close> the channel, rule and settings requests that await their response, and
  \<open>np_sent\<close> are the requests of the forms and rows.
\<close>

record notif_page =
  np_cfg :: "notif_config option"
  np_err :: jstr
  np_channel :: channel_form
  np_rule :: rule_form
  np_settings :: "settings_form option"
  np_reloads :: nat
  np_puts :: "nat \<times> nat \<times> nat"
  np_sent :: "request list"

definition notif_mount :: notif_page where
  "notif_mount =
     \<lparr>np_cfg = None, np_err = [], np_channel = channel_form_mount, np_rule = rule_form_mount, np_settings = None,
      np_reloads = 1, np_puts = (0, 0, 0), np_sent = []\<rparr>"

definition reload :: "notif_page \<Rightarrow> notif_page" where
  "reload s = s\<lparr>np_reloads := np_reloads s + 1\<rparr>"

definition reload_answered :: "notif_config fetched \<Rightarrow> notif_page \<Rightarrow> notif_page" where
  "reload_answered f s =
     (if np_reloads s = 0 then s
      else let s' = s\<lparr>np_reloads := np_reloads s - 1\<rparr>
           in case reply f getNotifications_res of
                Inl e \<Rightarrow> s'\<lparr>np_err := err_message e\<rparr>
              | Inr cfg \<Rightarrow>
                  s'\<lparr>np_cfg := Some cfg, np_err := [],
                     np_settings := (case np_settings s' of None \<Rightarrow> Some (settings_mount (ng_settings cfg)) | Some x \<Rightarrow> Some x)\<rparr>)"

definition send_req :: "request \<Rightarrow> notif_page \<Rightarrow> notif_page" where
  "send_req r s = s\<lparr>np_sent := np_sent s @ [r]\<rparr>"

definition submit_channel :: "notif_page \<Rightarrow> notif_page" where
  "submit_channel s =
     (if name_reason ''Enter a channel name first'' (cf_name (np_channel s)) \<noteq> None then s
      else send_req (channel_request (np_channel s))
             (s\<lparr>np_puts := (fst (np_puts s) + 1, snd (np_puts s))\<rparr>))"

text \<open>A request that rejects leaves the form as it is, without a message.\<close>

definition channel_answered :: "unit fetched \<Rightarrow> notif_page \<Rightarrow> notif_page" where
  "channel_answered f s =
     (if fst (np_puts s) = 0 then s
      else let s' = s\<lparr>np_puts := (fst (np_puts s) - 1, snd (np_puts s))\<rparr>; c = np_channel s
           in case reply f putChannel_res of
                Inl _ \<Rightarrow> s'
              | Inr res \<Rightarrow>
                  if cr_ok res
                  then reload (s'\<lparr>np_channel := c\<lparr>cf_name := [], cf_fields := [],
                         cf_status := status_show Success (js ''saved'') (cf_status c)\<rparr>\<rparr>)
                  else s'\<lparr>np_channel := c\<lparr>cf_status := status_show Failure (nullish (cr_error res) (js ''error'')) (cf_status c)\<rparr>\<rparr>)"

definition submit_rule :: "notif_page \<Rightarrow> notif_page" where
  "submit_rule s =
     (if name_reason ''Enter a rule name first'' (rf_name (np_rule s)) \<noteq> None then s
      else send_req (putRule_req (rule_of (np_rule s)))
             (s\<lparr>np_puts := (fst (np_puts s), fst (snd (np_puts s)) + 1, snd (snd (np_puts s)))\<rparr>))"

definition rule_answered :: "unit fetched \<Rightarrow> notif_page \<Rightarrow> notif_page" where
  "rule_answered f s =
     (if fst (snd (np_puts s)) = 0 then s
      else let s' = s\<lparr>np_puts := (fst (np_puts s), fst (snd (np_puts s)) - 1, snd (snd (np_puts s)))\<rparr>; r = np_rule s
           in case reply f putRule_res of
                Inl _ \<Rightarrow> s'
              | Inr res \<Rightarrow>
                  if cr_ok res
                  then reload (s'\<lparr>np_rule := r\<lparr>rf_name := [], rf_events := [], rf_chans := [],
                         rf_status := status_show Success (js ''saved'') (rf_status r)\<rparr>\<rparr>)
                  else s'\<lparr>np_rule := r\<lparr>rf_status := status_show Failure (nullish (cr_error res) (js ''error'')) (rf_status r)\<rparr>\<rparr>)"

definition save_settings :: "notif_page \<Rightarrow> notif_page" where
  "save_settings s =
     (case np_settings s of
        None \<Rightarrow> s
      | Some f \<Rightarrow> send_req (putNotifSettings_req (settings_of f))
             (s\<lparr>np_puts := (fst (np_puts s), fst (snd (np_puts s)), snd (snd (np_puts s)) + 1)\<rparr>))"

definition settings_answered :: "unit fetched \<Rightarrow> notif_page \<Rightarrow> notif_page" where
  "settings_answered f s =
     (case np_settings s of
        None \<Rightarrow> s
      | Some x \<Rightarrow>
          if snd (snd (np_puts s)) = 0 then s
          else let s' = s\<lparr>np_puts := (fst (np_puts s), fst (snd (np_puts s)), snd (snd (np_puts s)) - 1)\<rparr>
               in case reply f putNotifSettings_res of
                    Inl _ \<Rightarrow> s'
                  | Inr res \<Rightarrow>
                      if cr_ok res
                      then reload (s'\<lparr>np_settings := Some (x\<lparr>sf_status := status_show Success (js ''saved'') (sf_status x)\<rparr>)\<rparr>)
                      else s'\<lparr>np_settings := Some (x\<lparr>sf_status :=
                             status_show Failure (nullish (cr_error res) (js ''save failed'')) (sf_status x)\<rparr>)\<rparr>)"

text \<open>
  The row actions. A deletion reloads whatever the status of its response, and does nothing
  when the name cannot be encoded or the request rejects.
\<close>

definition delete_channel :: "jstr \<Rightarrow> bool fetched \<Rightarrow> notif_page \<Rightarrow> notif_page" where
  "delete_channel n f s =
     (case await_fetch (deleteChannel_req n) (\<lambda>_. f) deleteChannel_res of Inl _ \<Rightarrow> s | Inr _ \<Rightarrow> reload s)"

definition delete_rule :: "jstr \<Rightarrow> bool fetched \<Rightarrow> notif_page \<Rightarrow> notif_page" where
  "delete_rule n f s =
     (case await_fetch (deleteRule_req n) (\<lambda>_. f) deleteRule_res of Inl _ \<Rightarrow> s | Inr _ \<Rightarrow> reload s)"

definition test_channel :: "jstr \<Rightarrow> control_result fetched \<Rightarrow> channel_form \<Rightarrow> channel_form" where
  "test_channel n f c =
     (case await_fetch (testChannel_req n) (\<lambda>_. f) testChannel_res of
        Inl _ \<Rightarrow> c
      | Inr r \<Rightarrow>
          c\<lparr>cf_status := (if cr_ok r then status_show Success (js ''test sent'') (cf_status c)
             else status_show Failure (nullish (cr_error r) (js ''test failed'')) (cf_status c))\<rparr>)"

definition enabledCount :: "notif_config \<Rightarrow> nat" where
  "enabledCount cfg = length (filter nc_enabled (ng_channels cfg))"

definition send_test :: "settings_form \<Rightarrow> settings_form" where
  "send_test s = s\<lparr>sf_testing := True\<rparr>"

definition test_failure_text :: "test_result \<Rightarrow> jstr" where
  "test_failure_text t = tr_name t @ js '': '' @ nullish (tr_error t) (js ''undefined'')"

definition test_answered :: "test_all_result fetched \<Rightarrow> settings_form \<Rightarrow> settings_form" where
  "test_answered f s =
     (let s' = s\<lparr>sf_testing := False\<rparr>
      in case reply f testAllChannels_res of
           Inl _ \<Rightarrow> s'
         | Inr r \<Rightarrow>
             let bad = filter (\<lambda>x. \<not> tr_ok x) (ta_results r); n = dec_int (ta_sent r)
             in s'\<lparr>sf_status :=
                  (if nullish (ta_error r) [] \<noteq> [] then status_show Failure (nullish (ta_error r) []) (sf_status s')
                   else if length (ta_results r) = 0
                   then status_show Failure (js ''no enabled channels to test'') (sf_status s')
                   else if length bad = 0
                   then status_show Success (js ''test sent to '' @ n @ js '' channel'' @
                          (if ta_sent r = 1 then [] else js ''s'')) (sf_status s')
                   else status_show Failure (n @ js '' sent '' @ middle_dot @ js '' '' @
                          join (js ''; '') (map test_failure_text bad)) (sf_status s'))\<rparr>)"

section \<open>What is shown\<close>

fun CHANNEL_COLOR :: "channel_type \<Rightarrow> jstr" where
  "CHANNEL_COLOR Webhook = js ''indigo''"
| "CHANNEL_COLOR Telegram = js ''teal''"
| "CHANNEL_COLOR Slack = js ''sky''"
| "CHANNEL_COLOR Email = js ''amber''"

definition EVENT_COLOR :: "(jstr \<times> jstr) list" where
  "EVENT_COLOR =
     [(js ''crash'', js ''rose''), (js ''restart_loop'', js ''amber''), (js ''agent_down'', js ''sky''),
      (js ''agent_up'', js ''teal''), (js ''deploy_fail'', js ''indigo''), (js ''recovered'', js ''olive'')]"

text \<open>The row of a channel: texts with the classes they are shown in.\<close>

record channel_row =
  cw_name :: jstr
  cw_type :: "jstr \<times> jstr"
  cw_state :: "jstr \<times> jstr \<times> jstr"
  cw_secret :: "jstr \<times> jstr"

definition channel_row_of :: "notif_channel \<Rightarrow> channel_row" where
  "channel_row_of c =
     \<lparr>cw_name = nc_name c, cw_type = (js ''v '' @ CHANNEL_COLOR (nc_type c), channel_text (nc_type c)),
      cw_state = (if nc_enabled c then (js ''sq on'', js ''on-t'', js ''enabled'')
                  else (js ''sq st'', js ''stp-t'', js ''disabled'')),
      cw_secret = (if nc_has_secret c then (js ''v olive'', [0xD83D, 0xDD12] @ js '' set'') else (js ''v'', em_dash))\<rparr>"

record rule_row =
  rw_name :: jstr
  rw_events :: "(jstr \<times> jstr) list"
  rw_target :: jstr
  rw_channels :: jstr

definition rule_row_of :: "notif_rule \<Rightarrow> rule_row" where
  "rule_row_of r =
     \<lparr>rw_name = nr_name r,
      rw_events = (if length (nr_events r) = 0 then [([], js ''any'')]
                   else map (\<lambda>ev. (nullish (map_of EVENT_COLOR ev) [], ev)) (nr_events r)),
      rw_target = or_else (Some (nr_agent r)) (js ''*'') @ js '' / '' @ or_else (Some (nr_process r)) (js ''*''),
      rw_channels = or_else (Some (join (js '', '') (nr_channels r))) em_dash\<rparr>"

definition channels_count :: "notif_config \<Rightarrow> jstr" where
  "channels_count cfg = dec_nat (length (ng_channels cfg)) @ js '' configured''"

definition rules_count :: "notif_config \<Rightarrow> jstr" where
  "rules_count cfg =
     (let n = length (ng_rules cfg) in dec_nat n @ js '' rule'' @ (if n \<noteq> 1 then js ''s'' else []))"

text \<open>The input of one field of the channel form: its type and whether the browser may fill it.\<close>

definition field_input :: "channel_form \<Rightarrow> jstr \<Rightarrow> jstr \<times> jstr \<times> jstr option" where
  "field_input c f =
     (let secret = (f \<in> set (SECRET_FIELDS (cf_type c)))
      in (if secret then js ''password'' else js ''text'', field_value c f,
          if secret then Some (js ''new-password'') else None))"

definition test_button :: "notif_config \<Rightarrow> settings_form \<Rightarrow> button \<times> jstr" where
  "test_button cfg s =
     (let none = (enabledCount cfg = 0)
      in (Button None False None None (sf_testing s \<or> none)
            (Some (if none then js ''no enabled channels'' else js ''send a test notification to all enabled channels'')),
          if sf_testing s then js ''sending'' @ ellipsis else js ''send test notification''))"

definition page_notice :: "notif_page \<Rightarrow> jstr" where
  "page_notice s =
     (if np_cfg s = None then (if np_err s \<noteq> [] then js ''Error: '' @ np_err s else js ''Loading'' @ ellipsis)
      else np_err s)"

section \<open>Events\<close>

datatype notif_event =
    ReloadAnswered "notif_config fetched"
  | PickType channel_type | TypeChannelName jstr | SetEnabled bool | TypeField jstr jstr
  | AddChannel | ChannelAnswered "unit fetched" | DeleteChannelRow jstr "bool fetched" | TestRow jstr "control_result fetched"
  | TypeRuleName jstr | TypeTarget jstr jstr | ToggleEvent jstr | ToggleChannel jstr
  | AddRule | RuleAnswered "unit fetched" | DeleteRuleRow jstr "bool fetched"
  | SetCooldown jstr | SetCoalesce jstr | SetRecovery bool | TypeOverride jstr jstr
  | SaveSettings | SettingsAnswered "unit fetched" | SendTest | TestAnswered "test_all_result fetched"

definition on_settings :: "(settings_form \<Rightarrow> settings_form) \<Rightarrow> notif_page \<Rightarrow> notif_page" where
  "on_settings g s = s\<lparr>np_settings := map_option g (np_settings s)\<rparr>"

text \<open>Chips exist for the event types and for the channels of the configuration.\<close>

definition channel_chips :: "notif_page \<Rightarrow> jstr list" where
  "channel_chips s = (case np_cfg s of None \<Rightarrow> [] | Some cfg \<Rightarrow> map nc_name (ng_channels cfg))"

fun notif_step :: "notif_page \<Rightarrow> notif_event \<Rightarrow> notif_page" where
  "notif_step s (ReloadAnswered f) = reload_answered f s"
| "notif_step s (PickType ty) = s\<lparr>np_channel := set_channel_type ty (np_channel s)\<rparr>"
| "notif_step s (TypeChannelName n) = s\<lparr>np_channel := (np_channel s)\<lparr>cf_name := n\<rparr>\<rparr>"
| "notif_step s (SetEnabled b) = s\<lparr>np_channel := (np_channel s)\<lparr>cf_enabled := b\<rparr>\<rparr>"
| "notif_step s (TypeField f v) = s\<lparr>np_channel := type_field f v (np_channel s)\<rparr>"
| "notif_step s AddChannel = submit_channel s"
| "notif_step s (ChannelAnswered f) = channel_answered f s"
| "notif_step s (DeleteChannelRow n f) = delete_channel n f s"
| "notif_step s (TestRow n f) = s\<lparr>np_channel := test_channel n f (np_channel s)\<rparr>"
| "notif_step s (TypeRuleName n) = s\<lparr>np_rule := (np_rule s)\<lparr>rf_name := n\<rparr>\<rparr>"
| "notif_step s (TypeTarget a p) = s\<lparr>np_rule := (np_rule s)\<lparr>rf_agent := a, rf_process := p\<rparr>\<rparr>"
| "notif_step s (ToggleEvent ev) =
     (if ev \<in> set EVENT_TYPES then s\<lparr>np_rule := (np_rule s)\<lparr>rf_events := toggle (rf_events (np_rule s)) ev\<rparr>\<rparr> else s)"
| "notif_step s (ToggleChannel c) =
     (if c \<in> set (channel_chips s) then s\<lparr>np_rule := (np_rule s)\<lparr>rf_chans := toggle (rf_chans (np_rule s)) c\<rparr>\<rparr> else s)"
| "notif_step s AddRule = submit_rule s"
| "notif_step s (RuleAnswered f) = rule_answered f s"
| "notif_step s (DeleteRuleRow n f) = delete_rule n f s"
| "notif_step s (SetCooldown t) = on_settings (\<lambda>x. x\<lparr>sf_cooldown := Number t\<rparr>) s"
| "notif_step s (SetCoalesce t) = on_settings (\<lambda>x. x\<lparr>sf_coalesce := Number t\<rparr>) s"
| "notif_step s (SetRecovery b) = on_settings (\<lambda>x. x\<lparr>sf_recovery := b\<rparr>) s"
| "notif_step s (TypeOverride ev t) = on_settings (\<lambda>x. x\<lparr>sf_overrides := put_field ev t (sf_overrides x)\<rparr>) s"
| "notif_step s SaveSettings = save_settings s"
| "notif_step s (SettingsAnswered f) = settings_answered f s"
| "notif_step s SendTest =
     (case np_cfg s of None \<Rightarrow> s
      | Some cfg \<Rightarrow> if enabledCount cfg = 0 then s else on_settings (\<lambda>x. if sf_testing x then x else send_test x) s)"
| "notif_step s (TestAnswered f) = on_settings (\<lambda>x. if sf_testing x then test_answered f x else x) s"

section \<open>Lemmas\<close>

lemma map_of_put_field: "map_of (put_field f v m) g = (if g = f then Some v else map_of m g)"
  by (induction f v m rule: put_field.induct) auto

lemma toggle_iff: "x \<in> set (toggle l v) \<longleftrightarrow> (if x = v then v \<notin> set l else x \<in> set l)"
  by (auto simp: toggle_def)

lemma toggle_distinct: "distinct l \<Longrightarrow> distinct (toggle l v)"
  by (simp add: toggle_def)

text \<open>The page after typing a list of fields.\<close>

definition typed :: "(jstr \<times> jstr) list \<Rightarrow> jstr \<Rightarrow> jstr" where
  "typed fs f = nullish (map_of (rev fs) f) []"

lemma type_fields:
  assumes "list_all (\<lambda>(f, v). f \<in> set (CONFIG_FIELDS ty @ SECRET_FIELDS ty)) fs" "cf_type (np_channel s) = ty"
  shows "let t = foldl notif_step s (map (\<lambda>(f, v). TypeField f v) fs)
    in cf_type (np_channel t) = ty \<and> cf_name (np_channel t) = cf_name (np_channel s) \<and> cf_enabled (np_channel t) = cf_enabled (np_channel s) \<and>
       np_sent t = np_sent s \<and> np_puts t = np_puts s \<and>
       (\<forall>f. map_of (cf_fields (np_channel t)) f = (case map_of (rev fs) f of None \<Rightarrow> map_of (cf_fields (np_channel s)) f | Some v \<Rightarrow> Some v))"
  using assms
proof (induction fs rule: rev_induct)
  case (snoc x fs)
  obtain f v where x: "x = (f, v)" by (cases x)
  let ?t = "foldl notif_step s (map (\<lambda>(f, v). TypeField f v) fs)"
  have IH: "cf_type (np_channel ?t) = ty" "cf_name (np_channel ?t) = cf_name (np_channel s)"
    "cf_enabled (np_channel ?t) = cf_enabled (np_channel s)" "np_sent ?t = np_sent s" "np_puts ?t = np_puts s"
    "\<And>f. map_of (cf_fields (np_channel ?t)) f =
       (case map_of (rev fs) f of None \<Rightarrow> map_of (cf_fields (np_channel s)) f | Some v \<Rightarrow> Some v)"
    using snoc by (simp_all add: Let_def)
  have "f \<in> set (allFields (np_channel ?t))" using snoc.prems(1) IH(1) by (simp add: x allFields_def)
  then have "notif_step ?t (TypeField f v) = ?t\<lparr>np_channel := (np_channel ?t)\<lparr>cf_fields := put_field f v (cf_fields (np_channel ?t))\<rparr>\<rparr>"
    by (simp add: type_field_def)
  then show ?case using IH by (simp add: x Let_def map_of_put_field)
qed simp

lemma secret_not_config: "f \<in> set (SECRET_FIELDS ty) \<Longrightarrow> f \<notin> set (CONFIG_FIELDS ty)"
  by (cases ty) (auto simp: js_def)

lemma integer_text_nonempty: "integer_text v \<noteq> []"
  by (cases v) auto

lemma Number_integer_text: "Number (integer_text (Fin (of_nat n))) = Fin (of_nat n)"
proof -
  have "\<lfloor>rat_of_nat n\<rfloor> = int n" by (metis floor_of_int of_int_of_nat_eq)
  then show ?thesis by (simp add: dec_int_def Number_dec_nat)
qed

lemma map_of_selected:
  "map_of (map (\<lambda>x. (x, g x)) (filter p xs)) k = (if k \<in> set xs \<and> p k then Some (g k) else None)"
  by (induction xs) auto

lemma event_types_distinct: "distinct EVENT_TYPES"
  by (simp add: EVENT_TYPES_def js_def)

section \<open>Properties\<close>

text \<open>Adding a channel sends what was typed for its type and nothing else: after a type is
  picked and fields are typed in any order and any number of times, the request carries the
  name, the type and the switch, one configuration entry for each configuration field of the
  type with the text typed last (empty when none was), and a secret entry for exactly the
  secret fields whose last text is not empty; no secret is among the configuration, and
  nothing typed for the type picked before is sent. Without a name nothing is sent.\<close>

lemma channel_sent:
  assumes "list_all (\<lambda>(f, v). f \<in> set (CONFIG_FIELDS ty @ SECRET_FIELDS ty)) fs"
  shows "let t = foldl notif_step (notif_step s (PickType ty)) (map (\<lambda>(f, v). TypeField f v) fs); n = cf_name (np_channel s);
      config = map (\<lambda>f. (f, typed fs f)) (CONFIG_FIELDS ty);
      secrets = map (\<lambda>f. (f, typed fs f)) (filter (\<lambda>f. typed fs f \<noteq> []) (SECRET_FIELDS ty))
    in np_sent (notif_step t AddChannel) = np_sent s @
         (if trim n = [] then [] else [putChannel_req n ty (cf_enabled (np_channel s)) config secrets]) \<and>
       fst ` set config \<inter> fst ` set secrets = {}"
proof -
  let ?p = "notif_step s (PickType ty)"
  let ?t = "foldl notif_step ?p (map (\<lambda>(f, v). TypeField f v) fs)"
  have p: "cf_type (np_channel ?p) = ty" "cf_name (np_channel ?p) = cf_name (np_channel s)" "np_sent ?p = np_sent s"
    "cf_enabled (np_channel ?p) = cf_enabled (np_channel s)" "cf_fields (np_channel ?p) = []"
    by (simp_all add: set_channel_type_def)
  have t: "cf_type (np_channel ?t) = ty" "cf_name (np_channel ?t) = cf_name (np_channel s)" "np_sent ?t = np_sent s"
    "cf_enabled (np_channel ?t) = cf_enabled (np_channel s)"
    and v: "field_value (np_channel ?t) f = typed fs f" for f
    using type_fields [OF assms p(1)] p by (simp_all add: Let_def field_value_def typed_def split: option.split)
  have "channel_config (np_channel ?t) = map (\<lambda>f. (f, typed fs f)) (CONFIG_FIELDS ty)"
    "channel_secrets (np_channel ?t) = map (\<lambda>f. (f, typed fs f)) (filter (\<lambda>f. typed fs f \<noteq> []) (SECRET_FIELDS ty))"
    unfolding channel_config_def channel_secrets_def t v by (rule refl)+
  then have "np_sent (notif_step ?t AddChannel) = np_sent s @ (if trim (cf_name (np_channel s)) = [] then []
      else [putChannel_req (cf_name (np_channel s)) ty (cf_enabled (np_channel s))
        (map (\<lambda>f. (f, typed fs f)) (CONFIG_FIELDS ty))
        (map (\<lambda>f. (f, typed fs f)) (filter (\<lambda>f. typed fs f \<noteq> []) (SECRET_FIELDS ty)))])"
    by (simp add: submit_channel_def name_reason_def send_req_def channel_request_def t del: notif_step.simps(2))
  then show ?thesis using secret_not_config by (auto simp: Let_def)
qed

text \<open>C29. Saving the settings without an edit gives the server back what it sent, for whole numbers
  that are not negative: the cooldown, the recovery switch, the window (10 when it sent none)
  and each override; overrides of events the page does not list are dropped.\<close>

theorem settings_roundtrip:
  assumes "list_all (\<lambda>(ev, v). \<exists>n. v = Fin (of_nat n)) (nullish (ns_overrides s) [])"
  shows "let r = settings_of (settings_mount s)
    in ns_cooldown r = ns_cooldown s \<and> ns_suppress_recovery r = Some (nullish (ns_suppress_recovery s) False) \<and>
       ns_coalesce r = Some (nullish (ns_coalesce s) (Fin 10)) \<and>
       (\<exists>m. ns_overrides r = Some m \<and>
          (\<forall>ev. map_of m ev = (if ev \<in> set EVENT_TYPES then Option.bind (ns_overrides s) (\<lambda>os. map_of os ev) else None)))"
proof -
  let ?look = "\<lambda>ev. Option.bind (ns_overrides s) (\<lambda>m. map_of m ev)"
  let ?text = "\<lambda>ev. case ?look ev of None \<Rightarrow> [] | Some v \<Rightarrow> integer_text v"
  have shown: "nullish (map_of (sf_overrides (settings_mount s)) ev) [] = (if ev \<in> set EVENT_TYPES then ?text ev else [])" for ev
    using map_of_selected [of ?text "\<lambda>_. True" EVENT_TYPES ev] by (simp add: settings_mount_def)
  have num: "Number (integer_text v) = v" if bound: "?look ev = Some v" for ev v
  proof -
    obtain m where "ns_overrides s = Some m" "map_of m ev = Some v" using bound by (cases "ns_overrides s") auto
    then have "(ev, v) \<in> set (nullish (ns_overrides s) [])" by (simp add: map_of_SomeD)
    then obtain n where "v = Fin (of_nat n)" using assms by (auto simp: list_all_iff)
    then show ?thesis using Number_integer_text by simp
  qed
  have "map_of (map (\<lambda>ev. (ev, Number (nullish (map_of (sf_overrides (settings_mount s)) ev) [])))
        (filter (\<lambda>ev. nullish (map_of (sf_overrides (settings_mount s)) ev) [] \<noteq> []) EVENT_TYPES)) ev =
      (if ev \<in> set EVENT_TYPES then ?look ev else None)" for ev
    unfolding map_of_selected shown using num integer_text_nonempty by (auto split: option.split)
  then show ?thesis by (simp add: settings_of_def Let_def) (simp add: settings_mount_def)
qed

theorem settings_roundtrip_witness:
  "\<exists>m. ns_overrides (settings_of (settings_mount \<lparr>ns_cooldown = Fin 60, ns_suppress_recovery = None,
      ns_overrides = Some [(js ''crash'', Fin (of_nat 5))], ns_coalesce = None\<rparr>)) = Some m \<and> map_of m (js ''crash'') = Some (Fin 5)"
  using settings_roundtrip [of "\<lparr>ns_cooldown = Fin 60, ns_suppress_recovery = None,
      ns_overrides = Some [(js ''crash'', Fin (of_nat 5))], ns_coalesce = None\<rparr>"]
  by (auto simp: Let_def EVENT_TYPES_def)

text \<open>A channel that was chosen for a new rule and then deleted stays in the rule: its chip is
  gone, so it can neither be seen nor taken back, and the rule is sent with it.\<close>

lemma rule_keeps_deleted:
  fixes cfg :: notif_config
  assumes "c \<in> set (channel_chips s)" "c \<notin> set (rf_chans (np_rule s))" "trim (rf_name (np_rule s)) \<noteq> []"
    "well_formed c" "np_reloads s = 0" "c \<notin> nc_name ` set (ng_channels cfg)"
  shows "let t = foldl notif_step s [ToggleChannel c, DeleteChannelRow c (Response (empty_response 204)),
            ReloadAnswered (Response (answered cfg))]
    in c \<notin> set (channel_chips t) \<and> notif_step t (ToggleChannel c) = t \<and>
       np_sent (notif_step t AddRule) = np_sent t @ [putRule_req (rule_of (np_rule t))] \<and> c \<in> set (nr_channels (rule_of (np_rule t)))"
proof -
  let ?a = "notif_step s (ToggleChannel c)"
  have a: "c \<in> set (rf_chans (np_rule ?a))" "rf_name (np_rule ?a) = rf_name (np_rule s)" "np_reloads ?a = 0"
    using assms(1,2,5) by (simp_all add: toggle_iff)
  let ?b = "notif_step ?a (DeleteChannelRow c (Response (empty_response 204)))"
  have "\<exists>r. deleteChannel_req c = Inr r"
    using assms(4) by (auto simp: deleteChannel_req_def url1_def map_result_def encode_well_formed)
  then have b: "?b = reload ?a" by (auto simp: delete_channel_def deleteChannel_res_def)
  let ?t = "notif_step ?b (ReloadAnswered (Response (answered cfg)))"
  have t: "np_rule ?t = np_rule ?a" "np_cfg ?t = Some cfg"
    unfolding b by (simp_all add: reload_def reload_answered_def a(3) getNotifications_res_def answered_def resp_ok_def del: notif_step.simps(13))
  then have chips: "c \<notin> set (channel_chips ?t)" using assms(6) by (auto simp: channel_chips_def)
  then have "notif_step ?t (ToggleChannel c) = ?t" by (simp only: notif_step.simps(13) if_False)
  moreover have "np_sent (notif_step ?t AddRule) = np_sent ?t @ [putRule_req (rule_of (np_rule ?t))]"
    using assms(3) t(1) a(2) by (simp add: submit_rule_def name_reason_def send_req_def del: notif_step.simps(1,8,13))
  moreover have "c \<in> set (nr_channels (rule_of (np_rule ?t)))"
    using a(1) by (simp add: rule_of_def t(1) del: notif_step.simps)
  ultimately show ?thesis using chips by (simp only: Let_def foldl_Cons foldl_Nil simp_thms)
qed

text \<open>A page that shows the given channels and is about to name a rule.\<close>

text \<open>The reloads are not ordered: the answer of an older one can replace that of a newer one.\<close>

lemma reload_unordered:
  "np_reloads s = 2 \<Longrightarrow> np_cfg (foldl notif_step s [ReloadAnswered (Response (answered new)), ReloadAnswered (Response (answered old))]) = Some old"
  by (simp add: reload_answered_def getNotifications_res_def answered_def resp_ok_def)

text \<open>A deletion the server refuses shows no message.\<close>

lemma delete_refused_silent:
  "well_formed n \<Longrightarrow> delete_channel n (Response (empty_response 500)) s = reload s"
  by (auto simp: delete_channel_def deleteChannel_req_def deleteChannel_res_def url1_def map_result_def encode_well_formed)

end
