(* ===== verification/LogViews.thy ===== *)
theory LogViews imports Logs LogStream Widgets begin

text \<open>
  The two components that show a log stream: the panel of the log page (web/src/LogPanel.tsx)
  and the live log dialog (web/src/LiveLogModal.tsx), each as a machine around the hook of
  \<open>LogStream\<close>: every change of their state renders the hook with the arguments they derive
  from it. What both need of the hook is proved once, in the locale \<open>log_client\<close>.
\<close>

section \<open>The hook inside a component\<close>

datatype hook_event = HookTimer | HookAnswer nat "logs_response fetched"

fun hook_step :: "log_stream \<Rightarrow> hook_event \<Rightarrow> log_stream" where
  "hook_step h HookTimer = (case ls_interval h of None \<Rightarrow> h | Some i \<Rightarrow> tick i h)"
| "hook_step h (HookAnswer k f) = (if k < length (ls_in_flight h) then settle k f h else h)"

text \<open>An honest answer holds lines of what the request asked for only.\<close>

fun honest_answer :: "(log_args \<Rightarrow> log_line \<Rightarrow> bool) \<Rightarrow> log_stream \<Rightarrow> hook_event \<Rightarrow> bool" where
  "honest_answer from h HookTimer = True"
| "honest_answer from h (HookAnswer k f) =
     (if k < length (ls_in_flight h)
      then (case reply f getLogs_res of
              Inl _ \<Rightarrow> True
            | Inr res \<Rightarrow> list_all (from (po_args (ls_pollers h ! if_poller (ls_in_flight h ! k)))) (lr_lines res))
      else True)"

lemma hook_step_ok: "stream_ok from h \<Longrightarrow> honest_answer from h e \<Longrightarrow> stream_ok from (hook_step h e)"
proof (cases e)
  case HookTimer
  assume s: "stream_ok from h"
  show ?thesis
  proof (cases "ls_interval h")
    case (Some i)
    then have "live h i" using s unfolding stream_ok_def by blast
    then show ?thesis using HookTimer Some tick_ok [OF s, of i] by (simp add: live_def)
  qed (use s HookTimer in simp)
next
  case (HookAnswer k f)
  assume s: "stream_ok from h" and h: "honest_answer from h e"
  show ?thesis
  proof (cases "k < length (ls_in_flight h)")
    case True
    have "stream_ok from (settle k f h)"
      by (rule settle_ok [OF s True]) (use h HookAnswer True in \<open>auto simp: reply_def list_all_iff split: fetched.splits\<close>)
    with HookAnswer True show ?thesis by simp
  qed (use s HookAnswer in simp)
qed

lemma hook_step_keeps:
  "ls_args (hook_step h e) = ls_args h" "ls_enabled (hook_step h e) = ls_enabled h"
  "ls_mounted (hook_step h e) = ls_mounted h" "ls_interval (hook_step h e) = ls_interval h"
  by (cases e; auto simp: tick_def settle_def on_logs_def Let_def split: option.split sum.split)+

lemma rerender_keeps:
  "ls_args (rerender a b h) = a" "ls_enabled (rerender a b h) = b" "ls_mounted (rerender a b h) = ls_mounted h"
  by (simp_all add: rerender_def start_effect_def reset_effect_def tick_def Let_def)

lemma unmount_keeps:
  "ls_args (unmount h) = ls_args h" "ls_enabled (unmount h) = ls_enabled h" "\<not> ls_mounted (unmount h)"
  by (simp_all add: unmount_def)

lemma mount_keeps: "ls_args (mount a b) = a" "ls_enabled (mount a b) = b" "ls_mounted (mount a b)"
  by (simp_all add: mount_def start_effect_def reset_effect_def tick_def Let_def)

text \<open>
  A component around the hook: its own events render the hook with the arguments of its new
  state or unmount it, and change nothing once it is gone; the hook's events leave the
  arguments alone.
\<close>

locale log_client =
  fixes hook :: "'s \<Rightarrow> log_stream" and args :: "'s \<Rightarrow> log_args" and enabled :: "'s \<Rightarrow> bool"
    and step :: "'s \<Rightarrow> 'e \<Rightarrow> 's" and polls :: "'e \<Rightarrow> hook_event option"
  assumes polled: "polls e = Some x \<Longrightarrow>
      hook (step s e) = hook_step (hook s) x \<and> args (step s e) = args s \<and> enabled (step s e) = enabled s"
    and rendered: "polls e = None \<Longrightarrow> ls_mounted (hook s) \<Longrightarrow>
      hook (step s e) = rerender (args (step s e)) (enabled (step s e)) (hook s) \<or>
      hook (step s e) = unmount (hook s) \<and> args (step s e) = args s \<and> enabled (step s e) = enabled s"
    and gone: "polls e = None \<Longrightarrow> \<not> ls_mounted (hook s) \<Longrightarrow> step s e = s"
begin

definition synced :: "(log_args \<Rightarrow> log_line \<Rightarrow> bool) \<Rightarrow> 's \<Rightarrow> bool" where
  "synced from s \<longleftrightarrow> stream_ok from (hook s) \<and> ls_args (hook s) = args s \<and> ls_enabled (hook s) = enabled s"

definition honest_event :: "(log_args \<Rightarrow> log_line \<Rightarrow> bool) \<Rightarrow> 's \<Rightarrow> 'e \<Rightarrow> bool" where
  "honest_event from s e = (case polls e of None \<Rightarrow> True | Some x \<Rightarrow> honest_answer from (hook s) x)"

primrec honest :: "(log_args \<Rightarrow> log_line \<Rightarrow> bool) \<Rightarrow> 's \<Rightarrow> 'e list \<Rightarrow> bool" where
  "honest from s [] = True"
| "honest from s (e # es) = (honest_event from s e \<and> honest from (step s e) es)"

lemma synced_step: "synced from s \<Longrightarrow> honest_event from s e \<Longrightarrow> synced from (step s e)"
proof (cases "polls e")
  case None
  assume s: "synced from s"
  show ?thesis
  proof (cases "ls_mounted (hook s)")
    case True
    then show ?thesis
      using rendered [OF None True] s rerender_ok [OF _ True] unmount_ok
      by (auto simp: synced_def rerender_keeps unmount_keeps)
  next
    case False
    then show ?thesis using gone [OF None] s by simp
  qed
next
  case (Some x)
  assume "synced from s" "honest_event from s e"
  with Some polled [OF Some, of s] show ?thesis
    by (simp add: synced_def honest_event_def hook_step_ok hook_step_keeps)
qed

lemma synced_run: "synced from s \<Longrightarrow> honest from s es \<Longrightarrow> synced from (foldl step s es)"
  by (induction es arbitrary: s) (simp_all add: synced_step)

text \<open>What a component may rely on: the lines are of its present arguments, and it polls when it should.\<close>

lemma synced_lines:
  assumes "synced from s"
  shows "list_all (from (args s)) (ls_lines (hook s))" "length (ls_lines (hook s)) \<le> 5000"
    "ls_interval (hook s) \<noteq> None \<longleftrightarrow> ls_mounted (hook s) \<and> enabled s"
  using assms by (auto simp: synced_def stream_ok_def list_all_iff LOG_CAP_def)

lemma frozen:
  assumes "synced from s" "polls e = Some x" "\<not> (ls_mounted (hook s) \<and> enabled s)"
  shows "ls_lines (hook (step s e)) = ls_lines (hook s)"
proof -
  have ok: "stream_ok from (hook s)" and "ls_interval (hook s) = None"
    using assms(1,3) by (auto simp: synced_def stream_ok_def)
  then have stopped: "po_stop (ls_pollers (hook s) ! i)" if "i < length (ls_pollers (hook s))" for i
    using that by (auto simp: stream_ok_def live_def)
  have "ls_lines (hook_step (hook s) x) = ls_lines (hook s)"
  proof (cases x)
    case (HookAnswer k f)
    show ?thesis
    proof (cases "k < length (ls_in_flight (hook s))")
      case True
      then have "if_poller (ls_in_flight (hook s) ! k) < length (ls_pollers (hook s))"
        using ok by (auto simp: stream_ok_def)
      with stopped HookAnswer True show ?thesis
        by (simp add: settle_def on_logs_def Let_def split: sum.split)
    qed (simp add: HookAnswer)
  qed (simp add: tick_def Let_def split: option.split)
  then show ?thesis using polled [OF assms(2), of s] by simp
qed

end

section \<open>LiveLogModal\<close>

definition STREAM_OPTIONS :: "(jstr \<times> jstr) list" where
  "STREAM_OPTIONS = [(js ''all'', js ''all''), (js ''stdout'', js ''stdout''), (js ''stderr'', js ''stderr'')]"

definition PAUSE_OPTIONS :: "(bool \<times> jstr) list" where
  "PAUSE_OPTIONS = [(False, [0x25CF] @ js '' live''), (True, js ''pause'')]"

record live_modal =
  lv_agent :: jstr
  lv_proc :: jstr
  lv_paused :: bool
  lv_stream :: jstr
  lv_filter :: debounce
  lv_levels :: "level list"
  lv_hook :: log_stream

definition live_args :: "live_modal \<Rightarrow> log_args" where
  "live_args s =
     \<lparr>ag_agent = lv_agent s, ag_proc = lv_proc s, ag_stream = lv_stream s, ag_limit = 1000, ag_q = []\<rparr>"

definition live_mount :: "jstr \<Rightarrow> jstr \<Rightarrow> live_modal" where
  "live_mount agent proc =
     \<lparr>lv_agent = agent, lv_proc = proc, lv_paused = False, lv_stream = js ''all'', lv_filter = debounce_mount,
      lv_levels = ALL_LEVELS,
      lv_hook = mount \<lparr>ag_agent = agent, ag_proc = proc, ag_stream = js ''all'', ag_limit = 1000, ag_q = []\<rparr> True\<rparr>"

text \<open>A render calls the hook with \<open>enabled: !paused\<close>.\<close>

definition live_render :: "live_modal \<Rightarrow> live_modal" where
  "live_render s = s\<lparr>lv_hook := rerender (live_args s) (\<not> lv_paused s) (lv_hook s)\<rparr>"

datatype live_event =
    LivePause bool | LiveStream jstr | LiveKey key_event | LiveLevel level | LiveProps jstr jstr
  | LiveClose | LiveHook hook_event

fun live_control :: "live_modal \<Rightarrow> live_event \<Rightarrow> live_modal" where
  "live_control s (LivePause b) = s\<lparr>lv_paused := b\<rparr>"
| "live_control s (LiveStream v) = (if v \<in> fst ` set STREAM_OPTIONS then s\<lparr>lv_stream := v\<rparr> else s)"
| "live_control s (LiveKey e) = s\<lparr>lv_filter := debounce_event (lv_filter s) e\<rparr>"
| "live_control s (LiveLevel l) = s\<lparr>lv_levels := toggleLevel l (lv_levels s)\<rparr>"
| "live_control s (LiveProps a p) = s\<lparr>lv_agent := a, lv_proc := p\<rparr>"
| "live_control s _ = s"

definition live_step :: "live_modal \<Rightarrow> live_event \<Rightarrow> live_modal" where
  "live_step s e =
     (case e of
        LiveHook x \<Rightarrow> s\<lparr>lv_hook := hook_step (lv_hook s) x\<rparr>
      | LiveClose \<Rightarrow> if ls_mounted (lv_hook s) then s\<lparr>lv_hook := unmount (lv_hook s)\<rparr> else s
      | _ \<Rightarrow> if ls_mounted (lv_hook s) then live_render (live_control s e) else s)"

definition live_lines :: "(jstr \<Rightarrow> jstr) \<Rightarrow> (jstr \<Rightarrow> (jstr \<Rightarrow> bool) option) \<Rightarrow> live_modal \<Rightarrow> log_line list" where
  "live_lines lower compile s =
     visibleLines lower compile (lv_levels s) (db_filter (lv_filter s)) (ls_lines (lv_hook s))"

definition live_title :: "live_modal \<Rightarrow> jstr" where
  "live_title s = js ''Live log '' @ middle_dot @ js '' '' @ lv_proc s"

definition live_download :: "live_modal \<Rightarrow> jstr" where
  "live_download s = logsDownloadURL (lv_agent s) (lv_proc s) (lv_stream s) []"

fun live_polls :: "live_event \<Rightarrow> hook_event option" where
  "live_polls (LiveHook x) = Some x"
| "live_polls _ = None"

lemma live_control_hook [simp]: "lv_hook (live_control s e) = lv_hook s"
  by (cases e) simp_all

interpretation live_client: log_client lv_hook live_args "\<lambda>s. \<not> lv_paused s" live_step live_polls
proof (unfold_locales, goal_cases)
  case (1 e x s)
  then show ?case by (cases e) (simp_all add: live_step_def live_args_def)
next
  case (2 e s)
  then show ?case by (cases e) (simp_all add: live_step_def live_render_def live_args_def)
next
  case (3 e s)
  then show ?case by (cases e) (simp_all add: live_step_def)
qed

lemma live_mount_synced: "live_client.synced from (live_mount agent proc)"
  unfolding live_client.synced_def by (simp add: live_mount_def mount_ok mount_keeps live_args_def)

section \<open>LogPanel\<close>

definition LIMIT_OPTS :: "(int \<times> jstr) list" where
  "LIMIT_OPTS = [(500, js ''500''), (1000, js ''1000'')]"

record log_panel =
  lp_agent :: jstr
  lp_proc :: jstr
  lp_stream :: jstr
  lp_limit :: int
  lp_filter :: debounce
  lp_hook :: log_stream

definition panel_args :: "log_panel \<Rightarrow> log_args" where
  "panel_args s =
     \<lparr>ag_agent = lp_agent s, ag_proc = lp_proc s, ag_stream = lp_stream s, ag_limit = lp_limit s, ag_q = []\<rparr>"

definition panel_mount :: "jstr \<Rightarrow> jstr \<Rightarrow> log_panel" where
  "panel_mount agent proc =
     \<lparr>lp_agent = agent, lp_proc = proc, lp_stream = js ''all'', lp_limit = 500, lp_filter = debounce_mount,
      lp_hook = mount \<lparr>ag_agent = agent, ag_proc = proc, ag_stream = js ''all'', ag_limit = 500, ag_q = []\<rparr> True\<rparr>"

text \<open>The panel never pauses the hook.\<close>

definition panel_render :: "log_panel \<Rightarrow> log_panel" where
  "panel_render s = s\<lparr>lp_hook := rerender (panel_args s) True (lp_hook s)\<rparr>"

datatype panel_event =
    PanelProps jstr jstr | PanelStream jstr | PanelLimit int | PanelKey key_event | PanelLeave | PanelHook hook_event

fun panel_control :: "log_panel \<Rightarrow> panel_event \<Rightarrow> log_panel" where
  "panel_control s (PanelProps a p) = s\<lparr>lp_agent := a, lp_proc := p\<rparr>"
| "panel_control s (PanelStream v) = (if v \<in> fst ` set STREAM_OPTIONS then s\<lparr>lp_stream := v\<rparr> else s)"
| "panel_control s (PanelLimit n) = (if n \<in> fst ` set LIMIT_OPTS then s\<lparr>lp_limit := n\<rparr> else s)"
| "panel_control s (PanelKey e) = s\<lparr>lp_filter := debounce_event (lp_filter s) e\<rparr>"
| "panel_control s _ = s"

definition panel_step :: "log_panel \<Rightarrow> panel_event \<Rightarrow> log_panel" where
  "panel_step s e =
     (case e of
        PanelHook x \<Rightarrow> s\<lparr>lp_hook := hook_step (lp_hook s) x\<rparr>
      | PanelLeave \<Rightarrow> if ls_mounted (lp_hook s) then s\<lparr>lp_hook := unmount (lp_hook s)\<rparr> else s
      | _ \<Rightarrow> if ls_mounted (lp_hook s) then panel_render (panel_control s e) else s)"

definition panel_lines :: "(jstr \<Rightarrow> jstr) \<Rightarrow> (jstr \<Rightarrow> (jstr \<Rightarrow> bool) option) \<Rightarrow> log_panel \<Rightarrow> log_line list" where
  "panel_lines lower compile s = filteredLines lower compile (db_filter (lp_filter s)) (ls_lines (lp_hook s))"

definition panel_download :: "log_panel \<Rightarrow> jstr" where
  "panel_download s = logsDownloadURL (lp_agent s) (lp_proc s) (lp_stream s) []"

fun panel_polls :: "panel_event \<Rightarrow> hook_event option" where
  "panel_polls (PanelHook x) = Some x"
| "panel_polls _ = None"

lemma panel_control_hook [simp]: "lp_hook (panel_control s e) = lp_hook s"
  by (cases e) simp_all

interpretation panel_client: log_client lp_hook panel_args "\<lambda>_. True" panel_step panel_polls
proof (unfold_locales, goal_cases)
  case (1 e x s)
  then show ?case by (cases e) (simp_all add: panel_step_def panel_args_def)
next
  case (2 e s)
  then show ?case by (cases e) (simp_all add: panel_step_def panel_render_def panel_args_def)
next
  case (3 e s)
  then show ?case by (cases e) (simp_all add: panel_step_def)
qed

lemma panel_mount_synced: "panel_client.synced from (panel_mount agent proc)"
  unfolding panel_client.synced_def by (simp add: panel_mount_def mount_ok mount_keeps panel_args_def)

section \<open>Properties\<close>

text \<open>C37. The live log shows what its controls say: when every answer holds lines of the process and
  stream its request asked for, then after any clicks, keys, timers and answers, late ones
  included, every line shown is of the process of the title and the stream selected, its level
  is switched on and it matches the filter in use; at most 5000 are held; the dialog polls
  exactly while it is open and not paused, and otherwise no answer changes what it shows.\<close>

theorem live_log_current:
  assumes "live_client.honest from (live_mount agent proc) es"
  defines "s \<equiv> foldl live_step (live_mount agent proc) es"
  shows "list_all (\<lambda>l. from (live_args s) l \<and> classifyLevel l \<in> set (lv_levels s) \<and>
      matchFilter lower compile (l_text l) (db_filter (lv_filter s))) (live_lines lower compile s) \<and>
    length (live_lines lower compile s) \<le> 5000 \<and>
    (ls_interval (lv_hook s) \<noteq> None \<longleftrightarrow> ls_mounted (lv_hook s) \<and> \<not> lv_paused s) \<and>
    (lv_paused s \<or> \<not> ls_mounted (lv_hook s) \<longrightarrow>
       live_lines lower compile (live_step s (LiveHook x)) = live_lines lower compile s)"
proof -
  have s: "live_client.synced from s"
    unfolding s_def by (rule live_client.synced_run [OF live_mount_synced assms(1)])
  have "length (live_lines lower compile s) \<le> length (ls_lines (lv_hook s))"
    by (simp add: live_lines_def visibleLines_def)
  then have "length (live_lines lower compile s) \<le> 5000"
    using live_client.synced_lines(2) [OF s] by (rule le_trans)
  moreover have "list_all (\<lambda>l. from (live_args s) l \<and> classifyLevel l \<in> set (lv_levels s) \<and>
      matchFilter lower compile (l_text l) (db_filter (lv_filter s))) (live_lines lower compile s)"
    using live_client.synced_lines(1) [OF s] by (auto simp: live_lines_def visibleLines_def list_all_iff)
  moreover have "live_lines lower compile (live_step s (LiveHook x)) = live_lines lower compile s"
    if "lv_paused s \<or> \<not> ls_mounted (lv_hook s)"
    using live_client.frozen [OF s, of "LiveHook x" x] that by (auto simp: live_lines_def live_step_def)
  ultimately show ?thesis using live_client.synced_lines(3) [OF s] by blast
qed

definition sample_answer :: hook_event where
  "sample_answer = HookAnswer 0 (Response \<lparr>status = 200, json_body = Inr \<lparr>lr_cursor = 7, lr_lines =
     [\<lparr>l_ts = 1, l_name = js ''web'', l_instance = 0, l_stderr = True, l_text = js ''boom''\<rparr>]\<rparr>,
     error_field = Inr None, body_text = []\<rparr>)"

theorem live_log_current_witness:
  "let s = foldl live_step (live_mount (js ''dev'') (js ''web'')) [LiveHook sample_answer]
   in length (live_lines id (\<lambda>_. None) s) = 1 \<and>
      list_all (\<lambda>l. l_name l = ag_proc (live_args s) \<and> classifyLevel l \<in> set (lv_levels s)) (live_lines id (\<lambda>_. None) s)"
proof -
  let ?m = "live_mount (js ''dev'') (js ''web'')" and ?es = "[LiveHook sample_answer]"
  let ?s = "foldl live_step ?m ?es"
  have m: "ls_in_flight (lv_hook ?m) = [\<lparr>if_poller = 0, if_after = 0\<rparr>]" "ls_lines (lv_hook ?m) = []"
    "ls_pollers (lv_hook ?m) = [\<lparr>po_args = live_args ?m, po_stop = False, po_first = True\<rparr>]"
    "ag_proc (live_args ?m) = js ''web''"
    by (simp_all add: live_mount_def live_args_def mount_def start_effect_def reset_effect_def tick_def Let_def)
  have "live_client.honest (\<lambda>a l. l_name l = ag_proc a) ?m ?es"
    by (simp add: live_client.honest_event_def sample_answer_def m getLogs_res_def json_or_401_def)
  from live_log_current [OF this, of id "\<lambda>_. None"]
  have "list_all (\<lambda>l. l_name l = ag_proc (live_args ?s) \<and> classifyLevel l \<in> set (lv_levels ?s)) (live_lines id (\<lambda>_. None) ?s)"
    by (auto simp: list_all_iff)
  moreover have "ls_lines (hook_step (lv_hook ?m) sample_answer) =
      [\<lparr>l_ts = 1, l_name = js ''web'', l_instance = 0, l_stderr = True, l_text = js ''boom''\<rparr>]"
    by (simp add: sample_answer_def m settle_def on_logs_def getLogs_res_def json_or_401_def Let_def keep_last_id LOG_CAP_def)
  then have "length (live_lines id (\<lambda>_. None) ?s) = 1"
    by (simp add: live_step_def live_lines_def visibleLines_def live_mount_def ALL_LEVELS_def matchFilter_def
        debounce_mount_def classifyLevel_def)
  ultimately show ?thesis by (simp add: Let_def)
qed

end
