(* ===== verification/LogsPage.thy ===== *)
theory LogsPage imports Api Polling LogViews begin

text \<open>
  The log page (web/src/Logs.tsx): the fleet poll, the two selectors with their defaults, and
  the effect that keeps the process a process of the agent; and the page with its log panel,
  whose hook it renders anew whenever the selection changes. The route's agent and process are
  read once, when the page is mounted.
\<close>

section \<open>State\<close>

record logs_page =
  lg_fleet :: "agent list"
  lg_loading :: bool
  lg_agent :: jstr
  lg_proc :: jstr
  lg_polls :: "(unit, unit, unit) polls"

definition logs_page_mount :: "jstr option \<Rightarrow> jstr option \<Rightarrow> logs_page" where
  "logs_page_mount initAgent initProc =
     \<lparr>lg_fleet = [], lg_loading = True, lg_agent = nullish initAgent [], lg_proc = nullish initProc [],
      lg_polls = poll_start () () () no_polls\<rparr>"

section \<open>Operations\<close>

definition default_agent :: "agent list \<Rightarrow> jstr \<Rightarrow> jstr" where
  "default_agent agents prev =
     (if prev \<noteq> [] then prev
      else nullish (map_option a_name (find_first a_connected agents))
             (nullish (case agents of [] \<Rightarrow> None | a # _ \<Rightarrow> Some (a_name a)) []))"

text \<open>The effect on \<open>[selectedAgent, fleet]\<close>.\<close>

definition sync_proc :: "logs_page \<Rightarrow> logs_page" where
  "sync_proc s =
     (if lg_agent s = [] then s
      else case find_first (\<lambda>x. a_name x = lg_agent s) (lg_fleet s) of
             None \<Rightarrow> s
           | Some a \<Rightarrow>
               s\<lparr>lg_proc := (if lg_proc s \<noteq> [] \<and> (\<exists>p \<in> set (a_procs a). p_name p = lg_proc s) then lg_proc s
                             else nullish (case a_procs a of [] \<Rightarrow> None | p # _ \<Rightarrow> Some (p_name p)) [])\<rparr>)"

text \<open>An answer to \<open>load\<close>: a new fleet runs the effect; the \<open>finally\<close> block ends the loading.\<close>

definition fleet_loaded :: "nat \<Rightarrow> agent list fetched \<Rightarrow> logs_page \<Rightarrow> logs_page" where
  "fleet_loaded j f s =
     (case poll_take j (lg_polls s) of
        None \<Rightarrow> s
      | Some (i, _, p) \<Rightarrow>
          let s' = s\<lparr>lg_polls := p\<rparr>
          in if poll_stopped i p then s'
             else case reply f getFleet_res of
                    Inl _ \<Rightarrow> s'\<lparr>lg_loading := False\<rparr>
                  | Inr agents \<Rightarrow>
                      sync_proc (s'\<lparr>lg_fleet := agents, lg_agent := default_agent agents (lg_agent s'), lg_loading := False\<rparr>))"

text \<open>
  The selectors are shown once the fleet is loaded and not empty; their options are the agents
  and the processes of the selected agent.
\<close>

definition logs_procs :: "logs_page \<Rightarrow> proc list" where
  "logs_procs s = nullish (map_option a_procs (find_first (\<lambda>x. a_name x = lg_agent s) (lg_fleet s))) []"

definition select_agent :: "jstr \<Rightarrow> logs_page \<Rightarrow> logs_page" where
  "select_agent n s =
     (if \<not> lg_loading s \<and> n \<in> a_name ` set (lg_fleet s) \<and> n \<noteq> lg_agent s
      then sync_proc (s\<lparr>lg_agent := n, lg_proc := []\<rparr>) else s)"

definition select_proc :: "jstr \<Rightarrow> logs_page \<Rightarrow> logs_page" where
  "select_proc n s = (if \<not> lg_loading s \<and> n \<in> p_name ` set (logs_procs s) then s\<lparr>lg_proc := n\<rparr> else s)"

section \<open>What is shown\<close>

definition logs_title :: "logs_page \<Rightarrow> jstr" where
  "logs_title s =
     (if lg_agent s \<noteq> [] \<and> lg_proc s \<noteq> [] then lg_agent s @ js '' / '' @ lg_proc s
      else if lg_agent s \<noteq> [] then lg_agent s else em_dash)"

definition agent_option :: "agent \<Rightarrow> jstr" where
  "agent_option a = a_name a @ (if a_connected a then [] else js '' (off)'')"

datatype logs_body = LogsLoading | NoAgents | SelectFirst | Panel jstr jstr

definition logs_body_of :: "logs_page \<Rightarrow> logs_body" where
  "logs_body_of s =
     (if lg_loading s then LogsLoading else if lg_fleet s = [] then NoAgents
      else if lg_agent s \<noteq> [] \<and> lg_proc s \<noteq> [] then Panel (lg_agent s) (lg_proc s) else SelectFirst)"

section \<open>Events\<close>

datatype logs_page_event =
    FleetLoaded nat "agent list fetched" | ReloadFleet | SelectAgent jstr | SelectProc jstr | LeaveLogs

fun logs_page_step :: "logs_page \<Rightarrow> logs_page_event \<Rightarrow> logs_page" where
  "logs_page_step s (FleetLoaded j f) = fleet_loaded j f s"
| "logs_page_step s ReloadFleet = s\<lparr>lg_polls := poll_tick () (lg_polls s)\<rparr>"
| "logs_page_step s (SelectAgent n) = select_agent n s"
| "logs_page_step s (SelectProc n) = select_proc n s"
| "logs_page_step s LeaveLogs = s\<lparr>lg_polls := poll_cleanup (lg_polls s)\<rparr>"

section \<open>The selection\<close>

text \<open>A known agent is selected with one of its processes, or with none when it has none.\<close>

definition selection_ok :: "logs_page \<Rightarrow> bool" where
  "selection_ok s \<longleftrightarrow>
     (lg_agent s = [] \<or> (case find_first (\<lambda>x. a_name x = lg_agent s) (lg_fleet s) of
        None \<Rightarrow> True
      | Some a \<Rightarrow> if a_procs a = [] then lg_proc s = [] else lg_proc s \<in> p_name ` set (a_procs a)))"

lemma sync_proc_simps [simp]:
  "lg_fleet (sync_proc s) = lg_fleet s" "lg_agent (sync_proc s) = lg_agent s" "lg_loading (sync_proc s) = lg_loading s"
  by (simp_all add: sync_proc_def split: option.split)

lemma sync_proc_ok: "selection_ok (sync_proc s)"
proof (cases "find_first (\<lambda>x. a_name x = lg_agent s) (lg_fleet s)")
  case None
  then show ?thesis by (simp add: selection_ok_def)
next
  case (Some a)
  then show ?thesis
    by (cases "lg_agent s = []"; cases "a_procs a") (auto simp: selection_ok_def sync_proc_def image_iff dest: sym)
qed

lemma selection_ok_cong:
  "lg_agent t = lg_agent s \<Longrightarrow> lg_proc t = lg_proc s \<Longrightarrow> lg_fleet t = lg_fleet s \<Longrightarrow> selection_ok t = selection_ok s"
  unfolding selection_ok_def by (simp only:)

lemma selection_step_ok: "selection_ok s \<Longrightarrow> selection_ok (logs_page_step s e)"
proof (cases e)
  case (FleetLoaded j f)
  assume s: "selection_ok s"
  have "selection_ok (s\<lparr>lg_polls := p\<rparr>)" "selection_ok (s\<lparr>lg_polls := p, lg_loading := b\<rparr>)" for p b
    using s selection_ok_cong [of "s\<lparr>lg_polls := p\<rparr>" s] selection_ok_cong [of "s\<lparr>lg_polls := p, lg_loading := b\<rparr>" s] by simp_all
  with s FleetLoaded show ?thesis
    by (auto simp: fleet_loaded_def Let_def sync_proc_ok split: option.split sum.split)
next
  case (SelectProc n)
  assume "selection_ok s"
  with SelectProc show ?thesis by (auto simp: select_proc_def logs_procs_def selection_ok_def split: option.splits)
next
  case (SelectAgent n)
  assume "selection_ok s"
  with SelectAgent show ?thesis by (simp add: select_agent_def sync_proc_ok)
next
  case ReloadFleet
  assume "selection_ok s"
  with ReloadFleet show ?thesis using selection_ok_cong [of "logs_page_step s e" s] by simp
next
  case LeaveLogs
  assume "selection_ok s"
  with LeaveLogs show ?thesis using selection_ok_cong [of "logs_page_step s e" s] by simp
qed

lemma selection_run_ok: "selection_ok s \<Longrightarrow> selection_ok (foldl logs_page_step s es)"
  by (induction es arbitrary: s) (simp_all add: selection_step_ok)

text \<open>Fleets that still hold the selected process of the selected agent leave the selection alone.\<close>

fun fleet_event :: "jstr \<Rightarrow> jstr \<Rightarrow> logs_page_event \<Rightarrow> bool" where
  "fleet_event a p (FleetLoaded j f) =
     (case reply f getFleet_res of Inl _ \<Rightarrow> True
      | Inr agents \<Rightarrow> (case find_first (\<lambda>x. a_name x = a) agents of None \<Rightarrow> True | Some x \<Rightarrow> p \<in> p_name ` set (a_procs x)))"
| "fleet_event a p ReloadFleet = True"
| "fleet_event a p _ = False"

lemma fleet_event_keeps:
  assumes "lg_agent s \<noteq> []" "lg_proc s \<noteq> []" "fleet_event (lg_agent s) (lg_proc s) e"
  shows "lg_agent (logs_page_step s e) = lg_agent s \<and> lg_proc (logs_page_step s e) = lg_proc s"
proof (cases e)
  case (FleetLoaded j f)
  show ?thesis
  proof (cases "reply f getFleet_res")
    case (Inl x)
    then show ?thesis using FleetLoaded by (simp add: fleet_loaded_def Let_def split: option.split)
  next
    case (Inr agents)
    have "lg_proc (sync_proc (s\<lparr>lg_polls := p, lg_fleet := agents, lg_agent := lg_agent s, lg_loading := False\<rparr>)) = lg_proc s" for p
      using assms FleetLoaded Inr by (auto simp: sync_proc_def split: option.splits)
    then show ?thesis using FleetLoaded Inr assms(1) by (simp add: fleet_loaded_def Let_def default_agent_def split: option.split)
  qed
qed (use assms(3) in simp_all)

lemma fleet_events_keep:
  assumes "lg_agent s \<noteq> []" "lg_proc s \<noteq> []" "list_all (fleet_event (lg_agent s) (lg_proc s)) es"
  shows "lg_agent (foldl logs_page_step s es) = lg_agent s \<and> lg_proc (foldl logs_page_step s es) = lg_proc s"
  using assms
proof (induction es arbitrary: s)
  case (Cons e es)
  then show ?case using fleet_event_keeps [of s e] Cons.IH [of "logs_page_step s e"] by simp
qed simp

section \<open>The page with its panel\<close>

text \<open>
  The page renders once after its event and once more after the effect on the selection. A
  render that shows a panel mounts it or hands it the new selection; any other render, and
  leaving the page, unmounts it.
\<close>

definition before_effect :: "logs_page \<Rightarrow> logs_page_event \<Rightarrow> logs_page" where
  "before_effect s e =
     (case e of
        SelectAgent n \<Rightarrow>
          if \<not> lg_loading s \<and> n \<in> a_name ` set (lg_fleet s) \<and> n \<noteq> lg_agent s
          then s\<lparr>lg_agent := n, lg_proc := []\<rparr> else s
      | FleetLoaded j f \<Rightarrow>
          (case poll_take j (lg_polls s) of
             None \<Rightarrow> s
           | Some (i, _, p) \<Rightarrow>
               let s' = s\<lparr>lg_polls := p\<rparr>
               in if poll_stopped i p then s'
                  else case reply f getFleet_res of
                         Inl _ \<Rightarrow> s'\<lparr>lg_loading := False\<rparr>
                       | Inr agents \<Rightarrow>
                           s'\<lparr>lg_fleet := agents, lg_agent := default_agent agents (lg_agent s'), lg_loading := False\<rparr>)
      | _ \<Rightarrow> logs_page_step s e)"

definition show_panel :: "logs_page \<Rightarrow> log_panel option \<Rightarrow> log_panel option" where
  "show_panel s pn =
     (case logs_body_of s of
        Panel a p \<Rightarrow> Some (case pn of None \<Rightarrow> panel_mount a p | Some q \<Rightarrow> panel_step q (PanelProps a p))
      | _ \<Rightarrow> None)"

record logs_view =
  lw_page :: logs_page
  lw_panel :: "log_panel option"

definition logs_view_mount :: "jstr option \<Rightarrow> jstr option \<Rightarrow> logs_view" where
  "logs_view_mount initAgent initProc = \<lparr>lw_page = logs_page_mount initAgent initProc, lw_panel = None\<rparr>"

datatype logs_view_event = PageEvent logs_page_event | PanelEvent panel_event

fun logs_view_step :: "logs_view \<Rightarrow> logs_view_event \<Rightarrow> logs_view" where
  "logs_view_step w (PageEvent e) =
     (let s = logs_page_step (lw_page w) e
      in \<lparr>lw_page = s,
          lw_panel = (if poll_running (lg_polls s)
            then show_panel s (show_panel (before_effect (lw_page w) e) (lw_panel w)) else None)\<rparr>)"
| "logs_view_step w (PanelEvent x) =
     (case x of
        PanelProps _ _ \<Rightarrow> w
      | PanelLeave \<Rightarrow> w
      | _ \<Rightarrow> w\<lparr>lw_panel := map_option (\<lambda>q. panel_step q x) (lw_panel w)\<rparr>)"

fun view_honest :: "(log_args \<Rightarrow> log_line \<Rightarrow> bool) \<Rightarrow> logs_view \<Rightarrow> logs_view_event list \<Rightarrow> bool" where
  "view_honest from w [] = True"
| "view_honest from w (e # es) =
     ((case e of PanelEvent x \<Rightarrow> (case lw_panel w of None \<Rightarrow> True | Some q \<Rightarrow> panel_client.honest_event from q x) | _ \<Rightarrow> True) \<and>
      view_honest from (logs_view_step w e) es)"

definition panel_ok :: "(log_args \<Rightarrow> log_line \<Rightarrow> bool) \<Rightarrow> log_panel \<Rightarrow> bool" where
  "panel_ok from q \<longleftrightarrow> panel_client.synced from q \<and> ls_mounted (lp_hook q)"

definition view_ok :: "(log_args \<Rightarrow> log_line \<Rightarrow> bool) \<Rightarrow> logs_view \<Rightarrow> bool" where
  "view_ok from w \<longleftrightarrow>
     (case lw_panel w of
        None \<Rightarrow> poll_running (lg_polls (lw_page w)) \<longrightarrow> (\<forall>a p. logs_body_of (lw_page w) \<noteq> Panel a p)
      | Some q \<Rightarrow> panel_ok from q \<and> logs_body_of (lw_page w) = Panel (lp_agent q) (lp_proc q))"

lemma panel_mount_ok: "panel_ok from (panel_mount a p)"
  by (simp add: panel_ok_def panel_mount_synced) (simp add: panel_mount_def mount_keeps)

lemma panel_props_ok:
  "panel_ok from q \<Longrightarrow> panel_ok from (panel_step q (PanelProps a p)) \<and>
   lp_agent (panel_step q (PanelProps a p)) = a \<and> lp_proc (panel_step q (PanelProps a p)) = p"
  using panel_client.synced_step [of "from" q "PanelProps a p"]
  by (simp add: panel_ok_def panel_client.honest_event_def) (simp add: panel_step_def panel_render_def rerender_keeps)

lemma panel_event_ok:
  assumes "panel_ok from q" "panel_client.honest_event from q x" "x \<noteq> PanelLeave" "\<forall>a p. x \<noteq> PanelProps a p"
  shows "panel_ok from (panel_step q x) \<and> lp_agent (panel_step q x) = lp_agent q \<and> lp_proc (panel_step q x) = lp_proc q"
  using assms panel_client.synced_step [of "from" q x]
  by (cases x) (simp_all add: panel_ok_def panel_step_def panel_render_def rerender_keeps hook_step_keeps)

lemma show_panel_ok:
  assumes "\<forall>q. pn = Some q \<longrightarrow> panel_ok from q"
  shows "case show_panel s pn of
      None \<Rightarrow> \<forall>a p. logs_body_of s \<noteq> Panel a p
    | Some q \<Rightarrow> panel_ok from q \<and> logs_body_of s = Panel (lp_agent q) (lp_proc q)"
  using assms panel_mount_ok panel_props_ok
  by (auto simp: show_panel_def panel_mount_def split: logs_body.split option.split)

lemma logs_view_step_ok:
  assumes "view_ok from w" "view_honest from w [e]"
  shows "view_ok from (logs_view_step w e)"
proof (cases e)
  case (PageEvent x)
  let ?p = "show_panel (before_effect (lw_page w) x) (lw_panel w)"
  have "\<forall>q. lw_panel w = Some q \<longrightarrow> panel_ok from q" using assms(1) by (simp add: view_ok_def split: option.splits)
  from show_panel_ok [OF this, of "before_effect (lw_page w) x"] have "\<forall>q. ?p = Some q \<longrightarrow> panel_ok from q"
    by (simp split: option.splits)
  from show_panel_ok [OF this, of "logs_page_step (lw_page w) x"] PageEvent show ?thesis
    by (auto simp: view_ok_def Let_def split: option.splits)
next
  case (PanelEvent x)
  then show ?thesis
    using assms panel_event_ok [of "from" _ x] by (cases x) (auto simp: view_ok_def split: option.splits)
qed

lemma logs_view_run_ok: "view_ok from w \<Longrightarrow> view_honest from w es \<Longrightarrow> view_ok from (foldl logs_view_step w es)"
proof (induction es arbitrary: w)
  case (Cons e es)
  then show ?case using logs_view_step_ok [of "from" w e] by simp
qed simp

text \<open>The page is mounted with a live poll and left with none, and then without a panel; it never logs out.\<close>

lemma sync_proc_polls [simp]: "lg_polls (sync_proc s) = lg_polls s"
  by (simp add: sync_proc_def split: option.split)

lemma logs_polls_step:
  "lg_polls (logs_page_step s e) =
     (case e of
        FleetLoaded j f \<Rightarrow> (case poll_take j (lg_polls s) of None \<Rightarrow> lg_polls s | Some (_, _, p) \<Rightarrow> p)
      | ReloadFleet \<Rightarrow> poll_tick () (lg_polls s)
      | LeaveLogs \<Rightarrow> poll_cleanup (lg_polls s)
      | _ \<Rightarrow> lg_polls s)"
  by (cases e) (auto simp: fleet_loaded_def select_agent_def select_proc_def Let_def split: option.split sum.split)

definition logs_idle :: "logs_view \<Rightarrow> bool" where
  "logs_idle w \<longleftrightarrow> polls_idle (lg_polls (lw_page w)) \<and> lw_panel w = None"

interpretation logs_mounted: mounted_page logs_view_step "PageEvent LeaveLogs" "\<lambda>w. polls_live (lg_polls (lw_page w))" logs_idle
    "\<lambda>_. 0"
proof (unfold_locales, goal_cases)
  case (1 w e)
  then show ?case
  proof (cases e)
    case (PageEvent x)
    with 1 have "polls_live (lg_polls (logs_page_step (lw_page w) x))"
      by (auto simp: logs_polls_step polls_live_tick dest: polls_live_take split: logs_page_event.split option.split)
    with PageEvent show ?thesis by (simp add: Let_def)
  next
    case (PanelEvent x)
    with 1 show ?thesis by (cases x) simp_all
  qed
next
  case (2 w)
  then have "polls_idle (lg_polls (logs_page_step (lw_page w) LeaveLogs))" by (simp add: polls_idle_cleanup polls_live_ok)
  then show ?case by (simp add: logs_idle_def Let_def polls_idle_not_running)
next
  case (3 w e)
  show ?case
  proof (cases e)
    case (PageEvent x)
    from 3 have "polls_idle (lg_polls (logs_page_step (lw_page w) x))"
      by (auto simp: logs_idle_def logs_polls_step polls_idle_tick polls_idle_cleanup polls_idle_ok dest: polls_idle_take
          split: logs_page_event.split option.split)
    with PageEvent show ?thesis by (simp add: logs_idle_def Let_def polls_idle_not_running)
  next
    case (PanelEvent x)
    with 3 show ?thesis by (cases x) (simp_all add: logs_idle_def)
  qed
qed

section \<open>Properties\<close>

definition sample_proc :: proc where
  "sample_proc = \<lparr>p_name = js ''web'', p_state = [], p_pid = 0, p_uptime_ms = 0, p_restarts = 0, p_cpu = 0, p_mem = 0,
     p_source = None, p_detail = None, p_credential = None, p_threads = 0, p_open_fds = 0, p_exit_code = 0,
     p_exit_reason = None, p_restarts_24h = 0, p_last_restart_unix = None\<rparr>"

definition sample_agent :: agent where
  "sample_agent = \<lparr>a_name = js ''dev'', a_connected = True, a_last_seen_unix = 0, a_procs = [sample_proc], a_hostname = None,
     a_ip = None, a_os = None, a_arch = None, a_version = None, a_boot_unix = None, a_host = None\<rparr>"

lemma sample_simps: "a_name sample_agent = js ''dev''" "a_connected sample_agent" "a_procs sample_agent = [sample_proc]"
  "p_name sample_proc = js ''web''"
  by (simp_all add: sample_agent_def sample_proc_def)

lemma sample_body:
  "logs_body_of (logs_page_step (logs_page_mount None None) (FleetLoaded 0 (Response (answered [sample_agent])))) =
   Panel (js ''dev'') (js ''web'')"
  "poll_running (lg_polls (logs_page_step (logs_page_mount None None) (FleetLoaded 0 (Response (answered [sample_agent])))))"
  by (simp_all add: logs_page_mount_def fleet_loaded_def poll_start_def poll_send_def poll_cleanup_def no_polls_def poll_take_def
      poll_stopped_def poll_running_def getFleet_res_def json_or_401_def answered_def sync_proc_def default_agent_def logs_body_of_def
      sample_simps Let_def)

text \<open>The selection of the log page is coherent: after any events, when the selected agent is in
  the fleet the selected process is one of its processes, or none when it has none, so the
  panel never streams a process of another agent; and a selection the user can see survives
  every later fleet that still has it, and every failed load.\<close>

lemma logs_selection:
  "let s = foldl logs_page_step (logs_page_mount initAgent initProc) es
   in (logs_body_of s = Panel a p \<and> find_first (\<lambda>x. a_name x = a) (lg_fleet s) = Some x \<longrightarrow> p \<in> p_name ` set (a_procs x)) \<and>
      (logs_body_of s = Panel a p \<and> list_all (fleet_event a p) fs \<longrightarrow>
         lg_agent (foldl logs_page_step s fs) = a \<and> lg_proc (foldl logs_page_step s fs) = p)"
proof -
  let ?s = "foldl logs_page_step (logs_page_mount initAgent initProc) es"
  have ok: "selection_ok ?s" by (rule selection_run_ok) (simp add: selection_ok_def logs_page_mount_def)
  have body: "lg_agent ?s = a \<and> lg_proc ?s = p \<and> a \<noteq> [] \<and> p \<noteq> []" if "logs_body_of ?s = Panel a p"
    using that by (simp add: logs_body_of_def split: if_splits)
  show ?thesis
    using ok body fleet_events_keep [of ?s fs] by (auto simp: selection_ok_def Let_def split: if_splits)
qed

text \<open>C36. The log page streams what its selectors say: when every answer holds lines of the process,
  stream and limit its request asked for, then after any events of the page and of its panel,
  late answers and changes of the selection included, a panel is mounted exactly when the page
  shows one, it polls for the agent and process selected, and each of its at most 5000 lines is
  of these.\<close>

theorem logs_page_streams:
  assumes "view_honest from (logs_view_mount initAgent initProc) es"
  shows "let w = foldl logs_view_step (logs_view_mount initAgent initProc) es
    in case lw_panel w of
         None \<Rightarrow> poll_running (lg_polls (lw_page w)) \<longrightarrow> (\<forall>a p. logs_body_of (lw_page w) \<noteq> Panel a p)
       | Some q \<Rightarrow> logs_body_of (lw_page w) = Panel (lp_agent q) (lp_proc q) \<and> ls_interval (lp_hook q) \<noteq> None \<and>
           ls_args (lp_hook q) = panel_args q \<and>
           list_all (\<lambda>l. from (panel_args q) l) (panel_lines lower compile q) \<and> length (panel_lines lower compile q) \<le> 5000"
proof -
  let ?w = "foldl logs_view_step (logs_view_mount initAgent initProc) es"
  have "view_ok from ?w"
    by (rule logs_view_run_ok [OF _ assms]) (simp add: view_ok_def logs_view_mount_def logs_page_mount_def logs_body_of_def)
  moreover have "ls_interval (lp_hook q) \<noteq> None \<and> ls_args (lp_hook q) = panel_args q \<and>
      list_all (\<lambda>l. from (panel_args q) l) (panel_lines lower compile q) \<and> length (panel_lines lower compile q) \<le> 5000"
    if "panel_ok from q" for q
  proof -
    have s: "panel_client.synced from q" "ls_mounted (lp_hook q)" using that by (simp_all add: panel_ok_def)
    have "length (panel_lines lower compile q) \<le> length (ls_lines (lp_hook q))"
      by (simp add: panel_lines_def filteredLines_def)
    also have "\<dots> \<le> 5000" by (rule panel_client.synced_lines(2) [OF s(1)])
    finally show ?thesis
      using panel_client.synced_lines(1,3) [OF s(1)] s
      by (auto simp: panel_client.synced_def panel_lines_def filteredLines_def list_all_iff)
  qed
  ultimately show ?thesis by (auto simp: view_ok_def Let_def split: option.splits)
qed

theorem logs_page_streams_witness:
  "let es = [PageEvent (FleetLoaded 0 (Response (answered [sample_agent])))];
       w = foldl logs_view_step (logs_view_mount None None) es
   in view_honest (\<lambda>a l. l_name l = ag_proc a) (logs_view_mount None None) es \<and>
      map_option (\<lambda>q. (lp_agent q, lp_proc q)) (lw_panel w) = Some (js ''dev'', js ''web'')"
proof -
  let ?es = "[PageEvent (FleetLoaded 0 (Response (answered [sample_agent])))]"
  define w where "w = foldl logs_view_step (logs_view_mount None None) ?es"
  have h: "view_honest (\<lambda>a l. l_name l = ag_proc a) (logs_view_mount None None) ?es" by simp
  have page: "lw_page w = logs_page_step (logs_page_mount None None) (FleetLoaded 0 (Response (answered [sample_agent])))"
    by (simp add: w_def logs_view_mount_def Let_def)
  note shown = logs_page_streams [OF h, of id "\<lambda>_. None", folded w_def, unfolded Let_def]
  have "lw_panel w \<noteq> None"
  proof
    assume "lw_panel w = None"
    with shown sample_body show False by (simp del: logs_page_step.simps add: page)
  qed
  then obtain q where q: "lw_panel w = Some q" by blast
  have "logs_body_of (lw_page w) = Panel (lp_agent q) (lp_proc q)"
    using shown by (simp add: q)
  then have "lp_agent q = js ''dev'' \<and> lp_proc q = js ''web''"
    using sample_body(1) by (simp add: page del: logs_page_step.simps)
  with q show ?thesis using h unfolding Let_def w_def [symmetric] by simp
qed

end
