(* ===== verification/Overview.thy ===== *)
theory Overview imports Api Polling Format Router FleetSummary Charts Ledger begin

text \<open>
  The fleet page (web/src/Overview.tsx): the fleet and metrics polls, the cells, the section of
  each agent and the row of each process with its quick actions, and the dialogs it opens.
\<close>

section \<open>State\<close>

record trend =
  tr_cpu :: "rat list"
  tr_mem :: "rat list"

type_synonym series = "jstr \<rightharpoonup> (jstr \<rightharpoonup> trend)"

text \<open>
  \<open>ov_sent\<close> are the control requests of the rows, \<open>ov_opened\<close> the processes whose page a click
  on a row opened, and \<open>ov_logouts\<close> counts the calls of \<open>onLogout\<close>.
\<close>

record overview =
  ov_agents :: "agent list"
  ov_metrics :: series
  ov_add :: bool
  ov_connect :: bool
  ov_live :: "(jstr \<times> jstr) option"
  ov_fleet :: "(unit, unit, unit) polls"
  ov_polls :: "(unit, unit, unit) polls"
  ov_sent :: "(jstr \<times> jstr \<times> control_action) list"
  ov_opened :: "(jstr \<times> jstr) list"
  ov_logouts :: nat

definition overview_mount :: overview where
  "overview_mount =
     \<lparr>ov_agents = [], ov_metrics = Map.empty, ov_add = False, ov_connect = False, ov_live = None,
      ov_fleet = poll_start () () () no_polls, ov_polls = poll_start () () () no_polls, ov_sent = [],
      ov_opened = [], ov_logouts = 0\<rparr>"

section \<open>Polls\<close>

definition overview_fleet :: "nat \<Rightarrow> agent list fetched \<Rightarrow> overview \<Rightarrow> overview" where
  "overview_fleet j f s =
     (case poll_take j (ov_fleet s) of
        None \<Rightarrow> s
      | Some (i, _, p) \<Rightarrow>
          let s' = s\<lparr>ov_fleet := p\<rparr>
          in case reply f getFleet_res of
               Inl _ \<Rightarrow> if poll_stopped i p then s' else s'\<lparr>ov_logouts := ov_logouts s' + 1\<rparr>
             | Inr agents \<Rightarrow> if poll_stopped i p then s' else s'\<lparr>ov_agents := agents\<rparr>)"

definition trend_of :: "proc_metrics \<Rightarrow> trend" where
  "trend_of p = \<lparr>tr_cpu = map cpu_avg (pm_buckets p), tr_mem = map mem_avg (pm_buckets p)\<rparr>"

definition series_of :: "agent_metrics list \<Rightarrow> series" where
  "series_of data =
     foldl (\<lambda>next a. next(am_agent a \<mapsto> foldl (\<lambda>m p. m(pm_name p \<mapsto> trend_of p)) Map.empty (am_procs a))) Map.empty data"

definition overview_metrics :: "nat \<Rightarrow> agent_metrics list fetched \<Rightarrow> overview \<Rightarrow> overview" where
  "overview_metrics j f s =
     (case poll_take j (ov_polls s) of
        None \<Rightarrow> s
      | Some (i, _, p) \<Rightarrow>
          let s' = s\<lparr>ov_polls := p\<rparr>
          in case reply f getMetrics_res of
               Inl _ \<Rightarrow> s'
             | Inr data \<Rightarrow> if poll_stopped i p then s' else s'\<lparr>ov_metrics := series_of data\<rparr>)"

text \<open>
  \<open>onLogout\<close> changes with every render of the app, which runs the fleet effect again, as long as
  the page is mounted: then the last run is live.
\<close>

definition overview_rerender :: "overview \<Rightarrow> overview" where
  "overview_rerender s =
     (if poll_running (ov_fleet s) then s\<lparr>ov_fleet := poll_start () () () (ov_fleet s)\<rparr> else s)"

section \<open>The cells\<close>

definition procsWithRestarts :: "agent list \<Rightarrow> nat" where
  "procsWithRestarts agents = length (filter (\<lambda>p. p_restarts_24h p > 0) (concat (map a_procs agents)))"

definition overview_cells :: "agent list \<Rightarrow> cell list" where
  "overview_cells agents =
     (let fs = fleetSummary agents; n = procsWithRestarts agents
      in [Cell (js ''Agents'') (dec_nat (fs_agents fs)) None
            (Some (dec_nat (fs_online fs) @ js '' online '' @ middle_dot @ js '' '' @ dec_nat (fs_errored fs) @ js '' errored'')) None,
          Cell (js ''Running'') (dec_nat (fs_running fs)) None
            (Some (js ''of '' @ dec_nat (fs_total fs) @ js '' processes'')) None,
          Cell (js ''Errored'') (dec_nat (fs_errored fs)) None (Some (nullish (fs_errored_name fs) (js ''none''))) (Some Rose),
          Cell (js ''Avg CPU'') (case fs_avg_cpu fs of None \<Rightarrow> em_dash | Some x \<Rightarrow> dec_int (Math_round x))
            (case fs_avg_cpu fs of None \<Rightarrow> None | Some _ \<Rightarrow> Some (js ''%'')) (Some (js ''across fleet'')) (Some Teal),
          Cell (js ''Total Mem'') (case fs_mem_used fs of None \<Rightarrow> em_dash | Some x \<Rightarrow> formatBytes (of_int x)) None
            (Some (case fs_mem_total fs of None \<Rightarrow> [] | Some x \<Rightarrow> js ''of '' @ formatBytes (of_int x))) (Some Indigo),
          Cell (js ''Restarts 24h'') (dec_int (fs_restarts fs)) None
            (Some (dec_nat n @ js '' proc'' @ (if n \<noteq> 1 then js ''s'' else []))) (Some Amber)])"

section \<open>Sections and rows\<close>

definition given :: "jstr option \<Rightarrow> jstr list" where
  "given s = (if nullish s [] \<noteq> [] then [nullish s []] else [])"

definition metaLine :: "rat \<Rightarrow> agent \<Rightarrow> jstr" where
  "metaLine now a =
     join (js '' '' @ middle_dot @ js '' '')
       (given (a_ip a)
        @ (let os = given (a_os a) @ given (a_arch a) in if os \<noteq> [] then [join (js ''/'') os] else [])
        @ (if a_last_seen_unix a \<noteq> 0 then [js ''seen '' @ relativeTime (a_last_seen_unix a) now] else []))"

definition agentErrored :: "agent \<Rightarrow> bool" where
  "agentErrored a \<longleftrightarrow> (\<exists>p \<in> set (a_procs a). sr_kind (statusOf (p_state p)) = Errored)"

definition section_header :: "nat \<Rightarrow> agent \<Rightarrow> jstr list \<times> jstr" where
  "section_header ai a =
     (SectionHeader_text (padStart 2 0x30 (dec_nat (ai + 1))) (a_name a) (Some (dec_nat (length (a_procs a)) @ js '' proc'')),
      js ''glyph '' @ (if agentErrored a then js ''g-er'' else js ''g-on''))"

record process_row =
  pr_index :: jstr
  pr_name :: jstr
  pr_sub :: jstr
  pr_glyph :: glyph
  pr_pid :: jstr
  pr_cpu :: jstr
  pr_mem :: jstr
  pr_uptime :: jstr
  pr_restarts :: jstr
  pr_trend :: "rat list"

definition row_uptime :: "rat \<Rightarrow> proc \<Rightarrow> jstr" where
  "row_uptime now p =
     (let uptime = \<lfloor>now\<rfloor> - \<lfloor>of_int (p_uptime_ms p) / (1000 :: rat)\<rfloor>
      in if p_uptime_ms p > 0 then relativeTime uptime now else em_dash)"

definition cpuSeries :: "series \<Rightarrow> jstr \<Rightarrow> jstr \<Rightarrow> rat list" where
  "cpuSeries m a p = nullish (map_option tr_cpu (Option.bind (m a) (\<lambda>ps. ps p))) []"

definition source_text :: "source_kind option \<Rightarrow> jstr" where
  "source_text s = (case s of None \<Rightarrow> [] | Some SrcCommand \<Rightarrow> js ''command'' | Some SrcGit \<Rightarrow> js ''git'')"

definition process_row_of :: "rat \<Rightarrow> series \<Rightarrow> agent \<Rightarrow> nat \<Rightarrow> proc \<Rightarrow> process_row" where
  "process_row_of now m a k p =
     (let errored = (sr_kind (statusOf (p_state p)) = Errored); blank = (\<lambda>t. if errored then em_dash else t)
      in \<lparr>pr_index = padStart 2 0x30 (dec_nat (k + 1)), pr_name = p_name p,
          pr_sub = source_text (p_source p) @
            (if nullish (p_detail p) [] \<noteq> [] then js '' '' @ middle_dot @ js '' '' @ nullish (p_detail p) [] else []),
          pr_glyph = StatusGlyph (p_state p),
          pr_pid = blank (if p_pid p \<noteq> 0 then dec_int (p_pid p) else em_dash),
          pr_cpu = blank (toFixed 0 (p_cpu p) @ js ''%''),
          pr_mem = blank (if p_mem p > 0 then toFixed 1 (of_int (p_mem p) / 1048576) @ js ''MB'' else em_dash),
          pr_uptime = blank (row_uptime now p),
          pr_restarts = dec_int (p_restarts_24h p),
          pr_trend = cpuSeries m (a_name a) (p_name p)\<rparr>)"

section \<open>Actions\<close>

definition row_control :: "control_action \<Rightarrow> jstr \<Rightarrow> jstr \<Rightarrow> overview \<Rightarrow> overview" where
  "row_control act a p s = s\<lparr>ov_sent := ov_sent s @ [(a, p, act)]\<rparr>"

definition rowActions :: "jstr \<Rightarrow> jstr \<Rightarrow> (overview \<Rightarrow> overview) list" where
  "rowActions a p =
     [(\<lambda>s. s\<lparr>ov_live := Some (a, p)\<rparr>), row_control Restart a p, row_control Reload a p, row_control Stop a p]"

definition click_process :: "jstr \<Rightarrow> jstr \<Rightarrow> row_target \<Rightarrow> overview \<Rightarrow> overview" where
  "click_process a p =
     LedgerRow_click (Some (\<lambda>s. s\<lparr>ov_opened := ov_opened s @ [(a, p)]\<rparr>)) (rowActions a p)"

section \<open>Events\<close>

datatype overview_event =
    OvFleetTick | OvMetricsTick | OvFleet nat "agent list fetched" | OvMetrics nat "agent_metrics list fetched"
  | OvRerender | OvClick jstr jstr row_target | OvAdd bool | OvConnect bool | OvCloseLive | OvLeave

fun overview_step :: "overview \<Rightarrow> overview_event \<Rightarrow> overview" where
  "overview_step s OvFleetTick = s\<lparr>ov_fleet := poll_tick () (ov_fleet s)\<rparr>"
| "overview_step s OvMetricsTick = s\<lparr>ov_polls := poll_tick () (ov_polls s)\<rparr>"
| "overview_step s (OvFleet j f) = overview_fleet j f s"
| "overview_step s (OvMetrics j f) = overview_metrics j f s"
| "overview_step s OvRerender = overview_rerender s"
| "overview_step s (OvClick a p t) = click_process a p t s"
| "overview_step s (OvAdd b) = s\<lparr>ov_add := b\<rparr>"
| "overview_step s (OvConnect b) = s\<lparr>ov_connect := b\<rparr>"
| "overview_step s OvCloseLive = s\<lparr>ov_live := None\<rparr>"
| "overview_step s OvLeave = s\<lparr>ov_fleet := poll_cleanup (ov_fleet s), ov_polls := poll_cleanup (ov_polls s)\<rparr>"

fun overview_takes :: "overview \<Rightarrow> overview_event \<Rightarrow> (nat \<times> agent list) option" where
  "overview_takes s (OvFleet j f) =
     (case poll_take j (ov_fleet s) of
        None \<Rightarrow> None
      | Some (i, _, p) \<Rightarrow> if poll_stopped i p then None
          else case reply f getFleet_res of Inl _ \<Rightarrow> None | Inr agents \<Rightarrow> Some (i, agents))"
| "overview_takes s _ = None"

section \<open>The fleet poll\<close>

lemma overview_polls_step:
  "ov_fleet (overview_step s e) =
     (case e of
        OvFleetTick \<Rightarrow> poll_tick () (ov_fleet s)
      | OvFleet j f \<Rightarrow> (case poll_take j (ov_fleet s) of None \<Rightarrow> ov_fleet s | Some (_, _, p) \<Rightarrow> p)
      | OvRerender \<Rightarrow> if poll_running (ov_fleet s) then poll_start () () () (ov_fleet s) else ov_fleet s
      | OvLeave \<Rightarrow> poll_cleanup (ov_fleet s)
      | _ \<Rightarrow> ov_fleet s)"
  by (cases e) (auto simp: overview_fleet_def overview_metrics_def overview_rerender_def click_process_def LedgerRow_click_def
      rowActions_def row_control_def Let_def nth_Cons' split: option.split sum.split row_target.split)

lemma overview_shown_step:
  "ov_agents (overview_step s e) = (case overview_takes s e of None \<Rightarrow> ov_agents s | Some (i, d) \<Rightarrow> d)"
  by (cases e) (auto simp: overview_fleet_def overview_metrics_def overview_rerender_def click_process_def LedgerRow_click_def
      rowActions_def row_control_def Let_def nth_Cons' split: option.split sum.split row_target.split)

lemma overview_takes_Some:
  "overview_takes s e = Some t \<Longrightarrow> \<exists>j p. poll_take j (ov_fleet s) = Some (fst t, (), p) \<and> \<not> poll_stopped (fst t) p"
proof (cases e)
  case (OvFleet j f)
  assume "overview_takes s e = Some t"
  with OvFleet show ?thesis
    by (intro exI [of _ j]) (auto split: option.splits if_splits sum.splits)
qed simp_all

interpretation overview_poll: guarded_poll "\<lambda>s. polls_ok (ov_fleet s)" overview_step "\<lambda>s. length (pl_runs (ov_fleet s))"
    overview_takes ov_agents
proof (unfold_locales, goal_cases)
  case (1 s e)
  then show ?case
    by (auto simp: overview_polls_step polls_ok_start polls_ok_tick polls_ok_cleanup dest: poll_take_ok
        split: overview_event.split option.split)
next
  case (2 s e)
  show ?case by (auto simp: overview_polls_step poll_take_runs split: overview_event.split option.split)
next
  case (3 s e i d)
  then show ?case using overview_takes_Some [OF 3(2)] poll_take_live by fastforce
qed (rule overview_shown_step)

lemma overview_mount_ok [simp]: "polls_ok (ov_fleet overview_mount)"
  by (simp add: overview_mount_def polls_ok_start)

text \<open>A live fleet request gets no usable answer: no answer at all, a 401, or a body that is not JSON.\<close>

definition unusable :: "'a fetched \<Rightarrow> bool" where
  "unusable f = (case f of NetworkError _ \<Rightarrow> True | Response r \<Rightarrow> status r = 401 \<or> (case json_body r of Inl _ \<Rightarrow> True | Inr _ \<Rightarrow> False))"

fun fleet_fails :: "overview_event \<Rightarrow> overview \<Rightarrow> bool" where
  "fleet_fails (OvFleet j f) s =
     (case poll_take j (ov_fleet s) of None \<Rightarrow> False | Some (i, _, p) \<Rightarrow> \<not> poll_stopped i p \<and> unusable f)"
| "fleet_fails _ s = False"

lemma reply_unusable: "(\<exists>x. reply f getFleet_res = Inl x) \<longleftrightarrow> unusable f"
  by (cases f) (auto simp: unusable_def getFleet_res_def json_or_401_def split: sum.split)

lemma logout_step: "ov_logouts (overview_step s e) = ov_logouts s + (if fleet_fails e s then 1 else 0)"
proof (cases e)
  case (OvFleet j f)
  then show ?thesis
    using reply_unusable [of f] by (auto simp: overview_fleet_def Let_def split: option.split sum.split)
next
  case (OvMetrics j f)
  then show ?thesis by (simp add: overview_metrics_def Let_def split: option.split sum.split)
next
  case (OvClick a p t)
  then show ?thesis
    by (simp add: click_process_def LedgerRow_click_def rowActions_def row_control_def nth_Cons' split: row_target.split)
qed (simp_all add: overview_rerender_def)

lemma fleet_fails_takes: "fleet_fails e s \<Longrightarrow> overview_takes s e = None"
proof (cases e)
  case (OvFleet j f)
  assume "fleet_fails e s"
  with OvFleet show ?thesis using reply_unusable [of f] by (auto split: option.splits)
qed simp_all

text \<open>
  The page while it is mounted and once it was left: then its polls are over, and nothing that
  still arrives is shown or acted on.
\<close>

definition overview_live :: "overview \<Rightarrow> bool" where
  "overview_live s \<longleftrightarrow> polls_live (ov_fleet s) \<and> polls_live (ov_polls s)"

definition overview_idle :: "overview \<Rightarrow> bool" where
  "overview_idle s \<longleftrightarrow> polls_idle (ov_fleet s) \<and> polls_idle (ov_polls s)"

lemma overview_metrics_step:
  "ov_polls (overview_step s e) =
     (case e of
        OvMetricsTick \<Rightarrow> poll_tick () (ov_polls s)
      | OvMetrics j f \<Rightarrow> (case poll_take j (ov_polls s) of None \<Rightarrow> ov_polls s | Some (_, _, p) \<Rightarrow> p)
      | OvLeave \<Rightarrow> poll_cleanup (ov_polls s)
      | _ \<Rightarrow> ov_polls s)"
  by (cases e) (auto simp: overview_fleet_def overview_metrics_def overview_rerender_def click_process_def LedgerRow_click_def
      rowActions_def row_control_def Let_def nth_Cons' split: option.split sum.split row_target.split)

lemma fleet_fails_idle: "polls_idle (ov_fleet s) \<Longrightarrow> \<not> fleet_fails e s"
  by (cases e) (auto dest: polls_idle_take split: option.split)

interpretation overview_mounted: mounted_page overview_step OvLeave overview_live overview_idle ov_logouts
proof (unfold_locales, goal_cases)
  case (1 s e)
  then have "polls_live (ov_fleet (overview_step s e))" "polls_live (ov_polls (overview_step s e))"
    by (auto simp: overview_live_def overview_polls_step overview_metrics_step polls_live_ok polls_live_tick
        dest: polls_live_take split: overview_event.split option.split)
  then show ?case by (simp add: overview_live_def)
next
  case (2 s)
  then show ?case by (simp add: overview_live_def overview_idle_def polls_idle_cleanup polls_live_ok)
next
  case (3 s e)
  then have "polls_idle (ov_fleet (overview_step s e))" "polls_idle (ov_polls (overview_step s e))"
    by (auto simp: overview_idle_def overview_polls_step overview_metrics_step polls_idle_not_running polls_idle_ok
        polls_idle_tick polls_idle_cleanup dest: polls_idle_take split: overview_event.split option.split)
  with 3 show ?case by (simp add: overview_idle_def logout_step fleet_fails_idle)
qed

lemma overview_polls_ok: "polls_ok (ov_polls s) \<Longrightarrow> polls_ok (ov_polls (foldl overview_step s es))"
proof (induction es arbitrary: s)
  case (Cons e es)
  have "polls_ok (ov_polls (overview_step s e))"
    using Cons.prems by (auto simp: overview_metrics_step polls_ok_tick polls_ok_cleanup dest: poll_take_ok
        split: overview_event.split option.split)
  then show ?case using Cons.IH by simp
qed simp

text \<open>The figures of a page left stay as they are.\<close>

lemma overview_left_run:
  "overview_idle s \<Longrightarrow> ov_agents (foldl overview_step s es) = ov_agents s \<and> ov_logouts (foldl overview_step s es) = ov_logouts s"
proof (induction es arbitrary: s)
  case (Cons e es)
  have "overview_takes s e = None"
  proof (rule ccontr)
    assume "overview_takes s e \<noteq> None"
    then obtain u where "overview_takes s e = Some u" by blast
    from overview_takes_Some [OF this] obtain j p where
      "poll_take j (ov_fleet s) = Some (fst u, (), p)" "\<not> poll_stopped (fst u) p" by blast
    then show False using polls_idle_take(2) [of "ov_fleet s"] Cons.prems by (simp add: overview_idle_def)
  qed
  then show ?case
    using Cons.IH [of "overview_step s e"] overview_mounted.idle_step [OF Cons.prems, of e] overview_shown_step [of s e] by simp
qed simp

section \<open>Lemmas\<close>

lemma put_all_lookup:
  "foldl (\<lambda>m x. m(k x \<mapsto> v x)) m0 xs a = (case find_first (\<lambda>x. k x = a) (rev xs) of None \<Rightarrow> m0 a | Some x \<Rightarrow> Some (v x))"
  by (induction xs rule: rev_induct) auto

text \<open>A click on a row action acts on that process only, and does not open its page.\<close>

lemma row_actions_unconfirmed:
  "ov_sent (overview_step s (OvClick a p (OnAction 3))) = ov_sent s @ [(a, p, Stop)]"
  "ov_opened (overview_step s (OvClick a p (OnAction i))) = ov_opened s"
  by (auto simp: click_process_def LedgerRow_click_def rowActions_def row_control_def nth_Cons' split: if_splits)

section \<open>Properties\<close>

text \<open>The trend of a row is the history of its process: for every answer of the metrics
  endpoint the points drawn for process \<open>p\<close> of agent \<open>a\<close> are the CPU averages of the buckets
  of the last entry of that name in the last entry of that agent, and none when the answer
  has no such entry.\<close>

lemma trend_of_process:
  "cpuSeries (series_of data) a p =
     (case find_first (\<lambda>x. am_agent x = a) (rev data) of
        None \<Rightarrow> []
      | Some x \<Rightarrow> (case find_first (\<lambda>y. pm_name y = p) (rev (am_procs x)) of None \<Rightarrow> [] | Some y \<Rightarrow> map cpu_avg (pm_buckets y)))"
  by (simp add: cpuSeries_def series_of_def put_all_lookup trend_of_def split: option.split)


end
