(* ===== verification/FleetDialogs.thy ===== *)
theory FleetDialogs imports AddApp Overview begin

text \<open>
  The dialogs of the fleet page as machines: the add dialog (web/src/AddAppModal.tsx) with the
  fields it shows, its inputs and its submissions in flight, inside the page that opens and
  closes it (web/src/Overview.tsx), and the connect dialog (web/src/ConnectAgentModal.tsx).
\<close>

section \<open>The fields of the add dialog\<close>

datatype add_field =
    FAgent | FSource | FName | FRepo | FRef | FBuild | FCredential | FCmd | FArgs | FCwd | FInstances
  | FSubdir | FEnv | FRestart | FMaxRestarts | FKillTimeout | FMaxMemory

record form_field =
  ff_field :: add_field
  ff_label :: jstr
  ff_required :: bool
  ff_hint :: "jstr option"
  ff_placeholder :: "jstr option"

definition field_view :: "add_field \<Rightarrow> jstr \<Rightarrow> bool \<Rightarrow> jstr option \<Rightarrow> jstr option \<Rightarrow> form_field" where
  "field_view x label req hint placeholder =
     \<lparr>ff_field = x, ff_label = label, ff_required = req, ff_hint = hint, ff_placeholder = placeholder\<rparr>"

definition shown_if :: "bool \<Rightarrow> 'a \<Rightarrow> 'a list" where
  "shown_if b x = (if b then [x] else [])"

text \<open>What the dialog renders, in order, for a kind of source and the state of the advanced part.\<close>

definition add_fields :: "source_type \<Rightarrow> bool \<Rightarrow> form_field list" where
  "add_fields ty adv =
     (let git = (ty = TGit); dash = js '' '' @ em_dash @ js '' leave blank ''
      in [field_view FAgent (js ''target agent'') False None None,
          field_view FSource (js ''source'') False None None,
          field_view FName (js ''name'') False None (Some (js ''web''))]
         @ shown_if git (field_view FRepo (js ''repo'') True (Some (js ''Full HTTPS or SSH URL of the repository to clone''))
             (Some (js ''https://github.com/user/repo'')))
         @ shown_if git (field_view FRef (js ''ref'') False
             (Some (js ''Branch, tag, or commit to check out'' @ dash @ js ''for the default branch'')) (Some (js ''default branch'')))
         @ shown_if git (field_view FBuild (js ''build command'') False
             (Some (js ''Runs once after clone to build the project'' @ dash @ js ''to auto-detect'')) (Some (js ''auto-detect'')))
         @ shown_if git (field_view FCredential (js ''credential'') False None None)
         @ [field_view FCmd (if git then js ''start command'' else js ''command'') False None (Some (js ''/usr/bin/node'')),
            field_view FArgs (js ''args'') False None (Some (js ''server.js --port 3000''))]
         @ shown_if (\<not> git) (field_view FCwd (js ''working dir'') False None (Some (js ''/srv/app'')))
         @ [field_view FInstances (js ''instances'') False None (Some (js ''1''))]
         @ (if adv
            then shown_if git (field_view FSubdir (js ''subdir'') False None (Some (js ''packages/server'')))
                 @ [field_view FEnv (js ''env'') False None None,
                    field_view FRestart (js ''restart'') False None None]
                 @ shown_if (\<not> git) (field_view FMaxRestarts (js ''max restarts'') False None (Some (js ''16'')))
                 @ shown_if (\<not> git) (field_view FKillTimeout (js ''kill timeout'') False None (Some (js ''5s'')))
                 @ [field_view FMaxMemory (js ''max memory restart (MB, 0 = off)'') False None (Some (js ''0''))]
            else []))"

definition RESTART_VALUES :: "jstr list" where
  "RESTART_VALUES = [js ''always'', js ''on-failure'', js ''no'']"

section \<open>The add dialog\<close>

record add_modal =
  am_form :: add_form
  am_creds :: "credential_meta list"
  am_adv :: bool

definition add_modal_mount :: "agent list \<Rightarrow> add_modal" where
  "add_modal_mount agents = \<lparr>am_form = add_mount agents, am_creds = [], am_adv = False\<rparr>"

fun set_field :: "add_field \<Rightarrow> jstr \<Rightarrow> add_form \<Rightarrow> add_form" where
  "set_field FAgent v f = f\<lparr>af_agent := v\<rparr>"
| "set_field FName v f = f\<lparr>af_name := v\<rparr>"
| "set_field FRepo v f = f\<lparr>af_repo := v\<rparr>"
| "set_field FRef v f = f\<lparr>af_ref := v\<rparr>"
| "set_field FBuild v f = f\<lparr>af_build := v\<rparr>"
| "set_field FCredential v f = f\<lparr>af_credential := v\<rparr>"
| "set_field FCmd v f = f\<lparr>af_cmd := v\<rparr>"
| "set_field FArgs v f = f\<lparr>af_args := v\<rparr>"
| "set_field FCwd v f = f\<lparr>af_cwd := v\<rparr>"
| "set_field FInstances v f = f\<lparr>af_instances := v\<rparr>"
| "set_field FSubdir v f = f\<lparr>af_subdir := v\<rparr>"
| "set_field FRestart v f = f\<lparr>af_restart := v\<rparr>"
| "set_field FMaxRestarts v f = f\<lparr>af_max_restarts := v\<rparr>"
| "set_field FKillTimeout v f = f\<lparr>af_kill_timeout := v\<rparr>"
| "set_field FMaxMemory v f = f\<lparr>af_max_memory := v\<rparr>"
| "set_field FSource v f = f"
| "set_field FEnv v f = f"

text \<open>
  A text field takes any text; a selector only the value of an option that is not disabled:
  a connected agent, no credential or a listed one, one of the restart policies.
\<close>

definition connected_names :: "agent list \<Rightarrow> jstr list" where
  "connected_names agents = map a_name (filter a_connected agents)"

definition offered :: "agent list \<Rightarrow> add_modal \<Rightarrow> add_field \<Rightarrow> jstr \<Rightarrow> bool" where
  "offered agents m x v \<longleftrightarrow>
     x \<in> ff_field ` set (add_fields (af_type (am_form m)) (am_adv m)) \<and>
     (case x of
        FAgent \<Rightarrow> v \<in> set (connected_names agents)
      | FCredential \<Rightarrow> v = [] \<or> v \<in> cm_name ` set (am_creds m)
      | FRestart \<Rightarrow> v \<in> set RESTART_VALUES
      | _ \<Rightarrow> True)"

datatype add_event =
    AddField add_field jstr | AddSource source_type | AddAdvanced
  | AddEnvKey nat jstr | AddEnvValue nat jstr | AddEnvRemove nat | AddEnvRow

fun add_input :: "agent list \<Rightarrow> add_modal \<Rightarrow> add_event \<Rightarrow> add_modal" where
  "add_input agents m (AddField x v) =
     (if offered agents m x v then m\<lparr>am_form := set_field x v (am_form m)\<rparr> else m)"
| "add_input agents m (AddSource t) = m\<lparr>am_form := (am_form m)\<lparr>af_type := t\<rparr>\<rparr>"
| "add_input agents m AddAdvanced = m\<lparr>am_adv := \<not> am_adv m\<rparr>"
| "add_input agents m (AddEnvKey i k) =
     (if am_adv m then m\<lparr>am_form := (am_form m)\<lparr>af_env := env_set_key i k (af_env (am_form m))\<rparr>\<rparr> else m)"
| "add_input agents m (AddEnvValue i v) =
     (if am_adv m then m\<lparr>am_form := (am_form m)\<lparr>af_env := env_set_value i v (af_env (am_form m))\<rparr>\<rparr> else m)"
| "add_input agents m (AddEnvRemove i) =
     (if am_adv m then m\<lparr>am_form := (am_form m)\<lparr>af_env := env_remove i (af_env (am_form m))\<rparr>\<rparr> else m)"
| "add_input agents m AddEnvRow =
     (if am_adv m then m\<lparr>am_form := (am_form m)\<lparr>af_env := env_add (af_env (am_form m))\<rparr>\<rparr> else m)"

definition add_label :: "add_modal \<Rightarrow> jstr" where
  "add_label m = (if af_busy (am_form m) then js ''adding'' @ ellipsis else js ''add app'')"

section \<open>The page that opens it\<close>

text \<open>
  Every add dialog mounted so far, the last one the present one; \<open>fd_sent\<close> are all requests with
  the dialog that sent them, \<open>fd_flight\<close> the dialogs of those not yet answered, and \<open>fd_listing\<close>
  those waiting for the credentials which the mount effect asks for.
\<close>

record fleet_dialogs =
  fd_page :: overview
  fd_add :: "add_modal list"
  fd_sent :: "(nat \<times> jstr \<times> app_source) list"
  fd_flight :: "nat list"
  fd_listing :: "nat list"

definition fd_mount :: fleet_dialogs where
  "fd_mount = \<lparr>fd_page = overview_mount, fd_add = [], fd_sent = [], fd_flight = [], fd_listing = []\<rparr>"

definition add_open :: "fleet_dialogs \<Rightarrow> bool" where
  "add_open s \<longleftrightarrow> ov_add (fd_page s) \<and> poll_running (ov_fleet (fd_page s))"

definition present :: "fleet_dialogs \<Rightarrow> nat" where
  "present s = length (fd_add s) - 1"

definition set_present :: "add_modal \<Rightarrow> fleet_dialogs \<Rightarrow> fleet_dialogs" where
  "set_present m s = s\<lparr>fd_add := (fd_add s)[present s := m]\<rparr>"

datatype fleet_dialog_event =
    FdPage overview_event | FdAdd add_event | FdSubmit
  | FdCredentials nat "credential_meta list fetched" | FdAnswer nat "control_result fetched"

text \<open>
  Cancel, Escape, the backdrop and the close button all call \<open>onClose\<close>, the event
  \<open>OvAdd False\<close> of the page. The closures of an answer belong to the dialog that sent the
  request: its state is gone when that dialog was closed, but \<open>onClose\<close> still acts on the page.
\<close>

fun fd_step :: "fleet_dialogs \<Rightarrow> fleet_dialog_event \<Rightarrow> fleet_dialogs" where
  "fd_step s (FdPage e) =
     (let s' = s\<lparr>fd_page := overview_step (fd_page s) e\<rparr>
      in if add_open s' \<and> \<not> add_open s
         then s'\<lparr>fd_add := fd_add s @ [add_modal_mount (ov_agents (fd_page s'))],
                 fd_listing := fd_listing s @ [length (fd_add s)]\<rparr>
         else s')"
| "fd_step s (FdAdd e) =
     (if add_open s then set_present (add_input (ov_agents (fd_page s)) (fd_add s ! present s) e) s else s)"
| "fd_step s FdSubmit =
     (if add_open s
      then let m = fd_add s ! present s; (f, r) = add_submit (am_form m)
           in case r of
                None \<Rightarrow> s
              | Some _ \<Rightarrow> set_present (m\<lparr>am_form := f\<rparr>)
                  (s\<lparr>fd_sent := fd_sent s @ [(present s, af_agent (am_form m), form_source (am_form m))],
                     fd_flight := fd_flight s @ [present s]\<rparr>)
      else s)"
| "fd_step s (FdCredentials j f) =
     (if j < length (fd_listing s)
      then let s' = s\<lparr>fd_listing := take j (fd_listing s) @ drop (Suc j) (fd_listing s)\<rparr>
           in case reply f listCredentials_res of
                Inl _ \<Rightarrow> s'
              | Inr l \<Rightarrow>
                  if add_open s \<and> fd_listing s ! j = present s
                  then set_present ((fd_add s ! present s)\<lparr>am_creds := l\<rparr>) s' else s'
      else s)"
| "fd_step s (FdAnswer k f) =
     (if k < length (fd_flight s)
      then let d = fd_flight s ! k; m = fd_add s ! d; (g, out) = add_answered f (am_form m);
               s' = s\<lparr>fd_flight := take k (fd_flight s) @ drop (Suc k) (fd_flight s)\<rparr>;
               t = (if add_open s \<and> d = present s then set_present (m\<lparr>am_form := g\<rparr>) s' else s')
           in case out of Stay \<Rightarrow> t | AddedAndClosed \<Rightarrow> t\<lparr>fd_page := overview_step (fd_page t) (OvAdd False)\<rparr>
      else s)"

section \<open>What is sent\<close>

fun complete_source :: "app_source \<Rightarrow> bool" where
  "complete_source (CommandApp c) = (cs_name c \<noteq> [] \<and> cs_cmd c \<noteq> [])"
| "complete_source (GitApp g) = (gs_name g \<noteq> [] \<and> gs_cmd g \<noteq> [] \<and> gs_repo g \<noteq> [])"

lemma submit_cases:
  "add_submit f =
     (if canSubmit f then (f\<lparr>af_busy := True, af_error := []\<rparr>, Some (addApp_req (af_agent f) (form_source f))) else (f, None))"
  by (simp add: add_submit_def)

lemma canSubmit_source: "canSubmit f \<Longrightarrow> af_agent f \<noteq> [] \<and> complete_source (form_source f) \<and> \<not> af_busy f"
  by (cases "af_type f") (auto simp: canSubmit_def form_source_def)

lemma set_field_simps [simp]:
  "af_busy (set_field x v f) = af_busy f" "af_agent (set_field x v f) = (if x = FAgent then v else af_agent f)"
  by (cases x; simp)+

lemma add_input_busy [simp]: "af_busy (am_form (add_input agents m e)) = af_busy (am_form m)"
  by (cases e) simp_all

lemma add_input_agent:
  "af_agent (am_form (add_input agents m e)) = af_agent (am_form m) \<or>
   af_agent (am_form (add_input agents m e)) \<in> set (connected_names agents)"
  by (cases e) (auto simp: offered_def)

lemma add_mount_agent: "af_agent (add_mount agents) \<in> insert [] (set (connected_names agents))"
  by (cases "filter a_connected agents") (auto simp: add_mount_def connected_names_def Let_def)

lemma answered_agent: "af_agent (fst (add_answered f m)) = af_agent m"
  by (simp add: add_answered_def Let_def split: sum.split)

definition fd_ok :: "fleet_dialogs \<Rightarrow> bool" where
  "fd_ok s \<longleftrightarrow>
     (add_open s \<longrightarrow> fd_add s \<noteq> []) \<and> distinct (fd_flight s) \<and>
     list_all (\<lambda>d. d < length (fd_add s)) (fd_flight s) \<and>
     (present s \<in> set (fd_flight s) \<longrightarrow> af_busy (am_form (fd_add s ! present s))) \<and>
     list_all (\<lambda>(d, a, src). d < length (fd_add s) \<and> a \<noteq> [] \<and> complete_source src) (fd_sent s)"

lemma set_present_simps [simp]:
  "length (fd_add (set_present m s)) = length (fd_add s)" "fd_page (set_present m s) = fd_page s"
  "fd_sent (set_present m s) = fd_sent s" "fd_flight (set_present m s) = fd_flight s"
  "fd_listing (set_present m s) = fd_listing s" "present (set_present m s) = present s"
  "fd_add s \<noteq> [] \<Longrightarrow> fd_add (set_present m s) ! present s = m"
  "(fd_add (set_present m s) = []) = (fd_add s = [])" "add_open (set_present m s) = add_open s"
  by (simp_all add: set_present_def present_def add_open_def)

lemma remove_nth_sub: "set (take k xs @ drop (Suc k) xs) \<subseteq> set xs"
  by (auto dest: in_set_takeD in_set_dropD)

lemma remove_nth_gone: "distinct xs \<Longrightarrow> k < length xs \<Longrightarrow> xs ! k \<notin> set (take k xs @ drop (Suc k) xs)"
  by (subst (asm) id_take_nth_drop [of k xs]) auto

lemma remove_nth_distinct: "distinct xs \<Longrightarrow> distinct (take k xs @ drop (Suc k) xs)"
proof (cases "k < length xs")
  case True
  assume "distinct xs"
  then show ?thesis by (subst (asm) id_take_nth_drop [OF True]) auto
qed simp

lemma fd_step_ok: "fd_ok s \<Longrightarrow> fd_ok (fd_step s e)"
proof (cases e)
  case (FdPage x)
  assume ok: "fd_ok s"
  let ?s = "s\<lparr>fd_page := overview_step (fd_page s) x\<rparr>"
  show ?thesis
  proof (cases "add_open ?s \<and> \<not> add_open s")
    case True
    have "length (fd_add s) \<notin> set (fd_flight s)" using ok by (auto simp: fd_ok_def list_all_iff)
    with True FdPage ok show ?thesis
      by (auto simp: fd_ok_def present_def Let_def list_all_iff split: prod.split)
  next
    case False
    with FdPage ok show ?thesis by (auto simp: fd_ok_def present_def Let_def)
  qed
next
  case (FdAdd x)
  assume "fd_ok s"
  with FdAdd show ?thesis by (auto simp: fd_ok_def)
next
  case FdSubmit
  assume ok: "fd_ok s"
  let ?f = "am_form (fd_add s ! present s)"
  show ?thesis
  proof (cases "add_open s \<and> canSubmit ?f")
    case True
    then have "fd_add s \<noteq> []" "present s < length (fd_add s)" "present s \<notin> set (fd_flight s)"
      using ok canSubmit_source [of ?f] by (auto simp: fd_ok_def present_def)
    with True FdSubmit ok canSubmit_source [of ?f] show ?thesis
      by (auto simp: fd_ok_def submit_cases Let_def set_present_def present_def add_open_def)
  next
    case False
    with FdSubmit ok show ?thesis by (auto simp: submit_cases Let_def)
  qed
next
  case (FdCredentials j f)
  assume ok: "fd_ok s"
  then show ?thesis using FdCredentials
    by (auto simp: fd_ok_def Let_def set_present_def present_def add_open_def split: sum.split)
next
  case (FdAnswer k f)
  assume ok: "fd_ok s"
  show ?thesis
  proof (cases "k < length (fd_flight s)")
    case True
    define l where "l = take k (fd_flight s) @ drop (Suc k) (fd_flight s)"
    define m where "m = fd_add s ! (fd_flight s ! k)"
    have dist: "distinct (fd_flight s)" using ok by (simp add: fd_ok_def)
    have l: "distinct l" "set l \<subseteq> set (fd_flight s)" "fd_flight s ! k \<notin> set l"
      unfolding l_def by (rule remove_nth_distinct [OF dist] remove_nth_sub remove_nth_gone [OF dist True])+
    define t where "t = (if add_open s \<and> fd_flight s ! k = present s
      then set_present (m\<lparr>am_form := fst (add_answered f (am_form m))\<rparr>) (s\<lparr>fd_flight := l\<rparr>) else s\<lparr>fd_flight := l\<rparr>)"
    have t: "fd_add t = fd_add s \<or> fd_flight s ! k = present s" "length (fd_add t) = length (fd_add s)" "fd_flight t = l"
      "fd_sent t = fd_sent s" "present t = present s" "fd_page t = fd_page s"
      unfolding t_def by (auto simp: present_def)
    have "fd_ok (t\<lparr>fd_page := p\<rparr>)" if "ov_add p \<longrightarrow> p = fd_page s" for p
    proof -
      have "present s \<in> set l \<longrightarrow> af_busy (am_form (fd_add t ! present s))"
        using l t(1) ok by (auto simp: fd_ok_def)
      moreover have "list_all (\<lambda>d. d < length (fd_add s)) l" using l(2) ok by (auto simp: fd_ok_def list_all_iff)
      moreover have "add_open (t\<lparr>fd_page := p\<rparr>) \<longrightarrow> fd_add t \<noteq> []"
        using that t(2) ok by (auto simp: fd_ok_def add_open_def)
      moreover have "present (t\<lparr>fd_page := p\<rparr>) = present s" using t(2) by (simp add: present_def)
      ultimately show ?thesis using ok l(1) t(2-4) by (simp add: fd_ok_def)
    qed
    note closed = this
    have "t\<lparr>fd_page := fd_page t\<rparr> = t" by simp
    then have "fd_ok t" using closed [of "fd_page t"] t(6) by metis
    moreover have "fd_ok (t\<lparr>fd_page := overview_step (fd_page t) (OvAdd False)\<rparr>)" by (rule closed) simp
    moreover have "fd_step s (FdAnswer k f) =
        (case snd (add_answered f (am_form m)) of
           Stay \<Rightarrow> t | AddedAndClosed \<Rightarrow> t\<lparr>fd_page := overview_step (fd_page t) (OvAdd False)\<rparr>)"
      using True by (cases "add_open s \<and> fd_flight s ! k = present s"; cases "snd (add_answered f (am_form m))")
        (auto simp: Let_def case_prod_unfold t_def l_def m_def)
    ultimately show ?thesis using FdAnswer by (simp split: add_outcome.split)
  qed (use FdAnswer ok in simp)
qed

lemma fd_run_ok: "fd_ok s \<Longrightarrow> fd_ok (foldl fd_step s es)"
  by (induction es arbitrary: s) (simp_all add: fd_step_ok)

text \<open>The agents shown as connected in the course of a run.\<close>

primrec shown_agents :: "fleet_dialogs \<Rightarrow> fleet_dialog_event list \<Rightarrow> jstr list" where
  "shown_agents s [] = connected_names (ov_agents (fd_page s))"
| "shown_agents s (e # es) = connected_names (ov_agents (fd_page s)) @ shown_agents (fd_step s e) es"

definition from_shown :: "jstr set \<Rightarrow> fleet_dialogs \<Rightarrow> bool" where
  "from_shown A s \<longleftrightarrow> set (connected_names (ov_agents (fd_page s))) \<subseteq> A \<and>
     (\<forall>m \<in> set (fd_add s). af_agent (am_form m) \<in> insert [] A) \<and>
     list_all (\<lambda>(d, a, src). a \<in> A) (fd_sent s)"

lemma from_shown_set:
  "from_shown A s \<Longrightarrow> af_agent (am_form m) \<in> insert [] A \<Longrightarrow> from_shown A (set_present m s)"
  by (auto simp: from_shown_def set_present_def dest: set_update_subset_insert [THEN subsetD])

lemma from_shown_cong:
  "from_shown A s \<Longrightarrow> fd_add t = fd_add s \<Longrightarrow> fd_sent t = fd_sent s \<Longrightarrow>
   ov_agents (fd_page t) = ov_agents (fd_page s) \<Longrightarrow> from_shown A t"
  by (simp add: from_shown_def)

lemma from_shown_present:
  "from_shown A s \<Longrightarrow> fd_ok s \<Longrightarrow> add_open s \<Longrightarrow> af_agent (am_form (fd_add s ! present s)) \<in> insert [] A"
  by (simp add: from_shown_def fd_ok_def present_def)

lemma from_shown_weaken: "from_shown A s \<Longrightarrow> A \<subseteq> B \<Longrightarrow> from_shown B s"
  by (auto simp: from_shown_def list_all_iff)

lemma from_shown_step:
  assumes "from_shown A s" "fd_ok s"
  shows "from_shown (A \<union> set (connected_names (ov_agents (fd_page (fd_step s e))))) (fd_step s e)"
proof (cases e)
  case (FdPage x)
  let ?A = "A \<union> set (connected_names (ov_agents (fd_page (fd_step s e))))"
  have "from_shown ?A s" using assms(1) by (rule from_shown_weaken) simp
  then show ?thesis
    using FdPage add_mount_agent [of "ov_agents (overview_step (fd_page s) x)"]
    by (auto simp: from_shown_def add_modal_mount_def Let_def)
next
  case (FdAdd x)
  have "af_agent (am_form (add_input (ov_agents (fd_page s)) (fd_add s ! present s) x)) \<in> insert [] A" if "add_open s"
    using from_shown_present [OF assms that] add_input_agent [of "ov_agents (fd_page s)" "fd_add s ! present s" x] assms(1)
    by (auto simp: from_shown_def)
  then have "from_shown A (fd_step s e)" using FdAdd assms(1) by (simp add: from_shown_set)
  then show ?thesis by (rule from_shown_weaken) simp
next
  case FdSubmit
  let ?m = "fd_add s ! present s"
  have "from_shown A (fd_step s e)"
  proof (cases "add_open s \<and> canSubmit (am_form ?m)")
    case True
    then have a: "af_agent (am_form ?m) \<in> A"
      using from_shown_present [OF assms] canSubmit_source [of "am_form ?m"] by auto
    have "from_shown A (s\<lparr>fd_sent := fd_sent s @ [(present s, af_agent (am_form ?m), form_source (am_form ?m))],
        fd_flight := fd_flight s @ [present s]\<rparr>)"
      using assms(1) a by (simp add: from_shown_def)
    moreover have "af_agent (am_form (?m\<lparr>am_form := (am_form ?m)\<lparr>af_busy := True, af_error := []\<rparr>\<rparr>)) \<in> insert [] A"
      using a by simp
    ultimately have "from_shown A (set_present (?m\<lparr>am_form := (am_form ?m)\<lparr>af_busy := True, af_error := []\<rparr>\<rparr>)
        (s\<lparr>fd_sent := fd_sent s @ [(present s, af_agent (am_form ?m), form_source (am_form ?m))],
          fd_flight := fd_flight s @ [present s]\<rparr>))"
      by (rule from_shown_set)
    then show ?thesis using True FdSubmit by (simp add: submit_cases Let_def)
  next
    case False
    then show ?thesis using FdSubmit assms(1) by (auto simp: submit_cases Let_def)
  qed
  then show ?thesis by (rule from_shown_weaken) simp
next
  case (FdCredentials j f)
  have c: "from_shown A (s\<lparr>fd_listing := l\<rparr>)" for l using assms(1) by (rule from_shown_cong) simp_all
  have "from_shown A (fd_step s e)"
    using FdCredentials assms(1) c from_shown_set [OF c] from_shown_present [OF assms]
    by (auto simp: Let_def split: sum.split)
  then show ?thesis by (rule from_shown_weaken) simp
next
  case (FdAnswer k f)
  have c: "from_shown A (s\<lparr>fd_flight := l\<rparr>)" for l using assms(1) by (rule from_shown_cong) simp_all
  have p: "from_shown A (t\<lparr>fd_page := overview_step (fd_page t) (OvAdd False)\<rparr>)" if "from_shown A t" for t
    using that by (rule from_shown_cong) simp_all
  have "from_shown A (fd_step s e)"
    using FdAnswer assms(1) c p p [OF c] from_shown_set [OF c] p [OF from_shown_set [OF c]] from_shown_present [OF assms]
    by (auto simp: Let_def answered_agent case_prod_unfold split: add_outcome.split simp del: overview_step.simps)
  then show ?thesis by (rule from_shown_weaken) simp
qed

lemma from_shown_run:
  "from_shown A s \<Longrightarrow> fd_ok s \<Longrightarrow> from_shown (A \<union> set (shown_agents s es)) (foldl fd_step s es)"
proof (induction es arbitrary: A s)
  case Nil
  then show ?case by (auto simp: from_shown_def list_all_iff)
next
  case (Cons e es)
  from Cons.IH [OF from_shown_step [OF Cons.prems] fd_step_ok [OF Cons.prems(2)]]
  have "from_shown (A \<union> set (connected_names (ov_agents (fd_page (fd_step s e)))) \<union> set (shown_agents (fd_step s e) es))
      (foldl fd_step s (e # es))" by simp
  moreover have "set (connected_names (ov_agents (fd_page (fd_step s e)))) \<subseteq> set (shown_agents (fd_step s e) es)"
    by (cases es) auto
  ultimately show ?case by (elim from_shown_weaken) auto
qed

section \<open>The agent selector\<close>

text \<open>
  A selector whose value is not among its options shows its first option that is not
  disabled; the first one here, the text asking for a choice, is disabled.
\<close>

definition select_shown :: "jstr \<Rightarrow> (jstr \<times> bool) list \<Rightarrow> jstr option" where
  "select_shown v options =
     (if v \<in> fst ` set options then Some v else map_option fst (find_first (\<lambda>(w, disabled). \<not> disabled) options))"

definition agent_options :: "agent list \<Rightarrow> (jstr \<times> bool) list" where
  "agent_options agents = ([], True) # map (\<lambda>n. (n, False)) (connected_names agents)"

text \<open>
  When the chosen agent disconnects while the dialog is open, the selector shows another agent,
  but the form still sends to the one chosen.
\<close>

lemma agent_shown_differs:
  assumes "connected_names agents = n # ns" "af_agent f \<notin> set (n # ns)" "canSubmit f"
  shows "select_shown (af_agent f) (agent_options agents) = Some n \<and>
    snd (add_submit f) = Some (addApp_req (af_agent f) (form_source f)) \<and> af_agent f \<noteq> n"
proof -
  have "af_agent f \<noteq> []" using assms(3) by (simp add: canSubmit_def)
  with assms show ?thesis by (auto simp: select_shown_def agent_options_def submit_cases image_iff)
qed

section \<open>ConnectAgentModal\<close>

text \<open>
  \<open>cn_flight\<close> are the calls of \<open>generate\<close> whose answer is awaited, with the address and the name
  they closed over, and \<open>cn_copies\<close> the texts handed to the clipboard.
\<close>

record connect_modal =
  cn_form :: connect_form
  cn_flight :: "(jstr \<times> jstr) list"
  cn_sent :: "request list"
  cn_copies :: "jstr list"

definition connect_modal_mount :: connect_modal where
  "connect_modal_mount = \<lparr>cn_form = connect_mount, cn_flight = [], cn_sent = [], cn_copies = []\<rparr>"

datatype connect_event =
    ConnectName jstr | ConnectAddress jstr | Generate | Generated nat "connect_info fetched" | CopyCommand | Copied bool

definition connect_title :: "connect_modal \<Rightarrow> jstr" where
  "connect_title c =
     (if co_cmd (cn_form c) = [] then js ''close''
      else if co_copied (cn_form c) then js ''copied'' else js ''copy command'')"

definition copy_failed :: jstr where
  "copy_failed = js ''Copy failed '' @ em_dash @ js '' please copy the command manually.''"

fun connect_step :: "connect_modal \<Rightarrow> connect_event \<Rightarrow> connect_modal" where
  "connect_step c (ConnectName s) = c\<lparr>cn_form := (cn_form c)\<lparr>co_name := s\<rparr>\<rparr>"
| "connect_step c (ConnectAddress s) = c\<lparr>cn_form := (cn_form c)\<lparr>co_address := s\<rparr>\<rparr>"
| "connect_step c Generate =
     (if co_busy (cn_form c) then c
      else c\<lparr>cn_form := generate_start (cn_form c),
             cn_flight := cn_flight c @ [(co_address (cn_form c), co_name (cn_form c))],
             cn_sent := cn_sent c @ [connectToken_req (co_address (cn_form c)) (co_name (cn_form c))]\<rparr>)"
| "connect_step c (Generated k f) =
     (if k < length (cn_flight c)
      then c\<lparr>cn_form := generate_done (fst (cn_flight c ! k)) (snd (cn_flight c ! k)) f (cn_form c),
             cn_flight := take k (cn_flight c) @ drop (Suc k) (cn_flight c)\<rparr>
      else c)"
| "connect_step c CopyCommand =
     (if co_cmd (cn_form c) = [] then c else c\<lparr>cn_copies := cn_copies c @ [co_cmd (cn_form c)]\<rparr>)"
| "connect_step c (Copied ok) =
     (if cn_copies c = [] then c
      else if ok then c\<lparr>cn_form := (cn_form c)\<lparr>co_copied := True\<rparr>\<rparr>
      else c\<lparr>cn_form := (cn_form c)\<lparr>co_error := copy_failed\<rparr>\<rparr>)"

lemma generate_simps [simp]:
  "co_busy (generate_start c)" "co_cmd (generate_start c) = co_cmd c"
  "\<not> co_busy (generate_done a n f c)"
  by (simp_all add: generate_start_def generate_done_def Let_def split: sum.split)

text \<open>
  At most one token is being generated, so the token shown is never one that a later answered
  request of this dialog has rotated away, and only commands that were shown are copied.
\<close>

lemma connect_one_flight:
  "let c = foldl connect_step connect_modal_mount es
   in length (cn_flight c) = (if co_busy (cn_form c) then 1 else 0) \<and> [] \<notin> set (cn_copies c)"
proof -
  have "length (cn_flight c) = (if co_busy (cn_form c) then 1 else 0) \<and> [] \<notin> set (cn_copies c) \<Longrightarrow>
      length (cn_flight (connect_step c e)) = (if co_busy (cn_form (connect_step c e)) then 1 else 0) \<and>
      [] \<notin> set (cn_copies (connect_step c e))" for c e
    by (cases e) (auto split: if_splits)
  then have "length (cn_flight c) = (if co_busy (cn_form c) then 1 else 0) \<and> [] \<notin> set (cn_copies c) \<Longrightarrow>
      length (cn_flight (foldl connect_step c es)) = (if co_busy (cn_form (foldl connect_step c es)) then 1 else 0) \<and>
      [] \<notin> set (cn_copies (foldl connect_step c es))" for c
    by (induction es arbitrary: c) simp_all
  from this [of connect_modal_mount] show ?thesis
    by (simp add: connect_modal_mount_def connect_mount_def Let_def)
qed

section \<open>Properties\<close>


definition dev_agent :: agent where
  "dev_agent = \<lparr>a_name = js ''dev'', a_connected = True, a_last_seen_unix = 0, a_procs = [], a_hostname = None,
     a_ip = None, a_os = None, a_arch = None, a_version = None, a_boot_unix = None, a_host = None\<rparr>"

definition add_web :: "fleet_dialog_event list" where
  "add_web = [FdPage (OvFleet 0 (Response (answered [dev_agent]))), FdPage (OvAdd True),
     FdAdd (AddField FName (js ''web'')), FdAdd (AddField FCmd (js ''node'')), FdSubmit]"

lemma trim_sample: "trim (js ''web'') = js ''web''" "trim (js ''node'') = js ''node''"
  by (rule no_space_trim; simp add: js_def unit_of_def is_space_def is_line_terminator_def)+

lemmas fd_eval = fd_mount_def overview_mount_def overview_fleet_def poll_start_def poll_send_def poll_cleanup_def no_polls_def
  poll_take_def poll_stopped_def poll_running_def getFleet_res_def json_or_401_def answered_def add_open_def
  add_modal_mount_def add_mount_def dev_agent_def set_present_def present_def offered_def add_fields_def field_view_def
  connected_names_def add_submit_def canSubmit_def trim_sample Let_def

lemma add_web_run:
  "fd_sent (foldl fd_step fd_mount add_web) = [(0, js ''dev'', form_source (am_form (fd_add (foldl fd_step fd_mount add_web) ! 0)))] \<and>
   fd_flight (foldl fd_step fd_mount add_web) = [0] \<and> length (fd_add (foldl fd_step fd_mount add_web)) = 1 \<and>
   ov_add (fd_page (foldl fd_step fd_mount add_web)) \<and> poll_running (ov_fleet (fd_page (foldl fd_step fd_mount add_web)))"
  by (simp add: add_web_def fd_eval form_source_def)


text \<open>
  The answer to a submission whose dialog was closed meanwhile closes the dialog that is open by
  then: what was typed there is lost.
\<close>

lemma late_add_closes:
  assumes "add_open s" "k < length (fd_flight s)" "fd_flight s ! k \<noteq> present s"
    "reply f addApp_res = Inr res" "cr_ok res"
  shows "\<not> add_open (fd_step s (FdAnswer k f)) \<and> fd_sent (fd_step s (FdAnswer k f)) = fd_sent s \<and>
    fd_add (fd_step s (FdAnswer k f)) = fd_add s"
  using assms by (simp add: add_open_def add_answered_def Let_def)

lemma late_add_reachable:
  "let s = foldl fd_step fd_mount (add_web @ [FdPage (OvAdd False), FdPage (OvAdd True)])
   in add_open s \<and> fd_flight s = [0] \<and> present s = 1"
  using add_web_run by (simp add: Let_def add_open_def present_def)

end
