(* ===== verification/LiveDialog.thy ===== *)
theory LiveDialog imports LogViews begin

text \<open>
  The live log dialog as a part of a page: web/src/Overview.tsx and web/src/ProcessDetail.tsx render
  it while their state names a process to show, hand it that process, and unmount it when it is
  closed or the page is left; and the box in it that scrolls. The locale \<open>live_host\<close> is what such a page does with it; both
  pages interpret it.
\<close>

section \<open>Rendering the dialog\<close>

definition show_live :: "(jstr \<times> jstr) option \<Rightarrow> live_modal option \<Rightarrow> live_modal option" where
  "show_live target m =
     (case target of
        None \<Rightarrow> None
      | Some (a, p) \<Rightarrow>
          Some (case m of
                  None \<Rightarrow> live_mount a p
                | Some l \<Rightarrow> if lv_agent l = a \<and> lv_proc l = p then l else live_step l (LiveProps a p)))"

text \<open>An event of the dialog itself; its props and its closing are the page's.\<close>

definition live_input :: "live_modal \<Rightarrow> live_event \<Rightarrow> live_modal" where
  "live_input l x = (case x of LiveProps _ _ \<Rightarrow> l | LiveClose \<Rightarrow> l | _ \<Rightarrow> live_step l x)"

section \<open>Its log box\<close>

text \<open>
  The box that scrolls: \<open>height\<close> is the browser's layout of the rows shown, and setting
  \<open>scrollTop\<close> or a change of the height clamps the position. The effect runs when \<open>paused\<close>
  changed or the hook set its lines anew: with an answer of the running poller that brings
  lines, or by the reset for new arguments.
\<close>

record live_scroll =
  bx_live :: live_modal
  bx_top :: int
  bx_client :: int

definition clamp_top :: "int \<Rightarrow> int \<Rightarrow> int \<Rightarrow> int" where
  "clamp_top h c y = max 0 (min y (h - c))"

definition hook_sets_lines :: "log_stream \<Rightarrow> hook_event \<Rightarrow> bool" where
  "hook_sets_lines h x =
     (case x of
        HookTimer \<Rightarrow> False
      | HookAnswer k f \<Rightarrow>
          k < length (ls_in_flight h) \<and> \<not> po_stop (ls_pollers h ! if_poller (ls_in_flight h ! k)) \<and>
          (case reply f getLogs_res of Inl _ \<Rightarrow> False | Inr res \<Rightarrow> lr_lines res \<noteq> []))"

definition live_sets_lines :: "live_modal \<Rightarrow> live_event \<Rightarrow> bool" where
  "live_sets_lines s x =
     (case x of LiveHook y \<Rightarrow> hook_sets_lines (lv_hook s) y
      | _ \<Rightarrow> live_args (live_control s x) \<noteq> ls_args (lv_hook s))"

datatype box_event = BoxScroll int | BoxLive live_event

fun box_step :: "(live_modal \<Rightarrow> int) \<Rightarrow> live_scroll \<Rightarrow> box_event \<Rightarrow> live_scroll" where
  "box_step height b (BoxScroll y) = b\<lparr>bx_top := clamp_top (height (bx_live b)) (bx_client b) y\<rparr>"
| "box_step height b (BoxLive x) =
     (let s = live_step (bx_live b) x; h = height s; toggled = (lv_paused s \<noteq> lv_paused (bx_live b))
      in if \<not> ls_mounted (lv_hook s) then b\<lparr>bx_live := s\<rparr>
         else b\<lparr>bx_live := s,
                bx_top := clamp_top h (bx_client b)
                  (if \<not> lv_paused s \<and> (live_sets_lines (bx_live b) x \<or> toggled) then h else bx_top b)\<rparr>)"

definition box_mount :: "(live_modal \<Rightarrow> int) \<Rightarrow> jstr \<Rightarrow> jstr \<Rightarrow> int \<Rightarrow> live_scroll" where
  "box_mount height a p c =
     (let s = live_mount a p in \<lparr>bx_live = s, bx_top = clamp_top (height s) c (height s), bx_client = c\<rparr>)"

text \<open>The position stays within what the box can show.\<close>

definition box_ok :: "(live_modal \<Rightarrow> int) \<Rightarrow> live_scroll \<Rightarrow> bool" where
  "box_ok height b \<longleftrightarrow>
     0 \<le> bx_client b \<and> 0 \<le> bx_top b \<and>
     (ls_mounted (lv_hook (bx_live b)) \<longrightarrow> bx_top b \<le> max 0 (height (bx_live b) - bx_client b))"

lemma box_mount_ok: "0 \<le> c \<Longrightarrow> box_ok height (box_mount height a p c)"
  by (simp add: box_ok_def box_mount_def clamp_top_def Let_def)

lemma box_step_ok: "box_ok height b \<Longrightarrow> box_ok height (box_step height b e)"
  by (cases e) (auto simp: box_ok_def clamp_top_def Let_def)

lemma clamp_top_stays: "0 \<le> y \<Longrightarrow> y \<le> max 0 (h - c) \<Longrightarrow> clamp_top h c y = y"
  by (auto simp: clamp_top_def)

text \<open>Lines that arrive, a new selection and the end of a pause bring the end into view.\<close>

lemma box_follows:
  assumes "box_ok height b" "ls_mounted (lv_hook (live_step (bx_live b) x))" "\<not> lv_paused (live_step (bx_live b) x)"
    and "live_sets_lines (bx_live b) x \<or> lv_paused (bx_live b)"
  shows "let b' = box_step height b (BoxLive x) in bx_top b' = max 0 (height (bx_live b') - bx_client b')"
  using assms by (auto simp: box_ok_def clamp_top_def Let_def)

text \<open>
  In a paused dialog a reader stays where they are: whatever the timer and late answers do, the
  lines shown and the position are the same. The layout depends on the rows shown only.
\<close>

lemma box_paused:
  assumes "box_ok (\<lambda>s. height (live_lines lower compile s)) b" "live_client.synced from (bx_live b)" "lv_paused (bx_live b)"
  shows "let b' = box_step (\<lambda>s. height (live_lines lower compile s)) b (BoxLive (LiveHook y))
         in bx_top b' = bx_top b \<and> live_lines lower compile (bx_live b') = live_lines lower compile (bx_live b)"
proof -
  let ?s = "bx_live b"
  let ?t = "live_step ?s (LiveHook y)"
  have "ls_lines (lv_hook ?t) = ls_lines (lv_hook ?s)"
    by (rule live_client.frozen [OF assms(2), where x = y]) (use assms(3) in simp_all)
  then have same: "live_lines lower compile ?t = live_lines lower compile ?s" "lv_paused ?t"
    "ls_mounted (lv_hook ?t) = ls_mounted (lv_hook ?s)"
    using assms(3) by (simp_all add: live_lines_def) (simp_all add: live_step_def hook_step_keeps)
  have "bx_top (box_step (\<lambda>s. height (live_lines lower compile s)) b (BoxLive (LiveHook y))) = bx_top b"
    using assms(1) same by (simp add: Let_def box_ok_def clamp_top_stays)
  with same(1) show ?thesis by (simp add: Let_def)
qed

section \<open>What a page keeps of it\<close>

definition live_ok :: "(log_args \<Rightarrow> log_line \<Rightarrow> bool) \<Rightarrow> live_modal \<Rightarrow> bool" where
  "live_ok from l \<longleftrightarrow> live_client.synced from l \<and> ls_mounted (lv_hook l)"

definition live_shows :: "(log_args \<Rightarrow> log_line \<Rightarrow> bool) \<Rightarrow> (jstr \<times> jstr) option \<Rightarrow> live_modal option \<Rightarrow> bool" where
  "live_shows from target m \<longleftrightarrow>
     (case m of None \<Rightarrow> target = None | Some l \<Rightarrow> live_ok from l \<and> target = Some (lv_agent l, lv_proc l))"

lemma live_mount_ok: "live_ok from (live_mount a p)"
  by (simp add: live_ok_def live_mount_synced) (simp add: live_mount_def mount_keeps)

lemma live_props_ok:
  "live_ok from l \<Longrightarrow> live_ok from (live_step l (LiveProps a p)) \<and>
   lv_agent (live_step l (LiveProps a p)) = a \<and> lv_proc (live_step l (LiveProps a p)) = p"
  using live_client.synced_step [of "from" l "LiveProps a p"]
  by (simp add: live_ok_def live_client.honest_event_def) (simp add: live_step_def live_render_def rerender_keeps)

lemma live_input_ok:
  assumes "live_ok from l" "live_client.honest_event from l x"
  shows "live_ok from (live_input l x) \<and> lv_agent (live_input l x) = lv_agent l \<and> lv_proc (live_input l x) = lv_proc l"
  using assms live_client.synced_step [of "from" l x]
  by (cases x) (simp_all add: live_input_def live_ok_def live_step_def live_render_def rerender_keeps hook_step_keeps)

lemma show_live_ok: "(\<And>l. m = Some l \<Longrightarrow> live_ok from l) \<Longrightarrow> live_shows from target (show_live target m)"
  using live_mount_ok live_props_ok
  by (auto simp: live_shows_def show_live_def live_mount_def split: option.split)

text \<open>What the reader of an open dialog sees.\<close>

lemma live_ok_lines:
  assumes "live_ok from l"
  shows "ls_args (lv_hook l) = live_args l" "ls_interval (lv_hook l) \<noteq> None \<longleftrightarrow> \<not> lv_paused l"
    "list_all (from (live_args l)) (live_lines lower compile l)" "length (live_lines lower compile l) \<le> 5000"
proof -
  have s: "live_client.synced from l" "ls_mounted (lv_hook l)" using assms by (simp_all add: live_ok_def)
  have "length (live_lines lower compile l) \<le> length (ls_lines (lv_hook l))"
    by (simp add: live_lines_def visibleLines_def)
  also have "\<dots> \<le> 5000" by (rule live_client.synced_lines(2) [OF s(1)])
  finally show "length (live_lines lower compile l) \<le> 5000" .
  show "ls_args (lv_hook l) = live_args l" using s(1) by (simp add: live_client.synced_def)
  show "ls_interval (lv_hook l) \<noteq> None \<longleftrightarrow> \<not> lv_paused l" using live_client.synced_lines(3) [OF s(1)] s(2) by blast
  show "list_all (from (live_args l)) (live_lines lower compile l)"
    using live_client.synced_lines(1) [OF s(1)] by (auto simp: live_lines_def visibleLines_def list_all_iff)
qed

locale live_host =
  fixes live :: "'s \<Rightarrow> live_modal option" and target :: "'s \<Rightarrow> (jstr \<times> jstr) option"
    and step :: "'s \<Rightarrow> 'e \<Rightarrow> 's" and own :: "'e \<Rightarrow> live_event option"
  assumes dialog: "own e = Some x \<Longrightarrow>
      live (step s e) = map_option (\<lambda>l. live_input l x) (live s) \<and> target (step s e) = target s"
    and page: "own e = None \<Longrightarrow>
      live (step s e) = show_live (target (step s e)) (live s) \<or> live (step s e) = live s \<and> target (step s e) = target s"
begin

text \<open>Every answer the dialog gets holds lines of what its request asked for.\<close>

primrec honest :: "(log_args \<Rightarrow> log_line \<Rightarrow> bool) \<Rightarrow> 's \<Rightarrow> 'e list \<Rightarrow> bool" where
  "honest from s [] = True"
| "honest from s (e # es) =
     ((case (own e, live s) of (Some x, Some l) \<Rightarrow> live_client.honest_event from l x | _ \<Rightarrow> True) \<and> honest from (step s e) es)"

lemma shows_step:
  assumes "live_shows from (target s) (live s)" "honest from s [e]"
  shows "live_shows from (target (step s e)) (live (step s e))"
proof (cases "own e")
  case None
  have "\<And>l. live s = Some l \<Longrightarrow> live_ok from l" using assms(1) by (simp add: live_shows_def)
  from show_live_ok [OF this, where target = "target (step s e)"] show ?thesis using page [OF None, of s] assms(1) by auto
next
  case (Some x)
  then show ?thesis
    using dialog [OF Some, of s] assms live_input_ok [of "from" _ x] by (auto simp: live_shows_def split: option.splits)
qed

lemma shows_run:
  "live_shows from (target s) (live s) \<Longrightarrow> honest from s es \<Longrightarrow>
   live_shows from (target (foldl step s es)) (live (foldl step s es))"
proof (induction es arbitrary: s)
  case (Cons e es)
  then show ?case using shows_step [of "from" s e] by simp
qed simp

end

end
