(* ===== verification/LogWatch.thy ===== *)
theory LogWatch imports LiveDialog begin

text \<open>
  A log on the screen while it grows: a component with a log hook, polled by its timer and answered
  by the log endpoint of \<open>LogStore\<close> over a table that takes new lines between the polls. The locale
  \<open>log_viewer\<close> says what such a component owes its hook; the live log dialog is one by itself, and,
  through \<open>live_server\<close>, inside every page that hosts it.
\<close>

section \<open>Polling the server from a component\<close>

text \<open>The answer of the log endpoint to the k-th request in flight.\<close>

definition served_answer :: "(jstr \<Rightarrow> jstr \<Rightarrow> bool) \<Rightarrow> log_stores \<Rightarrow> log_stream \<Rightarrow> nat \<Rightarrow> hook_event" where
  "served_answer like S h k =
     (let r = ls_in_flight h ! k; a = po_args (ls_pollers h ! if_poller r)
      in HookAnswer k (logs_handler like S (ag_agent a) (ag_proc a) (ag_stream a) (ag_limit a) (if_after r) (ag_q a)))"

lemma hook_step_served: "k < length (ls_in_flight h) \<Longrightarrow> hook_step h (served_answer like S h k) = answer like S k h"
  by (simp add: served_answer_def answer_def Let_def)

text \<open>One interval: the timer, and its answer before the next one.\<close>

definition view_poll ::
  "('s \<Rightarrow> log_stream) \<Rightarrow> ('s \<Rightarrow> 'e \<Rightarrow> 's) \<Rightarrow> (hook_event \<Rightarrow> 'e) \<Rightarrow> (jstr \<Rightarrow> jstr \<Rightarrow> bool) \<Rightarrow> log_stores \<Rightarrow> 's \<Rightarrow> 's" where
  "view_poll hook step poll like S s =
     (let s' = step s (poll HookTimer) in step s' (poll (served_answer like S (hook s') (length (ls_in_flight (hook s))))))"

text \<open>
  The first answer, then intervals in which the component has events of its own, the server takes a
  batch of lines, and a poll is answered.
\<close>

definition view_interval ::
  "('s \<Rightarrow> log_stream) \<Rightarrow> ('s \<Rightarrow> 'e \<Rightarrow> 's) \<Rightarrow> (hook_event \<Rightarrow> 'e) \<Rightarrow> (jstr \<Rightarrow> jstr \<Rightarrow> bool) \<Rightarrow> log_stores \<Rightarrow> log_args \<Rightarrow>
   log_table \<times> 's \<Rightarrow> 'e list \<times> new_line list \<Rightarrow> log_table \<times> 's" where
  "view_interval hook step poll like others a w i =
     (let t = append_lines (fst w) (snd i)
      in (t, view_poll hook step poll like (stores_with a t others) (foldl step (snd w) (fst i))))"

definition view_watch ::
  "('s \<Rightarrow> log_stream) \<Rightarrow> ('s \<Rightarrow> 'e \<Rightarrow> 's) \<Rightarrow> (hook_event \<Rightarrow> 'e) \<Rightarrow> (jstr \<Rightarrow> jstr \<Rightarrow> bool) \<Rightarrow> log_stores \<Rightarrow> log_args \<Rightarrow>
   log_table \<Rightarrow> 's \<Rightarrow> ('e list \<times> new_line list) list \<Rightarrow> log_table \<times> 's" where
  "view_watch hook step poll like others a t s ivs =
     foldl (view_interval hook step poll like others a)
       (t, step s (poll (served_answer like (stores_with a t others) (hook s) 0))) ivs"

text \<open>What a log view shows then: everything from the backfill at its opening on.\<close>

definition log_since :: "(jstr \<Rightarrow> jstr \<Rightarrow> bool) \<Rightarrow> log_args \<Rightarrow> log_table \<Rightarrow> log_table \<Rightarrow> log_line list" where
  "log_since like a t t' =
     keep_last 5000 (map line_view (drop (length (rows_of like a t) - nat (ag_limit a)) (rows_of like a t')))"

section \<open>Components that show a log\<close>

locale log_viewer =
  fixes hook :: "'s \<Rightarrow> log_stream" and step :: "'s \<Rightarrow> 'e \<Rightarrow> 's" and poll :: "hook_event \<Rightarrow> 'e"
    and shown :: "'s \<Rightarrow> bool" and quiet :: "'e \<Rightarrow> bool"
  assumes polled: "shown s \<Longrightarrow> hook (step s (poll x)) = hook_step (hook s) x \<and> shown (step s (poll x))"
    and undisturbed: "shown s \<Longrightarrow> quiet e \<Longrightarrow> hook (step s e) = hook s \<and> shown (step s e)"
begin

lemma view_poll_hook:
  assumes "shown s"
  shows "hook (view_poll hook step poll like S s) = interval_poll like S (hook s) \<and> shown (view_poll hook step poll like S s)"
proof -
  let ?s = "step s (poll HookTimer)" and ?n = "length (ls_in_flight (hook s))"
  have s: "shown ?s" "hook ?s = hook_step (hook s) HookTimer" using polled [OF assms] by blast+
  have "hook_step (hook ?s) (served_answer like S (hook ?s) ?n) = interval_poll like S (hook s)"
  proof (cases "ls_interval (hook s)")
    case None
    then show ?thesis by (simp add: s interval_poll_def served_answer_def Let_def)
  next
    case (Some i)
    then have "?n < length (ls_in_flight (hook ?s))" by (simp add: s tick_def Let_def)
    with Some show ?thesis by (simp add: hook_step_served interval_poll_def) (simp add: s)
  qed
  with polled [OF s(1)] show ?thesis by (simp add: view_poll_def Let_def)
qed

lemma quiet_run: "shown s \<Longrightarrow> list_all quiet es \<Longrightarrow> hook (foldl step s es) = hook s \<and> shown (foldl step s es)"
  by (induction es arbitrary: s) (simp_all add: undisturbed)

lemma view_interval_hook:
  assumes "shown (snd w)" "list_all quiet (fst i)"
  shows "map_prod id hook (view_interval hook step poll like others a w i) =
      watch_step like others a (map_prod id hook w) (snd i) \<and> shown (snd (view_interval hook step poll like others a w i))"
  using quiet_run [OF assms] view_poll_hook by (simp add: view_interval_def watch_step_def Let_def map_prod_def case_prod_unfold)

lemma view_watch_hook:
  assumes "shown s" "hook s = mount a True" "list_all (\<lambda>i. list_all quiet (fst i)) ivs"
  shows "map_prod id hook (view_watch hook step poll like others a t s ivs) = watch like others a t (map snd ivs) \<and>
    shown (snd (view_watch hook step poll like others a t s ivs))"
  using assms(3)
proof (induction ivs rule: rev_induct)
  case Nil
  have "0 < length (ls_in_flight (mount a True))" by (simp add: mount_def start_effect_def reset_effect_def tick_def Let_def)
  with polled [OF assms(1)] show ?case by (simp add: view_watch_def watch_def assms(2) hook_step_served)
next
  case (snoc i ivs)
  then show ?case
    using view_interval_hook [of "view_watch hook step poll like others a t s ivs" i like others a]
    by (simp add: view_watch_def watch_def id_def)
qed

lemma view_complete:
  fixes like :: "jstr \<Rightarrow> jstr \<Rightarrow> bool" and others :: log_stores
  assumes "shown s" "hook s = mount a True" "list_all (\<lambda>i. list_all quiet (fst i)) ivs"
    and "args_ok a" "table_ok t" "list_all (\<lambda>i. length (snd i) \<le> nat (ag_limit a)) ivs"
  defines "w \<equiv> view_watch hook step poll like others a t s ivs"
  shows "ls_lines (hook (snd w)) = log_since like a t (fst w)" "shown (snd w)"
    "fst w = foldl append_lines t (map snd ivs)"
proof -
  have w: "map_prod id hook w = watch like others a t (map snd ivs)" "shown (snd w)"
    using view_watch_hook [OF assms(1-3)] by (simp_all add: w_def)
  have "\<And>ls. ls \<in> set (map snd ivs) \<Longrightarrow> length ls \<le> nat (ag_limit a)" using assms(6) by (auto simp: list_all_iff)
  from watch_complete [OF assms(4,5), where batches = "map snd ivs", OF this, where like = like and others = others, folded w(1)]
  show "ls_lines (hook (snd w)) = log_since like a t (fst w)" by (simp add: log_since_def map_prod_def case_prod_unfold)
  show "shown (snd w)" by (rule w(2))
  have "fst (foldl (watch_step like others a) v bs) = foldl append_lines (fst v) bs" for v bs
    by (induction bs arbitrary: v) (simp_all add: watch_step_def Let_def)
  moreover have "fst w = fst (watch like others a t (map snd ivs))" using w(1) by (metis fst_map_prod id_apply)
  ultimately show "fst w = foldl append_lines t (map snd ivs)" by (simp add: watch_def)
qed

end

section \<open>The live log dialog\<close>

text \<open>
  The dialog as it opens, live and for all streams, and what a reader may do without touching its
  hook: type in the filter and pick levels.
\<close>

definition opening_args :: "jstr \<Rightarrow> jstr \<Rightarrow> log_args" where
  "opening_args agent proc = \<lparr>ag_agent = agent, ag_proc = proc, ag_stream = js ''all'', ag_limit = 1000, ag_q = []\<rparr>"

definition live_watching :: "jstr \<Rightarrow> jstr \<Rightarrow> live_modal \<Rightarrow> bool" where
  "live_watching agent proc l \<longleftrightarrow>
     lv_agent l = agent \<and> lv_proc l = proc \<and> \<not> lv_paused l \<and> lv_stream l = js ''all'' \<and>
     ls_mounted (lv_hook l) \<and> ls_enabled (lv_hook l) \<and> ls_args (lv_hook l) = opening_args agent proc"

fun live_quiet :: "live_event \<Rightarrow> bool" where
  "live_quiet (LiveKey _) = True"
| "live_quiet (LiveLevel _) = True"
| "live_quiet _ = False"

lemma live_watching_mount: "live_watching a p (live_mount a p)" "lv_hook (live_mount a p) = mount (opening_args a p) True"
  by (simp_all add: live_watching_def opening_args_def live_mount_def mount_keeps)

lemma rerender_same: "ls_args h = a \<Longrightarrow> ls_enabled h = b \<Longrightarrow> rerender a b h = h"
  by (auto simp: rerender_def Let_def)

lemma live_quiet_step: "live_watching a p l \<Longrightarrow> live_quiet x \<Longrightarrow> lv_hook (live_step l x) = lv_hook l \<and> live_watching a p (live_step l x)"
  by (cases x) (simp_all add: live_watching_def opening_args_def live_step_def live_render_def live_args_def rerender_same)

lemma live_poll_step:
  "live_watching a p l \<Longrightarrow>
   lv_hook (live_step l (LiveHook x)) = hook_step (lv_hook l) x \<and> live_watching a p (live_step l (LiveHook x))"
  by (simp add: live_watching_def live_step_def hook_step_keeps)

interpretation live_view: log_viewer lv_hook live_step LiveHook "live_watching a p" live_quiet for a p
  by unfold_locales (simp_all add: live_poll_step live_quiet_step)

section \<open>The log panel\<close>

definition panel_watching :: "log_args \<Rightarrow> log_panel \<Rightarrow> bool" where
  "panel_watching a s \<longleftrightarrow>
     panel_args s = a \<and> ls_mounted (lp_hook s) \<and> ls_enabled (lp_hook s) \<and> ls_args (lp_hook s) = a"

fun panel_quiet :: "panel_event \<Rightarrow> bool" where
  "panel_quiet (PanelKey _) = True"
| "panel_quiet _ = False"

interpretation panel_view: log_viewer lp_hook panel_step PanelHook "panel_watching a" panel_quiet for a
proof (unfold_locales, goal_cases)
  case (1 s x)
  then show ?case by (simp add: panel_watching_def panel_step_def panel_args_def hook_step_keeps)
next
  case (2 s e)
  then show ?case
    by (cases e) (auto simp: panel_watching_def panel_step_def panel_render_def panel_args_def rerender_same)
qed

text \<open>The panel filters what it shows; its log is complete from the last 500 lines at its mounting on.\<close>

lemma panel_log_complete:
  fixes like :: "jstr \<Rightarrow> jstr \<Rightarrow> bool" and others :: log_stores
  defines "args \<equiv> \<lambda>agent proc. panel_args (panel_mount agent proc)"
  assumes "agent \<noteq> []" "proc \<noteq> []" "table_ok t"
    and "list_all (\<lambda>i. list_all panel_quiet (fst i)) ivs" "list_all (\<lambda>i. length (snd i) \<le> 500) ivs"
  defines "w \<equiv> view_watch lp_hook panel_step PanelHook like others (args agent proc) t (panel_mount agent proc) ivs"
  shows "panel_lines lower compile (snd w) =
    filteredLines lower compile (db_filter (lp_filter (snd w))) (log_since like (args agent proc) t (fst w))"
proof -
  have a: "args_ok (args agent proc)" "nat (ag_limit (args agent proc)) = 500" "lp_hook (panel_mount agent proc) = mount (args agent proc) True"
    using assms(2,3) by (simp_all add: args_ok_def args_def panel_args_def panel_mount_def)
  have "panel_watching (args agent proc) (panel_mount agent proc)"
    by (simp add: panel_watching_def a(3) mount_keeps) (simp add: args_def)
  from panel_view.view_complete(1) [OF this a(3) assms(5) a(1) assms(4)] assms(6) a(2) show ?thesis
    by (simp add: w_def panel_lines_def)
qed

section \<open>A page with the live log dialog\<close>

text \<open>A page that hosts the dialog shows the same log, if its own quiet events keep the process picked.\<close>

locale live_server = live_host live target step own
  for live :: "'s \<Rightarrow> live_modal option" and target :: "'s \<Rightarrow> (jstr \<times> jstr) option"
    and step :: "'s \<Rightarrow> 'e \<Rightarrow> 's" and own :: "'e \<Rightarrow> live_event option" +
  fixes send :: "live_event \<Rightarrow> 'e" and quiet :: "'e \<Rightarrow> bool"
  assumes sent: "own (send x) = Some x"
    and keeps: "quiet e \<Longrightarrow> own e = None \<Longrightarrow> target s \<noteq> None \<Longrightarrow> target (step s e) = target s"
    and calm: "quiet e \<Longrightarrow> own e = Some x \<Longrightarrow> live_quiet x"
begin

definition watched :: "jstr \<Rightarrow> jstr \<Rightarrow> 's \<Rightarrow> bool" where
  "watched a p s \<longleftrightarrow> target s = Some (a, p) \<and> (\<exists>l. live s = Some l \<and> live_watching a p l)"

lemma watched_dialog:
  assumes "watched a p s" "own e = Some x" "live_quiet x \<or> x = LiveHook y"
  shows "watched a p (step s e)" "the (live (step s e)) = live_step (the (live s)) x"
proof -
  obtain l where l: "live s = Some l" "live_watching a p l" "target s = Some (a, p)"
    using assms(1) by (auto simp: watched_def)
  have "live_input l x = live_step l x" using assms(3) by (cases x) (auto simp: live_input_def)
  then have "live (step s e) = Some (live_step l x)" "target (step s e) = Some (a, p)"
    using dialog [OF assms(2), of s] l by simp_all
  then show "watched a p (step s e)" "the (live (step s e)) = live_step (the (live s)) x"
    using assms(3) l live_quiet_step live_poll_step by (auto simp: watched_def)
qed

lemma watched_page:
  assumes "watched a p s" "own e = None" "quiet e"
  shows "watched a p (step s e)" "live (step s e) = live s"
proof -
  have "target (step s e) = target s" using assms keeps by (auto simp: watched_def)
  then have "live (step s e) = live s"
    using page [OF assms(2), of s] assms(1) by (auto simp: watched_def show_live_def live_watching_def)
  with \<open>target (step s e) = target s\<close> assms(1) show "watched a p (step s e)" "live (step s e) = live s"
    by (simp_all add: watched_def)
qed

end

sublocale live_server \<subseteq> view: log_viewer "\<lambda>s. lv_hook (the (live s))" step "\<lambda>x. send (LiveHook x)" "watched a p" quiet for a p
proof (unfold_locales, goal_cases)
  case (1 s x)
  from watched_dialog [OF 1 sent, of "LiveHook x" x] 1 show ?case
    by (auto simp: live_poll_step watched_def)
next
  case (2 s e)
  show ?case
  proof (cases "own e")
    case None
    with watched_page [OF 2(1) None 2(2)] show ?thesis by simp
  next
    case (Some x)
    have "live_quiet x" by (rule calm [OF 2(2) Some])
    with watched_dialog [OF 2(1) Some] 2(1) show ?thesis by (auto simp: live_quiet_step watched_def)
  qed
qed

context live_server begin

text \<open>A dialog that was just opened shows the whole log from then on.\<close>

lemma opened_log:
  fixes like :: "jstr \<Rightarrow> jstr \<Rightarrow> bool" and others :: log_stores
  assumes "target s = Some (a, p)" "live s = Some (live_mount a p)" "a \<noteq> []" "p \<noteq> []" "table_ok t"
    and "list_all (\<lambda>i. list_all quiet (fst i)) ivs" "list_all (\<lambda>i. length (snd i) \<le> 1000) ivs"
  defines "w \<equiv> view_watch (\<lambda>s. lv_hook (the (live s))) step (\<lambda>x. send (LiveHook x)) like others (opening_args a p) t s ivs"
  shows "fst w = foldl append_lines t (map snd ivs) \<and>
    (\<exists>l. live (snd w) = Some l \<and> lv_agent l = a \<and> lv_proc l = p \<and>
       live_lines lower compile l =
         visibleLines lower compile (lv_levels l) (db_filter (lv_filter l)) (log_since like (opening_args a p) t (fst w)))"
proof -
  have "watched a p s" "lv_hook (the (live s)) = mount (opening_args a p) True"
    using assms(1,2) live_watching_mount by (auto simp: watched_def)
  moreover have "args_ok (opening_args a p)" "nat (ag_limit (opening_args a p)) = 1000"
    using assms(3,4) by (simp_all add: args_ok_def opening_args_def)
  ultimately have "ls_lines (lv_hook (the (live (snd w)))) = log_since like (opening_args a p) t (fst w)"
    "watched a p (snd w)" "fst w = foldl append_lines t (map snd ivs)"
    using view.view_complete [of a p s "opening_args a p" ivs t like others] assms(5-7) unfolding w_def by simp_all
  then show ?thesis by (auto simp: watched_def live_watching_def live_lines_def)
qed

end

end
