(* ===== verification/FleetPage.thy ===== *)
theory FleetPage imports FleetDialogs ControlActions LogWatch begin

text \<open>
  The fleet page with everything it renders (web/src/Overview.tsx): the page with its add dialog
  (\<open>FleetDialogs\<close>), the connect dialog, the live log dialog, and the restart button in the section of each
  agent, which is keyed by the name of the agent.
\<close>

section \<open>The page and its parts\<close>

record fleet_page =
  fl_dialogs :: fleet_dialogs
  fl_connect :: "connect_modal option"
  fl_live :: "live_modal option"
  fl_restart :: "jstr \<rightharpoonup> restart_all"

definition fl_overview :: "fleet_page \<Rightarrow> overview" where
  "fl_overview s = fd_page (fl_dialogs s)"

definition fleet_page_mount :: fleet_page where
  "fleet_page_mount = \<lparr>fl_dialogs = fd_mount, fl_connect = None, fl_live = None, fl_restart = Map.empty\<rparr>"

definition fleet_target :: "overview \<Rightarrow> (jstr \<times> jstr) option" where
  "fleet_target v = (if poll_running (ov_fleet v) then ov_live v else None)"

definition show_connect :: "overview \<Rightarrow> connect_modal option \<Rightarrow> connect_modal option" where
  "show_connect v m = (if poll_running (ov_fleet v) \<and> ov_connect v then Some (nullish m connect_modal_mount) else None)"

definition show_restart :: "overview \<Rightarrow> (jstr \<rightharpoonup> restart_all) \<Rightarrow> (jstr \<rightharpoonup> restart_all)" where
  "show_restart v r =
     (\<lambda>n. if poll_running (ov_fleet v)
          then map_option (\<lambda>a. case r n of
                   None \<Rightarrow> restart_mount n (a_connected a)
                 | Some b \<Rightarrow> restart_step b (RProps (a_connected a)))
                 (find_first (\<lambda>a. a_name a = n) (ov_agents v))
          else None)"

datatype fleet_page_event =
    FlDialog fleet_dialog_event | FlConnect connect_event | FlLive live_event | FlRestart jstr restart_event

fun fleet_page_step :: "fleet_page \<Rightarrow> fleet_page_event \<Rightarrow> fleet_page" where
  "fleet_page_step s (FlDialog e) =
     (let d = fd_step (fl_dialogs s) e; v = fd_page d
      in \<lparr>fl_dialogs = d, fl_connect = show_connect v (fl_connect s), fl_live = show_live (fleet_target v) (fl_live s),
          fl_restart = show_restart v (fl_restart s)\<rparr>)"
| "fleet_page_step s (FlConnect e) = s\<lparr>fl_connect := map_option (\<lambda>c. connect_step c e) (fl_connect s)\<rparr>"
| "fleet_page_step s (FlLive x) = s\<lparr>fl_live := map_option (\<lambda>l. live_input l x) (fl_live s)\<rparr>"
| "fleet_page_step s (FlRestart n e) =
     (case fl_restart s n of
        None \<Rightarrow> s
      | Some b \<Rightarrow> (case e of RProps _ \<Rightarrow> s | _ \<Rightarrow> s\<lparr>fl_restart := (fl_restart s)(n \<mapsto> restart_step b e)\<rparr>))"

fun fleet_own :: "fleet_page_event \<Rightarrow> live_event option" where
  "fleet_own (FlLive x) = Some x"
| "fleet_own _ = None"

interpretation fleet_live: live_host fl_live "\<lambda>s. fleet_target (fl_overview s)" fleet_page_step fleet_own
proof (unfold_locales, goal_cases)
  case (1 e x s)
  then show ?case by (cases e) (simp_all add: fl_overview_def)
next
  case (2 e s)
  then show ?case
    by (cases e) (simp_all add: fl_overview_def Let_def del: fd_step.simps split: option.split restart_event.split)
qed

section \<open>The restart buttons\<close>

definition restart_shown :: "overview \<Rightarrow> jstr \<Rightarrow> restart_all option \<Rightarrow> bool" where
  "restart_shown v n m \<longleftrightarrow>
     (case m of
        None \<Rightarrow> poll_running (ov_fleet v) \<longrightarrow> n \<notin> a_name ` set (ov_agents v)
      | Some b \<Rightarrow> ra_agent b = n \<and> restart_ok b \<and> (\<exists>a \<in> set (ov_agents v). a_name a = n \<and> a_connected a = ra_connected b))"

definition restarts_ok :: "fleet_page \<Rightarrow> bool" where
  "restarts_ok s \<longleftrightarrow> (\<forall>n. restart_shown (fl_overview s) n (fl_restart s n))"

lemma restart_step_agent: "ra_agent (restart_step b e) = ra_agent b"
  by (cases e) (auto simp: restart_fire_def restart_fired_def Let_def split: sum.split)

lemma restart_step_connected: "(\<And>c. e \<noteq> RProps c) \<Longrightarrow> ra_connected (restart_step b e) = ra_connected b"
  by (cases e) (auto simp: restart_fire_def restart_fired_def Let_def split: sum.split)

lemma restart_step_shown:
  assumes "restart_shown v n (Some b)" "\<And>c. e \<noteq> RProps c"
  shows "restart_shown v n (Some (restart_step b e))"
proof -
  have "restart_ok (restart_step b e)" using assms(1) by (intro restart.ok_step) (simp add: restart_shown_def)
  then show ?thesis
    using assms restart_step_agent [of b e] restart_step_connected [of e b] by (simp add: restart_shown_def)
qed

lemma show_restart_shown:
  assumes "\<And>b. r n = Some b \<Longrightarrow> ra_agent b = n \<and> restart_ok b"
  shows "restart_shown v n (show_restart v r n)"
proof (cases "find_first (\<lambda>a. a_name a = n) (ov_agents v)")
  case None
  then have "n \<notin> a_name ` set (ov_agents v)" by (auto simp: find_first_None)
  with None show ?thesis by (simp add: show_restart_def restart_shown_def)
next
  case (Some a)
  with find_first_Some [OF Some] assms show ?thesis
    by (auto simp: show_restart_def restart_shown_def restart_mount_def restart_ok_def split: option.split)
qed

lemma restarts_step: "restarts_ok s \<Longrightarrow> restarts_ok (fleet_page_step s e)"
proof (cases e)
  case (FlDialog x)
  assume ok: "restarts_ok s"
  let ?v = "fd_page (fd_step (fl_dialogs s) x)"
  have "ra_agent b = n \<and> restart_ok b" if "fl_restart s n = Some b" for n b
    using ok that by (auto simp: restarts_ok_def restart_shown_def dest!: spec [of _ n])
  then have "restart_shown ?v n (show_restart ?v (fl_restart s) n)" for n by (rule show_restart_shown)
  then show ?thesis unfolding FlDialog restarts_ok_def by (simp add: Let_def fl_overview_def del: fd_step.simps)
next
  case (FlRestart n x)
  assume ok: "restarts_ok s"
  show ?thesis
  proof (cases "(\<exists>c. x = RProps c) \<or> fl_restart s n = None")
    case True
    then have "fleet_page_step s e = s" using FlRestart by (auto split: option.split)
    with ok show ?thesis by simp
  next
    case False
    then obtain b where b: "fl_restart s n = Some b" by blast
    with False FlRestart have e: "fleet_page_step s e = s\<lparr>fl_restart := (fl_restart s)(n \<mapsto> restart_step b x)\<rparr>"
      by (cases x) simp_all
    have "restart_shown (fl_overview s) n (Some b)" using ok b by (metis restarts_ok_def)
    then have "restart_shown (fl_overview s) n (Some (restart_step b x))" using False by (intro restart_step_shown) auto
    with ok show ?thesis unfolding e by (simp add: restarts_ok_def fl_overview_def)
  qed
qed (simp_all add: restarts_ok_def fl_overview_def)

lemma restarts_run: "restarts_ok s \<Longrightarrow> restarts_ok (foldl fleet_page_step s es)"
  by (induction es arbitrary: s) (simp_all add: restarts_step del: fleet_page_step.simps)

section \<open>As a page of the application\<close>

text \<open>The dialogs act on the page by events of the page only.\<close>

lemma fd_page_step:
  "fd_page (fd_step d e) =
     (case e of
        FdPage x \<Rightarrow> overview_step (fd_page d) x
      | FdAnswer k f \<Rightarrow>
          if k < length (fd_flight d) \<and> snd (add_answered f (am_form (fd_add d ! (fd_flight d ! k)))) = AddedAndClosed
          then overview_step (fd_page d) (OvAdd False) else fd_page d
      | _ \<Rightarrow> fd_page d)"
  by (cases e) (auto simp: Let_def case_prod_unfold simp del: overview_step.simps split: sum.split option.split add_outcome.split)

lemma fleet_dialogs_step:
  "fl_dialogs (fleet_page_step s e) = (case e of FlDialog x \<Rightarrow> fd_step (fl_dialogs s) x | _ \<Rightarrow> fl_dialogs s)"
  by (cases e) (simp_all add: Let_def del: fd_step.simps split: option.split restart_event.split)

lemma fleet_overview_cases:
  "fl_overview (fleet_page_step s e) = fl_overview s \<and> (\<forall>x. e \<noteq> FlDialog (FdPage x)) \<or>
   fl_overview (fleet_page_step s e) = overview_step (fl_overview s) (OvAdd False) \<and> (\<forall>x. e \<noteq> FlDialog (FdPage x)) \<or>
   (\<exists>x. e = FlDialog (FdPage x) \<and> fl_overview (fleet_page_step s e) = overview_step (fl_overview s) x)"
  by (auto simp: fleet_dialogs_step fd_page_step fl_overview_def simp del: overview_step.simps fd_step.simps fleet_page_step.simps
      split: fleet_page_event.split fleet_dialog_event.split)

definition fleet_page_idle :: "fleet_page \<Rightarrow> bool" where
  "fleet_page_idle s \<longleftrightarrow> overview_idle (fl_overview s) \<and> fl_connect s = None \<and> fl_live s = None \<and> fl_restart s = Map.empty"

lemma overview_idle_running: "overview_idle v \<Longrightarrow> \<not> poll_running (ov_fleet v)"
  by (simp add: overview_idle_def polls_idle_not_running)

lemma fleet_parts_idle:
  assumes "overview_idle (fl_overview (fleet_page_step s (FlDialog e)))"
  shows "fleet_page_idle (fleet_page_step s (FlDialog e))"
  using assms overview_idle_running [OF assms]
  by (simp add: fleet_page_idle_def fl_overview_def Let_def show_connect_def show_live_def fleet_target_def show_restart_def fun_eq_iff
      del: fd_step.simps)

interpretation fleet_page_mounted: mounted_page fleet_page_step "FlDialog (FdPage OvLeave)" "\<lambda>s. overview_live (fl_overview s)"
    fleet_page_idle "\<lambda>s. ov_logouts (fl_overview s)"
proof (unfold_locales, goal_cases)
  case (1 s e)
  then show ?case
    using fleet_overview_cases [of s e] overview_mounted.running_step [of "fl_overview s"] by fastforce
next
  case (2 s)
  then have "overview_idle (fl_overview (fleet_page_step s (FlDialog (FdPage OvLeave))))"
    using overview_mounted.leave_idle by (simp add: fleet_dialogs_step fd_page_step fl_overview_def
        del: overview_step.simps fd_step.simps fleet_page_step.simps)
  then show ?case by (rule fleet_parts_idle)
next
  case (3 s e)
  then have "overview_idle (fl_overview (fleet_page_step s e)) \<and>
      ov_logouts (fl_overview (fleet_page_step s e)) = ov_logouts (fl_overview s)"
    using fleet_overview_cases [of s e] overview_mounted.idle_step [of "fl_overview s"]
    by (auto simp: fleet_page_idle_def simp del: overview_step.simps fleet_page_step.simps)
  then show ?case
    using 3 fleet_parts_idle [of s] by (cases e) (auto simp: fleet_page_idle_def fl_overview_def simp del: fleet_page_step.simps(1))
qed

section \<open>The log on the page\<close>

text \<open>Events that keep the process picked: all but a click on the fleet, the closing of the dialog and leaving.\<close>

fun fleet_quiet :: "fleet_page_event \<Rightarrow> bool" where
  "fleet_quiet (FlLive x) = live_quiet x"
| "fleet_quiet (FlDialog (FdPage (OvClick _ _ _))) = False"
| "fleet_quiet (FlDialog (FdPage OvCloseLive)) = False"
| "fleet_quiet (FlDialog (FdPage OvLeave)) = False"
| "fleet_quiet _ = True"

lemma fleet_target_step:
  assumes "\<And>a p t. e \<noteq> OvClick a p t" "e \<noteq> OvCloseLive" "e \<noteq> OvLeave"
  shows "fleet_target (overview_step v e) = fleet_target v"
proof -
  have "ov_live (overview_step v e) = ov_live v"
    using assms by (cases e) (auto simp: overview_fleet_def overview_metrics_def overview_rerender_def Let_def
        split: option.split sum.split)
  moreover have "poll_running (ov_fleet (overview_step v e)) = poll_running (ov_fleet v)"
    using assms by (cases e) (auto simp: overview_polls_step poll_running_def poll_start_runs poll_take_runs poll_tick_def poll_send_def
        simp del: overview_step.simps split: option.split)
  ultimately show ?thesis by (simp add: fleet_target_def)
qed

lemma fleet_live_dialog:
  "fl_live (fleet_page_step s (FlDialog e)) = show_live (fleet_target (fl_overview (fleet_page_step s (FlDialog e)))) (fl_live s)"
  by (simp add: fl_overview_def Let_def del: fd_step.simps)

lemma fleet_quiet_page: "fleet_quiet (FlDialog (FdPage x)) \<Longrightarrow> fleet_target (overview_step v x) = fleet_target v"
  by (rule fleet_target_step) auto

interpretation fleet_server: live_server fl_live "\<lambda>s. fleet_target (fl_overview s)" fleet_page_step fleet_own FlLive fleet_quiet
proof (unfold_locales, goal_cases)
  case (2 e s)
  then show ?case
    using fleet_overview_cases [of s e] fleet_quiet_page fleet_target_step [of "OvAdd False"]
    by (auto simp del: fleet_page_step.simps overview_step.simps)
next
  case (3 e x)
  then show ?case by (cases e) simp_all
qed simp

section \<open>Properties\<close>

definition connect_ok :: "fleet_page \<Rightarrow> bool" where
  "connect_ok s \<longleftrightarrow> (fl_connect s \<noteq> None \<longleftrightarrow> ov_connect (fl_overview s) \<and> poll_running (ov_fleet (fl_overview s)))"

lemma connect_step: "connect_ok s \<Longrightarrow> connect_ok (fleet_page_step s e)"
  by (cases e) (auto simp: connect_ok_def fl_overview_def show_connect_def Let_def simp del: fd_step.simps
      split: option.split restart_event.split)

lemma connect_run: "connect_ok s \<Longrightarrow> connect_ok (foldl fleet_page_step s es)"
  by (induction es arbitrary: s) (simp_all add: connect_step del: fleet_page_step.simps)

lemma fleet_page_mount_ok:
  "restarts_ok fleet_page_mount" "connect_ok fleet_page_mount"
  "live_shows from (fleet_target (fl_overview fleet_page_mount)) (fl_live fleet_page_mount)"
  by (simp_all add: restarts_ok_def restart_shown_def connect_ok_def live_shows_def fleet_target_def fl_overview_def
      fleet_page_mount_def fd_mount_def overview_mount_def)

text \<open>C25. The parts of the fleet page show what the page says: after any events of the page and its
  dialogs, late answers included, the live log dialog is mounted exactly while a process was
  picked and not closed, polls for that process unless it is paused, and when every answer
  holds lines of what was asked for shows only those; the connect dialog is mounted exactly
  while it is open; and there is a restart button for each agent shown and no other, it names
  that agent, and it can be asked exactly while the agent is shown as connected and the button
  is neither busy nor waiting for its confirmation.\<close>

theorem fleet_parts:
  assumes "fleet_live.honest from fleet_page_mount es"
  defines "s \<equiv> foldl fleet_page_step fleet_page_mount es"
  defines "v \<equiv> fl_overview s"
  shows "(case fl_live s of
        None \<Rightarrow> poll_running (ov_fleet v) \<longrightarrow> ov_live v = None
      | Some l \<Rightarrow> ov_live v = Some (lv_agent l, lv_proc l) \<and> ls_args (lv_hook l) = live_args l \<and>
          (ls_interval (lv_hook l) \<noteq> None \<longleftrightarrow> \<not> lv_paused l) \<and>
          list_all (from (live_args l)) (live_lines lower compile l) \<and> length (live_lines lower compile l) \<le> 5000) \<and>
    (fl_connect s \<noteq> None \<longleftrightarrow> ov_connect v \<and> poll_running (ov_fleet v)) \<and>
    (case fl_restart s n of
        None \<Rightarrow> poll_running (ov_fleet v) \<longrightarrow> n \<notin> a_name ` set (ov_agents v)
      | Some b \<Rightarrow> ra_agent b = n \<and>
          (\<exists>a \<in> set (ov_agents v). a_name a = n \<and>
             (ra_pending (restart_step b RAsk) \<longleftrightarrow> ra_pending b \<or> a_connected a \<and> \<not> ra_busy b)))"
proof -
  have live: "live_shows from (fleet_target v) (fl_live s)"
    unfolding s_def v_def by (rule fleet_live.shows_run [OF fleet_page_mount_ok(3) assms(1)])
  have "restarts_ok s" "connect_ok s"
    unfolding s_def by (simp_all add: restarts_run connect_run fleet_page_mount_ok)
  then have "restart_shown v n (fl_restart s n)" "fl_connect s \<noteq> None \<longleftrightarrow> ov_connect v \<and> poll_running (ov_fleet v)"
    unfolding v_def by (simp_all add: restarts_ok_def connect_ok_def)
  moreover have "case fl_live s of
        None \<Rightarrow> poll_running (ov_fleet v) \<longrightarrow> ov_live v = None
      | Some l \<Rightarrow> ov_live v = Some (lv_agent l, lv_proc l) \<and> ls_args (lv_hook l) = live_args l \<and>
          (ls_interval (lv_hook l) \<noteq> None \<longleftrightarrow> \<not> lv_paused l) \<and>
          list_all (from (live_args l)) (live_lines lower compile l) \<and> length (live_lines lower compile l) \<le> 5000"
  proof (cases "fl_live s")
    case (Some l)
    then have "live_ok from l" using live by (simp add: live_shows_def)
    from live_ok_lines [OF this] Some live show ?thesis by (simp add: live_shows_def fleet_target_def split: if_splits)
  qed (use live in \<open>simp add: live_shows_def fleet_target_def split: if_splits\<close>)
  ultimately show ?thesis by (cases "fl_restart s n") (auto simp: restart_shown_def)
qed

theorem fleet_parts_witness:
  "let es = [FlDialog (FdPage (OvClick (js ''dev'') (js ''web'') (OnAction 0)))]; s = foldl fleet_page_step fleet_page_mount es
   in fleet_live.honest (\<lambda>a l. l_name l = ag_proc a) fleet_page_mount es \<and>
      map_option (\<lambda>l. (lv_agent l, lv_proc l)) (fl_live s) = Some (js ''dev'', js ''web'')"
proof -
  let ?es = "[FlDialog (FdPage (OvClick (js ''dev'') (js ''web'') (OnAction 0)))]"
  define s where "s = foldl fleet_page_step fleet_page_mount ?es"
  have h: "fleet_live.honest (\<lambda>a l. l_name l = ag_proc a) fleet_page_mount ?es" by simp
  have page: "poll_running (ov_fleet (fl_overview s))" "ov_live (fl_overview s) = Some (js ''dev'', js ''web'')"
    by (simp_all add: s_def fl_overview_def fleet_page_mount_def fd_mount_def overview_mount_def click_process_def
        LedgerRow_click_def rowActions_def poll_running_def poll_start_runs Let_def)
  from fleet_parts [OF h, of id "\<lambda>_. None", folded s_def, THEN conjunct1] page
  have "map_option (\<lambda>l. (lv_agent l, lv_proc l)) (fl_live s) = Some (js ''dev'', js ''web'')"
    by (cases "fl_live s") simp_all
  with h show ?thesis unfolding Let_def s_def [symmetric] by simp
qed



end
