(* ===== verification/ProcessPage.thy ===== *)
theory ProcessPage imports ProcessDetail FileBrowser LogWatch begin

text \<open>
  The process page with what it renders (web/src/ProcessDetail.tsx): the file browser of the Files
  tab and the live log dialog, each mounted, handed new props and unmounted as the state of the
  page says. Nothing here is keyed by the process: on a move to another process the parts stay
  mounted and are handed its name.
\<close>

section \<open>The page and its parts\<close>

record process_page =
  pp_page :: detail_page
  pp_files :: "file_browser option"
  pp_live :: "live_modal option"

definition detail_target :: "detail_page \<Rightarrow> (jstr \<times> jstr) option" where
  "detail_target d = (if poll_running (dp_fleet d) \<and> dp_live d then Some (dp_agent d, dp_proc d) else None)"

definition show_files :: "detail_page \<Rightarrow> file_browser option \<Rightarrow> file_browser option" where
  "show_files d m =
     (if poll_running (dp_fleet d)
      then case detail_body_of d of
             FilesBody a p c \<Rightarrow>
               Some (case m of None \<Rightarrow> browser_mount a p c | Some b \<Rightarrow> browser_step b (BrowserProps a p c))
           | _ \<Rightarrow> None
      else None)"

definition process_mount :: "jstr \<Rightarrow> jstr \<Rightarrow> process_page" where
  "process_mount agent proc = \<lparr>pp_page = detail_mount agent proc, pp_files = None, pp_live = None\<rparr>"

datatype process_event = PpPage detail_event | PpFiles browser_event | PpLive live_event

fun process_step :: "process_page \<Rightarrow> process_event \<Rightarrow> process_page" where
  "process_step s (PpPage e) =
     (let d = detail_step (pp_page s) e
      in \<lparr>pp_page = d, pp_files = show_files d (pp_files s), pp_live = show_live (detail_target d) (pp_live s)\<rparr>)"
| "process_step s (PpFiles e) =
     (case e of
        BrowserProps _ _ _ \<Rightarrow> s
      | _ \<Rightarrow> s\<lparr>pp_files := map_option (\<lambda>b. browser_step b e) (pp_files s)\<rparr>)"
| "process_step s (PpLive x) = s\<lparr>pp_live := map_option (\<lambda>l. live_input l x) (pp_live s)\<rparr>"

fun process_own :: "process_event \<Rightarrow> live_event option" where
  "process_own (PpLive x) = Some x"
| "process_own _ = None"

interpretation process_live: live_host pp_live "\<lambda>s. detail_target (pp_page s)" process_step process_own
proof (unfold_locales, goal_cases)
  case (1 e x s)
  then show ?case by (cases e) simp_all
next
  case (2 e s)
  then show ?case by (cases e) (simp_all add: Let_def split: browser_event.split)
qed

section \<open>The file browser of the page\<close>

definition files_ok :: "process_page \<Rightarrow> bool" where
  "files_ok s \<longleftrightarrow>
     (case pp_files s of
        None \<Rightarrow> poll_running (dp_fleet (pp_page s)) \<longrightarrow> (\<forall>a p c. detail_body_of (pp_page s) \<noteq> FilesBody a p c)
      | Some b \<Rightarrow> browser_ok b \<and> poll_running (dp_fleet (pp_page s)) \<and>
          detail_body_of (pp_page s) = FilesBody (fb_agent b) (fb_app b) (fb_credential b))"

lemma browser_props_simps [simp]:
  "fb_agent (browser_props a p c b) = a" "fb_app (browser_props a p c b) = p" "fb_credential (browser_props a p c b) = c"
  "fb_open (browser_props a p c b) = fb_open b" "fb_draft (browser_props a p c b) = fb_draft b"
  "fb_msg (browser_props a p c b) = fb_msg b" "fb_busy (browser_props a p c b) = fb_busy b"
  "fb_dialog (browser_props a p c b) = fb_dialog b"
  by (simp_all add: browser_props_def list_effect_def Let_def)

lemma browser_mount_simps [simp]:
  "fb_agent (browser_mount a p c) = a" "fb_app (browser_mount a p c) = p" "fb_credential (browser_mount a p c) = c"
  by (simp_all add: browser_mount_def list_effect_def)

lemma list_effect_props [simp]:
  "fb_agent (list_effect b) = fb_agent b" "fb_app (list_effect b) = fb_app b" "fb_credential (list_effect b) = fb_credential b"
  by (simp_all add: list_effect_def)

lemma after_commit_props [simp]:
  "fb_agent (after_commit m b) = fb_agent b" "fb_app (after_commit m b) = fb_app b"
  "fb_credential (after_commit m b) = fb_credential b"
  by (cases m; simp)+

text \<open>Only new props change what the browser works on.\<close>

lemmas browser_ops = go_to_def onEntry_def onSave_def start_mutation_def listed_def read_done_def mutated_def
  commitNewFile_def commitDelete_def commitRename_def dialog_confirm_def

lemma page_click_props:
  "fb_agent (page_click b e) = fb_agent b" "fb_app (page_click b e) = fb_app b" "fb_credential (page_click b e) = fb_credential b"
  by (cases e; simp add: browser_ops Let_def split: option.split)+

lemma browser_step_props:
  assumes "\<And>a p c. e \<noteq> BrowserProps a p c"
  shows "fb_agent (browser_step b e) = fb_agent b" "fb_app (browser_step b e) = fb_app b"
    "fb_credential (browser_step b e) = fb_credential b"
  using assms page_click_props [of b e]
  by (cases e; simp add: browser_ops Let_def split: option.split sum.split dialog.split prod.split)+

lemma files_step: "files_ok s \<Longrightarrow> files_ok (process_step s e)"
proof (cases e)
  case (PpPage x)
  let ?d = "detail_step (pp_page s) x"
  assume "files_ok s"
  then have b: "browser_ok b" if "pp_files s = Some b" for b using that by (simp add: files_ok_def)
  have "browser_ok (browser_mount a p c)" for a p c using browser_run_ok [of a p c "[]"] by simp
  with b have "browser_ok (case pp_files s of None \<Rightarrow> browser_mount a p c | Some b \<Rightarrow> browser_props a p c b)" for a p c
    by (simp add: browser_props_ok split: option.split)
  then show ?thesis
    unfolding PpPage process_step.simps Let_def
    by (auto simp: files_ok_def show_files_def simp del: detail_step.simps split: detail_body.split option.split)
next
  case (PpFiles x)
  assume s: "files_ok s"
  show ?thesis
  proof (cases "\<exists>a p c. x = BrowserProps a p c")
    case False
    then have "process_step s e = s\<lparr>pp_files := map_option (\<lambda>b. browser_step b x) (pp_files s)\<rparr>"
      using PpFiles by (cases x) simp_all
    then show ?thesis
      using s False browser_step_props [of x] by (cases "pp_files s") (simp_all add: files_ok_def browser_step_ok)
  qed (use s PpFiles in auto)
next
  case (PpLive x)
  assume "files_ok s"
  with PpLive show ?thesis by (cases "pp_files s") (simp_all add: files_ok_def)
qed

lemma files_run: "files_ok s \<Longrightarrow> files_ok (foldl process_step s es)"
  by (induction es arbitrary: s) (simp_all add: files_step del: process_step.simps)

lemma process_mount_ok: "files_ok (process_mount a p)" "live_shows from (detail_target (pp_page (process_mount a p))) (pp_live (process_mount a p))"
proof -
  have "dp_sub (detail_mount a p) = SubOver" "\<not> dp_live (detail_mount a p)"
    by (simp_all add: detail_mount_def start_fleet_def start_metrics_def start_logs_def)
  then show "files_ok (process_mount a p)" "live_shows from (detail_target (pp_page (process_mount a p))) (pp_live (process_mount a p))"
    by (simp_all add: files_ok_def process_mount_def detail_body_of_def live_shows_def detail_target_def)
qed

section \<open>As a page of the application\<close>

definition process_idle :: "process_page \<Rightarrow> bool" where
  "process_idle s \<longleftrightarrow> detail_idle (pp_page s) \<and> pp_files s = None \<and> pp_live s = None"

lemma process_page_step:
  "pp_page (process_step s e) = (case e of PpPage x \<Rightarrow> detail_step (pp_page s) x | _ \<Rightarrow> pp_page s)"
  by (cases e) (simp_all add: Let_def del: detail_step.simps split: browser_event.split)

lemma idle_not_running: "detail_idle d \<Longrightarrow> \<not> poll_running (dp_fleet d)"
  by (simp add: detail_idle_def polls_idle_not_running)

interpretation process_mounted: mounted_page process_step "PpPage LeaveDetail" "\<lambda>s. detail_live (pp_page s)" process_idle
    "\<lambda>s. dp_logouts (pp_page s)"
proof (unfold_locales, goal_cases)
  case (1 s e)
  then show ?case using detail_mounted.running_step by (auto simp: process_page_step split: process_event.split)
next
  case (2 s)
  then have "detail_idle (detail_step (pp_page s) LeaveDetail)" by (rule detail_mounted.leave_idle)
  then show ?case
    by (simp add: process_idle_def Let_def show_files_def show_live_def detail_target_def idle_not_running del: detail_step.simps)
next
  case (3 s e)
  show ?case
  proof (cases e)
    case (PpPage x)
    have "detail_idle (detail_step (pp_page s) x) \<and> dp_logouts (detail_step (pp_page s) x) = dp_logouts (pp_page s)"
      using 3 by (intro detail_mounted.idle_step) (simp add: process_idle_def)
    with PpPage 3 show ?thesis
      by (simp add: process_idle_def Let_def show_files_def show_live_def detail_target_def idle_not_running del: detail_step.simps)
  next
    case (PpFiles x)
    with 3 show ?thesis by (simp add: process_idle_def split: browser_event.split)
  next
    case (PpLive x)
    with 3 show ?thesis by (simp add: process_idle_def)
  qed
qed

section \<open>The log on the page\<close>

text \<open>Events that keep the dialog: all but a move to another process, its closing and leaving.\<close>

fun process_quiet :: "process_event \<Rightarrow> bool" where
  "process_quiet (PpLive x) = live_quiet x"
| "process_quiet (PpPage (detail_event.Props _ _)) = False"
| "process_quiet (PpPage (ShowLive b)) = b"
| "process_quiet (PpPage LeaveDetail) = False"
| "process_quiet _ = True"

lemma detail_target_step:
  assumes "process_quiet (PpPage e)" "detail_target d \<noteq> None"
  shows "detail_target (detail_step d e) = detail_target d"
proof -
  have "dp_live (detail_step d e) = dp_live d \<or> e = ShowLive True"
    using assms(1) by (cases e) (auto simp: fleet_answered_def start_metrics_def other_ops Let_def
        split: option.split sum.split detail_button.split)
  moreover have "dp_agent (detail_step d e) = dp_agent d" "dp_proc (detail_step d e) = dp_proc d"
    using assms(1) by (cases e; auto simp: fleet_answered_def other_ops Let_def split: option.split sum.split detail_button.split)+
  moreover have "poll_running (dp_fleet (detail_step d e)) = poll_running (dp_fleet d)"
    using assms(1) by (cases e) (auto simp: fleet_polls_step poll_running_def poll_take_runs poll_tick_def poll_send_def
        simp del: detail_step.simps split: option.split)
  ultimately show ?thesis using assms(2) by (auto simp: detail_target_def simp del: detail_step.simps split: if_splits) simp
qed

interpretation process_server: live_server pp_live "\<lambda>s. detail_target (pp_page s)" process_step process_own PpLive process_quiet
proof (unfold_locales, goal_cases)
  case (2 e s)
  then show ?case
    by (cases e) (use detail_target_step in \<open>auto simp: process_page_step simp del: process_step.simps detail_step.simps\<close>)
next
  case (3 e x)
  then show ?case by (cases e) simp_all
qed simp

text \<open>The log opened on the page of a process is complete, as it is on the fleet page.\<close>

lemma process_log_complete:
  fixes like :: "jstr \<Rightarrow> jstr \<Rightarrow> bool" and others :: log_stores
  defines "a s \<equiv> dp_agent (pp_page s)" and "p s \<equiv> dp_proc (pp_page s)"
  assumes "pp_live s = None" "poll_running (dp_fleet (pp_page s))" "a s \<noteq> []" "p s \<noteq> []" "table_ok t"
    and "list_all (\<lambda>i. list_all process_quiet (fst i)) ivs" "list_all (\<lambda>i. length (snd i) \<le> 1000) ivs"
  defines "w \<equiv> view_watch (\<lambda>s. lv_hook (the (pp_live s))) process_step (\<lambda>x. PpLive (LiveHook x)) like others (opening_args (a s) (p s)) t
      (process_step s (PpPage (ShowLive True))) ivs"
  shows "fst w = foldl append_lines t (map snd ivs) \<and>
    (\<exists>l. pp_live (snd w) = Some l \<and> lv_agent l = a s \<and> lv_proc l = p s \<and>
       live_lines lower compile l =
         visibleLines lower compile (lv_levels l) (db_filter (lv_filter l)) (log_since like (opening_args (a s) (p s)) t (fst w)))"
proof -
  let ?s = "process_step s (PpPage (ShowLive True))"
  have target: "detail_target (pp_page ?s) = Some (a s, p s)"
    using assms(4) by (simp add: detail_target_def a_def p_def Let_def)
  then have live: "pp_live ?s = Some (live_mount (a s) (p s))" using assms(3) by (simp add: show_live_def Let_def)
  show ?thesis unfolding w_def by (rule process_server.opened_log [OF target live assms(5-9)])
qed

section \<open>Properties\<close>

text \<open>C26. The parts of the process page work for the process in its heading: after any events of the
  page, the file browser and the dialog, moves to other processes and late answers included,
  the file browser is mounted exactly while its tab is open on a git app, reads and commits
  for that app with its credential, and keeps its own invariant; the live log dialog is
  mounted exactly while it is open, and when every answer holds lines of what was asked for,
  shows only lines of the process of the heading.\<close>

theorem process_parts:
  assumes "process_live.honest from (process_mount agent proc) es"
  defines "s \<equiv> foldl process_step (process_mount agent proc) es"
  shows "(case pp_files s of
        None \<Rightarrow> poll_running (dp_fleet (pp_page s)) \<longrightarrow> dp_sub (pp_page s) = SubOver \<or> \<not> showFiles (pp_page s)
      | Some b \<Rightarrow> browser_ok b \<and> dp_sub (pp_page s) = SubFiles \<and> showFiles (pp_page s) \<and>
          fb_agent b = dp_agent (pp_page s) \<and> fb_app b = dp_proc (pp_page s) \<and>
          fb_credential b = Option.bind (dp_p (pp_page s)) sp_credential) \<and>
    (case pp_live s of
        None \<Rightarrow> poll_running (dp_fleet (pp_page s)) \<longrightarrow> \<not> dp_live (pp_page s)
      | Some l \<Rightarrow> dp_live (pp_page s) \<and> lv_agent l = dp_agent (pp_page s) \<and> lv_proc l = dp_proc (pp_page s) \<and>
          list_all (from (live_args l)) (live_lines lower compile l) \<and> length (live_lines lower compile l) \<le> 5000)"
proof -
  have files: "files_ok s" unfolding s_def by (rule files_run) (rule process_mount_ok)
  have live: "live_shows from (detail_target (pp_page s)) (pp_live s)"
    unfolding s_def by (rule process_live.shows_run [OF process_mount_ok(2) assms(1)])
  show ?thesis
    using files live live_ok_lines(3,4)
    by (auto simp: files_ok_def live_shows_def detail_target_def detail_body_of_def split: option.splits if_splits)
      (metis subview.exhaust)+
qed

theorem process_parts_witness:
  "let s = foldl process_step (process_mount (js ''dev'') (js ''web'')) [PpPage (ShowLive True)]
   in process_live.honest (\<lambda>a l. l_name l = ag_proc a) (process_mount (js ''dev'') (js ''web'')) [PpPage (ShowLive True)] \<and>
      map_option (\<lambda>l. (lv_agent l, lv_proc l)) (pp_live s) = Some (js ''dev'', js ''web'')"
proof -
  let ?m = "process_mount (js ''dev'') (js ''web'')" and ?es = "[PpPage (ShowLive True)]"
  define s where "s = foldl process_step ?m ?es"
  have h: "process_live.honest (\<lambda>a l. l_name l = ag_proc a) ?m ?es" by simp
  have page: "poll_running (dp_fleet (pp_page s))" "dp_live (pp_page s)" "dp_agent (pp_page s) = js ''dev''"
    "dp_proc (pp_page s) = js ''web''"
    by (simp_all add: s_def process_mount_def detail_mount_def start_fleet_def start_metrics_def start_logs_def
        poll_running_def poll_start_runs Let_def)
  from process_parts [OF h, of id "\<lambda>_. None", folded s_def] page
  have "map_option (\<lambda>l. (lv_agent l, lv_proc l)) (pp_live s) = Some (js ''dev'', js ''web'')"
    by (simp split: option.splits)
  with h show ?thesis unfolding Let_def s_def [symmetric] by simp
qed

text \<open>
  A file under edit follows the route: when the page moves to another git app while the Files tab
  has unsaved changes, the editor keeps the file and the draft of the app left, and saving them
  commits that text to the same path of the other app.
\<close>

lemma editing_props: "editing b f \<Longrightarrow> well_formed a \<Longrightarrow> well_formed p \<Longrightarrow> editing (browser_props a p c b) f"
  by (simp add: editing_def browser_props_ok)

lemma draft_follows_route:
  assumes "pp_files s = Some b" "editing b f" "well_formed a" "well_formed p" "poll_running (dp_fleet (pp_page s))"
    "dp_sub (pp_page s) = SubFiles" "showFiles (pp_page s)"
  shows "\<exists>b' m r rest. pp_files (foldl process_step s [PpPage (detail_event.Props a p), PpFiles ClickSave]) = Some b' \<and>
    fb_mutation b' = Some (m, Inr r) \<and> req_method r = PUT \<and>
    app_target (req_url r) = Some (a, p, js ''file'', [(Inr (js ''path''), Inr (fc_path f))]) \<and>
    req_body r = Some (JObj ((js ''content'', JStr (fb_draft b)) # rest))"
proof -
  let ?d = "detail_step (pp_page s) (detail_event.Props a p)"
  have d: "dp_agent ?d = a" "dp_proc ?d = p" "dp_p ?d = dp_p (pp_page s)" "dp_sub ?d = SubFiles" "poll_running (dp_fleet ?d)"
    using assms(5,6) by (simp_all add: detail_props_def start_fleet_def start_metrics_def start_logs_def Let_def
        poll_running_def poll_start_runs)
  let ?c = "Option.bind (dp_p (pp_page s)) sp_credential"
  have "detail_body_of ?d = FilesBody a p ?c"
    using assms(7) d by (simp add: detail_body_of_def showFiles_def)
  then have "show_files ?d (Some b) = Some (browser_props a p ?c b)"
    using d by (simp add: show_files_def)
  then have moved: "pp_files (process_step s (PpPage (detail_event.Props a p))) = Some (browser_props a p ?c b)"
    using assms(1) by (simp add: Let_def del: detail_step.simps)
  let ?b = "browser_props a p ?c b"
  have e: "editing ?b f" by (rule editing_props [OF assms(2-4)])
  obtain r rest where "writeFile_req a p (fc_path f) (fb_draft b) (or_else (Some (fb_msg b)) (js ''Update '' @ fc_path f)) ?c = Inr r"
    "req_method r = PUT" "app_target (req_url r) = Some (a, p, js ''file'', [(Inr (js ''path''), Inr (fc_path f))])"
    "req_body r = Some (JObj ((js ''content'', JStr (fb_draft b)) # rest))"
    using write_request [OF assms(3,4), of "fc_path f"] assms(2) unfolding editing_def by metis
  moreover have "pp_files (foldl process_step s [PpPage (detail_event.Props a p), PpFiles ClickSave]) = Some (browser_step ?b ClickSave)"
    using moved by (simp del: process_step.simps(1) browser_step.simps)
  ultimately show ?thesis
    unfolding save_step [OF e] by (intro exI [of _ "start_mutation _ _ _"] exI) (simp add: start_mutation_def)
qed

end
