(* ===== verification/Application.thy ===== *)
theory Application imports Session FleetPage ProcessPage Credentials Notifications ErrorsPage LogsPage begin

text \<open>
  The whole application (web/src/App.tsx with the pages it renders): the frame, the shell around
  the pages, the page that is mounted and the pages that were left while answers to their
  requests were still under way. A change of the route keeps the page when the new route has a
  page of the same component, with new props, and otherwise unmounts it and mounts another. What
  the pages owe the application is the locale \<open>mounted_page\<close> of \<open>Polling\<close>.
\<close>

section \<open>The mounted page\<close>

datatype mounted =
    MFleet fleet_page | MDetail process_page | MCreds cred_page | MNotif notif_page | MErrors errors_page | MLogs logs_view

datatype page_event =
    EvFleet fleet_page_event | EvDetail process_event | EvCreds cred_event | EvNotif notif_event
  | EvErrors errors_event | EvLogs logs_view_event

definition mount_page :: "route \<Rightarrow> mounted" where
  "mount_page r =
     (case r of
        RDetail a p \<Rightarrow> MDetail (process_mount a p)
      | RCredentials \<Rightarrow> MCreds cred_mount
      | RNotifications \<Rightarrow> MNotif notif_mount
      | RErrors \<Rightarrow> MErrors errors_mount
      | RLogs a p \<Rightarrow> MLogs (logs_view_mount a p)
      | ROverview \<Rightarrow> MFleet fleet_page_mount)"

text \<open>The component of a route is the one that is mounted.\<close>

fun same_page :: "route \<Rightarrow> mounted \<Rightarrow> bool" where
  "same_page ROverview (MFleet _) = True"
| "same_page (RDetail _ _) (MDetail _) = True"
| "same_page RCredentials (MCreds _) = True"
| "same_page RNotifications (MNotif _) = True"
| "same_page RErrors (MErrors _) = True"
| "same_page (RLogs _ _) (MLogs _) = True"
| "same_page _ _ = False"

text \<open>
  Rendering the app again gives the mounted page its props: a new \<open>onLogout\<close> for the fleet page,
  and the agent and process of the route for the process page. The log page reads its props
  only when it is mounted.
\<close>

fun rerender_page :: "route \<Rightarrow> mounted \<Rightarrow> mounted" where
  "rerender_page ROverview (MFleet s) = MFleet (fleet_page_step s (FlDialog (FdPage OvRerender)))"
| "rerender_page (RDetail a p) (MDetail s) = MDetail (process_step s (PpPage (detail_event.Props a p)))"
| "rerender_page _ m = m"

definition leave_page :: "mounted \<Rightarrow> mounted" where
  "leave_page m =
     (case m of
        MFleet s \<Rightarrow> MFleet (fleet_page_step s (FlDialog (FdPage OvLeave)))
      | MDetail s \<Rightarrow> MDetail (process_step s (PpPage LeaveDetail))
      | MErrors s \<Rightarrow> MErrors (errors_step s LeaveErrors)
      | MLogs s \<Rightarrow> MLogs (logs_view_step s (PageEvent LeaveLogs))
      | _ \<Rightarrow> m)"

text \<open>Events of the page itself; props and unmounting are the application's.\<close>

fun page_step :: "mounted \<Rightarrow> page_event \<Rightarrow> mounted" where
  "page_step (MFleet s) (EvFleet e) =
     MFleet (if e = FlDialog (FdPage OvRerender) \<or> e = FlDialog (FdPage OvLeave) then s else fleet_page_step s e)"
| "page_step (MDetail s) (EvDetail e) =
     MDetail (case e of PpPage (detail_event.Props _ _) \<Rightarrow> s | PpPage LeaveDetail \<Rightarrow> s | _ \<Rightarrow> process_step s e)"
| "page_step (MCreds s) (EvCreds e) = MCreds (cred_step s e)"
| "page_step (MNotif s) (EvNotif e) = MNotif (notif_step s e)"
| "page_step (MErrors s) (EvErrors e) = MErrors (if e = LeaveErrors then s else errors_step s e)"
| "page_step (MLogs s) (EvLogs e) = MLogs (if e = PageEvent LeaveLogs then s else logs_view_step s e)"
| "page_step m _ = m"

text \<open>Answers, the events that may still reach a page that was left.\<close>

fun is_answer :: "page_event \<Rightarrow> bool" where
  "is_answer (EvFleet e) =
     (case e of
        FlDialog (FdPage (OvFleet _ _)) \<Rightarrow> True | FlDialog (FdPage (OvMetrics _ _)) \<Rightarrow> True
      | FlDialog (FdCredentials _ _) \<Rightarrow> True | FlDialog (FdAnswer _ _) \<Rightarrow> True | _ \<Rightarrow> False)"
| "is_answer (EvDetail e) =
     (case e of
        PpPage (FleetAnswered _ _) \<Rightarrow> True | PpPage (StatsAnswered _ _) \<Rightarrow> True | PpPage (MetricsAnswered _ _) \<Rightarrow> True
      | PpPage (LogsAnswered _ _) \<Rightarrow> True | _ \<Rightarrow> False)"
| "is_answer (EvCreds e) =
     (case e of Listed _ _ \<Rightarrow> True | SshCreated _ \<Rightarrow> True | TokenCreated _ \<Rightarrow> True | Deleted _ _ \<Rightarrow> True | _ \<Rightarrow> False)"
| "is_answer (EvNotif e) =
     (case e of ReloadAnswered _ \<Rightarrow> True | ChannelAnswered _ \<Rightarrow> True | RuleAnswered _ \<Rightarrow> True
      | SettingsAnswered _ \<Rightarrow> True | TestAnswered _ \<Rightarrow> True | _ \<Rightarrow> False)"
| "is_answer (EvErrors e) =
     (case e of ErrorsAnswered _ _ \<Rightarrow> True | AckAnswered _ _ \<Rightarrow> True | AllAnswered _ \<Rightarrow> True | _ \<Rightarrow> False)"
| "is_answer (EvLogs e) = (case e of PageEvent (FleetLoaded _ _) \<Rightarrow> True | _ \<Rightarrow> False)"

section \<open>The shell\<close>

text \<open>The state of \<open>AppShell\<close> that is its own: the badge with its poll, and the update status.\<close>

record shell =
  sh_badge :: int
  sh_polls :: "(unit, unit, unit) polls"
  sh_update :: "update_status option"
  sh_asked :: bool

definition shell_mount :: shell where
  "shell_mount = \<lparr>sh_badge = 0, sh_polls = poll_start () () () no_polls, sh_update = None, sh_asked = True\<rparr>"

definition shell_badge :: "nat \<Rightarrow> errors_response fetched \<Rightarrow> shell \<Rightarrow> shell" where
  "shell_badge j f s =
     (case poll_take j (sh_polls s) of
        None \<Rightarrow> s
      | Some (i, _, p) \<Rightarrow> s\<lparr>sh_polls := p, sh_badge := badge_answered (poll_stopped i p) f (sh_badge s)\<rparr>)"

definition shell_updated :: "update_status fetched \<Rightarrow> shell \<Rightarrow> shell" where
  "shell_updated f s =
     (if sh_asked s
      then case reply f getUpdate_res of
             Inl _ \<Rightarrow> s\<lparr>sh_asked := False\<rparr>
           | Inr u \<Rightarrow> s\<lparr>sh_asked := False, sh_update := Some u\<rparr>
      else s)"

section \<open>The application\<close>

record application =
  ap_frame :: frame
  ap_shell :: "shell option"
  ap_page :: "mounted option"
  ap_left :: "mounted list"

definition app_mount :: "frame \<Rightarrow> application" where
  "app_mount fr = \<lparr>ap_frame = fr, ap_shell = None, ap_page = None, ap_left = []\<rparr>"

text \<open>
  What a new state of the frame makes of the mounted components: the shell is there while a
  session is confirmed, and inside it the page of the route unless the boundary shows its
  fallback. \<open>again\<close> says that the app itself rendered again.
\<close>

definition show_frame :: "bool \<Rightarrow> frame \<Rightarrow> application \<Rightarrow> application" where
  "show_frame again fr a =
     (let gone = a\<lparr>ap_frame := fr, ap_page := None, ap_left := map leave_page (case ap_page a of None \<Rightarrow> [] | Some m \<Rightarrow> [m]) @ ap_left a\<rparr>
      in case App fr of
           Shell ctx (Some r) \<Rightarrow>
             (let b = (case ap_page a of
                  Some m \<Rightarrow>
                    if same_page r m then a\<lparr>ap_frame := fr, ap_page := Some (if again then rerender_page r m else m)\<rparr>
                    else gone\<lparr>ap_page := Some (mount_page r)\<rparr>
                | None \<Rightarrow> gone\<lparr>ap_page := Some (mount_page r)\<rparr>)
              in b\<lparr>ap_shell := Some (case ap_shell a of None \<Rightarrow> shell_mount | Some x \<Rightarrow> x)\<rparr>)
         | Shell ctx None \<Rightarrow> gone\<lparr>ap_shell := Some (case ap_shell a of None \<Rightarrow> shell_mount | Some x \<Rightarrow> x)\<rparr>
         | _ \<Rightarrow> gone\<lparr>ap_shell := None\<rparr>)"

text \<open>A change of the hash that can be parsed sets the route to a new object, which renders the app again.\<close>

fun renders :: "frame_event \<Rightarrow> frame \<Rightarrow> bool" where
  "renders (Hash h) fr = (h \<noteq> location_hash (fr_router fr) \<and> \<not> is_error (parseHash h))"
| "renders _ fr = False"

definition app_frame :: "frame_event \<Rightarrow> application \<Rightarrow> application" where
  "app_frame e a = show_frame (renders e (ap_frame a)) (frame_step (ap_frame a) e) a"

text \<open>
  What an event of a page asks of the frame: a call of \<open>onLogout\<close> signs out, and a click on a
  row of the fleet page or of the errors page opens the page of its process, unless a name
  cannot be encoded.
\<close>

definition called_logout :: "mounted \<Rightarrow> mounted \<Rightarrow> bool" where
  "called_logout m m' =
     (case (m, m') of
        (MFleet s, MFleet t) \<Rightarrow> ov_logouts (fl_overview s) < ov_logouts (fl_overview t)
      | (MDetail s, MDetail t) \<Rightarrow> dp_logouts (pp_page s) < dp_logouts (pp_page t)
      | _ \<Rightarrow> False)"

definition opened :: "mounted \<Rightarrow> mounted \<Rightarrow> (jstr \<times> jstr) option" where
  "opened m m' =
     (case (m, m') of
        (MFleet s, MFleet t) \<Rightarrow> 
          (case drop (length (ov_opened (fl_overview s))) (ov_opened (fl_overview t)) of [] \<Rightarrow> None | k # _ \<Rightarrow> Some k)
      | _ \<Rightarrow> None)"

definition open_process :: "jstr \<times> jstr \<Rightarrow> application \<Rightarrow> application" where
  "open_process k a = (case procHref (fst k) (snd k) of Inl _ \<Rightarrow> a | Inr h \<Rightarrow> app_frame (Hash h) a)"

definition page_did :: "mounted \<Rightarrow> mounted \<Rightarrow> application \<Rightarrow> application" where
  "page_did m m' a =
     (if called_logout m m' then app_frame SignOut a
      else case opened m m' of None \<Rightarrow> a | Some k \<Rightarrow> open_process k a)"

definition errors_row_click :: "nat \<Rightarrow> application \<Rightarrow> application" where
  "errors_row_click i a =
     (case ap_page a of
        Some (MErrors s) \<Rightarrow>
          (case ep_data s of
             None \<Rightarrow> a
           | Some d \<Rightarrow> if i < length (er_signatures d)
               then open_process (es_agent (er_signatures d ! i), es_proc (er_signatures d ! i)) a else a)
      | _ \<Rightarrow> a)"

datatype app_event =
    AppFrame frame_event | AppPage page_event | AppLate nat page_event | AppErrorsRow nat
  | AppBadgeTick | AppBadge nat "errors_response fetched" | AppUpdate "update_status fetched"

fun app_step :: "application \<Rightarrow> app_event \<Rightarrow> application" where
  "app_step a (AppFrame e) = app_frame e a"
| "app_step a (AppPage e) =
     (case ap_page a of None \<Rightarrow> a
      | Some m \<Rightarrow> page_did m (page_step m e) (a\<lparr>ap_page := Some (page_step m e)\<rparr>))"
| "app_step a (AppLate k e) =
     (if k < length (ap_left a) \<and> is_answer e
      then page_did (ap_left a ! k) (page_step (ap_left a ! k) e) (a\<lparr>ap_left := (ap_left a)[k := page_step (ap_left a ! k) e]\<rparr>)
      else a)"
| "app_step a (AppErrorsRow i) = errors_row_click i a"
| "app_step a AppBadgeTick = a\<lparr>ap_shell := map_option (\<lambda>s. s\<lparr>sh_polls := poll_tick () (sh_polls s)\<rparr>) (ap_shell a)\<rparr>"
| "app_step a (AppBadge j f) = a\<lparr>ap_shell := map_option (shell_badge j f) (ap_shell a)\<rparr>"
| "app_step a (AppUpdate f) = a\<lparr>ap_shell := map_option (shell_updated f) (ap_shell a)\<rparr>"

section \<open>What the application keeps\<close>

text \<open>A page that is mounted polls, and its parts are those its state asks for.\<close>

definition page_live :: "mounted \<Rightarrow> bool" where
  "page_live m \<longleftrightarrow>
     (case m of MFleet s \<Rightarrow> overview_live (fl_overview s) \<and> restarts_ok s \<and> connect_ok s
      | MDetail s \<Rightarrow> detail_live (pp_page s) \<and> files_ok s | MErrors s \<Rightarrow> polls_live (ep_polls s)
      | MLogs s \<Rightarrow> polls_live (lg_polls (lw_page s)) | _ \<Rightarrow> True)"

definition page_idle :: "mounted \<Rightarrow> bool" where
  "page_idle m \<longleftrightarrow>
     (case m of MFleet s \<Rightarrow> fleet_page_idle s | MDetail s \<Rightarrow> process_idle s | MErrors s \<Rightarrow> polls_idle (ep_polls s)
      | MLogs s \<Rightarrow> logs_idle s | _ \<Rightarrow> True)"

text \<open>The page of a route; the process page is that of the process the route names.\<close>

definition page_of :: "route \<Rightarrow> mounted \<Rightarrow> bool" where
  "page_of r m \<longleftrightarrow> same_page r m \<and>
     (case (r, m) of (RDetail a p, MDetail s) \<Rightarrow> dp_agent (pp_page s) = a \<and> dp_proc (pp_page s) = p | _ \<Rightarrow> True)"

definition router_ok :: "frame \<Rightarrow> bool" where
  "router_ok fr \<longleftrightarrow> (\<forall>r. parseHash (location_hash (fr_router fr)) = Inr r \<longrightarrow> current (fr_router fr) = r)"

definition app_ok :: "application \<Rightarrow> bool" where
  "app_ok a \<longleftrightarrow>
     (case App (ap_frame a) of
        Shell ctx (Some r) \<Rightarrow> (case ap_page a of None \<Rightarrow> False | Some m \<Rightarrow> page_of r m \<and> page_live m)
      | _ \<Rightarrow> ap_page a = None) \<and>
     list_all page_idle (ap_left a) \<and> router_ok (ap_frame a)"

lemma mount_live: "page_live (mount_page r)" "page_of r (mount_page r)"
  using fleet_page_mount_ok process_mount_ok(1)
  by (auto simp: mount_page_def page_live_def page_of_def overview_live_def overview_mount_def detail_live_def detail_mount_def
      fl_overview_def fleet_page_mount_def fd_mount_def process_mount_def
      errors_mount_def load_errors_def logs_view_mount_def logs_page_mount_def split: route.split)

lemma leave_live: "page_live m \<Longrightarrow> page_idle (leave_page m)"
  using fleet_page_mounted.leave_idle process_mounted.leave_idle errors_mounted.leave_idle logs_mounted.leave_idle
  by (auto simp: page_live_def page_idle_def leave_page_def simp del: fleet_page_step.simps process_step.simps errors_step.simps
      logs_view_step.simps split: mounted.split)

lemma rerender_live:
  assumes "page_live m" "same_page r m"
  shows "page_live (rerender_page r m) \<and> page_of r (rerender_page r m)"
  using assms fleet_page_mounted.running_step [of _ "FlDialog (FdPage OvRerender)"]
    restarts_step [of _ "FlDialog (FdPage OvRerender)"] connect_step [of _ "FlDialog (FdPage OvRerender)"] files_step
  by (cases r; cases m) (auto simp: page_live_def page_of_def process_page_step detail_props_def Let_def detail_live_def
      polls_live_ok simp del: fleet_page_step.simps process_step.simps)

lemma detail_route_step:
  "(\<And>a p. e \<noteq> detail_event.Props a p) \<Longrightarrow> dp_agent (detail_step s e) = dp_agent s \<and> dp_proc (detail_step s e) = dp_proc s"
  by (cases e) (auto simp: fleet_answered_def other_ops start_metrics_def Let_def split: option.split sum.split detail_button.split)

text \<open>The events of a page that call \<open>onLogout\<close>: a failed request of the live run of its fleet effect.\<close>

fun page_fails :: "page_event \<Rightarrow> mounted \<Rightarrow> bool" where
  "page_fails (EvFleet (FlDialog (FdPage e))) (MFleet s) = fleet_fails e (fl_overview s)"
| "page_fails (EvDetail (PpPage e)) (MDetail s) = detail_fails e (pp_page s)"
| "page_fails _ _ = False"

text \<open>A step of a page is a step of its machine or none, and one that is none of props keeps the route.\<close>

lemma page_step_cases:
  obtains "page_step m e = m" "\<not> page_fails e m"
  | s x where "m = MFleet s" "e = EvFleet x" "x \<noteq> FlDialog (FdPage OvLeave)" "page_step m e = MFleet (fleet_page_step s x)"
  | s x where "m = MDetail s" "e = EvDetail x" "x \<noteq> PpPage LeaveDetail" "\<forall>a p. x \<noteq> PpPage (detail_event.Props a p)"
      "page_step m e = MDetail (process_step s x)"
  | s x where "m = MCreds s" "e = EvCreds x" "page_step m e = MCreds (cred_step s x)"
  | s x where "m = MNotif s" "e = EvNotif x" "page_step m e = MNotif (notif_step s x)"
  | s x where "m = MErrors s" "e = EvErrors x" "x \<noteq> LeaveErrors" "page_step m e = MErrors (errors_step s x)"
  | s x where "m = MLogs s" "e = EvLogs x" "x \<noteq> PageEvent LeaveLogs" "page_step m e = MLogs (logs_view_step s x)"
proof (cases "(m, e)" rule: page_step.cases)
  case (1 s x)
  show ?thesis
  proof (cases "x = FlDialog (FdPage OvRerender) \<or> x = FlDialog (FdPage OvLeave)")
    case True
    then show ?thesis using that(1) 1 by auto
  next
    case False
    then show ?thesis using 1 that(2) [of s x] by (simp del: fleet_page_step.simps)
  qed
next
  case (2 s x)
  show ?thesis
  proof (cases "x = PpPage LeaveDetail \<or> (\<exists>a p. x = PpPage (detail_event.Props a p))")
    case True
    then show ?thesis using that(1) 2 by auto
  next
    case False
    then have "page_step m e = MDetail (process_step s x)"
      using 2 by (auto simp del: process_step.simps split: process_event.split detail_event.split)
    then show ?thesis using False 2 that(3) [of s x] by simp
  qed
next
  case (5 s x)
  then show ?thesis using that(1) that(6) [of s x] by (cases "x = LeaveErrors") (simp_all del: errors_step.simps)
next
  case (6 s x)
  then show ?thesis using that(1) that(7) [of s x] by (cases "x = PageEvent LeaveLogs") (simp_all del: logs_view_step.simps)
qed (use that in \<open>auto simp del: cred_step.simps notif_step.simps\<close>)

lemma page_step_live:
  assumes "page_live m"
  shows "page_live (page_step m e)" "page_of r (page_step m e) = page_of r m"
proof -
  show "page_live (page_step m e)"
    by (cases rule: page_step_cases [of m e])
      (use assms fleet_page_mounted.running_step restarts_step connect_step process_mounted.running_step files_step
        errors_mounted.running_step logs_mounted.running_step in \<open>simp_all add: page_live_def\<close>)
  show "page_of r (page_step m e) = page_of r m"
  proof (cases rule: page_step_cases [of m e])
    case (3 s x)
    have "dp_agent (pp_page (process_step s x)) = dp_agent (pp_page s) \<and> dp_proc (pp_page (process_step s x)) = dp_proc (pp_page s)"
      using 3(4) detail_route_step by (cases x) (simp_all add: process_page_step del: process_step.simps)
    then show ?thesis unfolding 3(5) by (cases r) (simp_all add: page_of_def 3(1))
  qed (cases r; simp add: page_of_def)+
qed

lemma process_logouts_step:
  "dp_logouts (pp_page (process_step s e)) =
     dp_logouts (pp_page s) + (case e of PpPage x \<Rightarrow> if detail_fails x (pp_page s) then 1 else 0 | _ \<Rightarrow> 0)"
  by (simp add: process_page_step detail_logouts_step split: process_event.split)

lemma fleet_logouts_step:
  "ov_logouts (fl_overview (fleet_page_step s e)) =
     ov_logouts (fl_overview s) + (case e of FlDialog (FdPage x) \<Rightarrow> if fleet_fails x (fl_overview s) then 1 else 0 | _ \<Rightarrow> 0)"
  by (auto simp: fl_overview_def fleet_dialogs_step fd_page_step logout_step simp del: overview_step.simps fd_step.simps fleet_page_step.simps
      split: fleet_page_event.split fleet_dialog_event.split)

lemma idle_page_step:
  assumes "page_idle m"
  shows "page_idle (page_step m e)" "\<not> called_logout m (page_step m e)"
proof -
  show "page_idle (page_step m e)"
    by (cases rule: page_step_cases [of m e])
      (use assms fleet_page_mounted.idle_step process_mounted.idle_step errors_mounted.idle_step logs_mounted.idle_step
        in \<open>simp_all add: page_idle_def\<close>)
  show "\<not> called_logout m (page_step m e)"
    by (cases rule: page_step_cases [of m e])
      (use assms fleet_page_mounted.idle_step process_mounted.idle_step in
        \<open>simp_all add: page_idle_def called_logout_def split: mounted.split\<close>)
qed

lemma answer_opens_nothing: "is_answer e \<Longrightarrow> opened m (page_step m e) = None"
proof (cases rule: page_step_cases [of m e])
  case (2 s x)
  assume "is_answer e"
  with 2(2) have "ov_opened (fl_overview (fleet_page_step s x)) = ov_opened (fl_overview s)"
    by (auto simp: fl_overview_def fleet_dialogs_step fd_page_step overview_fleet_def overview_metrics_def Let_def
        simp del: fd_step.simps fleet_page_step.simps
        split: fleet_page_event.splits fleet_dialog_event.splits overview_event.splits option.split sum.split)
  with 2 show ?thesis by (simp add: opened_def)
qed (simp_all add: opened_def split: mounted.split)

lemma frame_router:
  assumes "router_ok fr"
  shows "router_ok (frame_step fr e)"
    "\<not> renders e fr \<Longrightarrow> current (fr_router (frame_step fr e)) = current (fr_router fr)"
proof -
  have keep: "fr_router (frame_step fr e) = fr_router fr" if "\<forall>h. e \<noteq> Hash h"
    using that by (cases e) (auto simp: session_answered_def set_pass_def submit_def login_answered_def sign_out_def
        render_failed_def split: sum.split bool.split page.split)
  show "router_ok (frame_step fr e)"
  proof (cases "\<exists>h. e = Hash h")
    case True
    then show ?thesis
      by (auto simp: router_ok_def go_hash_def navigate_def on_hashchange_def split: sum.split)
  next
    case False
    then show ?thesis using keep assms by (simp add: router_ok_def)
  qed
  show "current (fr_router (frame_step fr e)) = current (fr_router fr)" if "\<not> renders e fr"
  proof (cases "\<exists>h. e = Hash h")
    case True
    then show ?thesis using that assms
      by (auto simp: router_ok_def go_hash_def navigate_def on_hashchange_def is_error_def split: sum.split)
  next
    case False
    then show ?thesis using keep by simp
  qed
qed

lemma App_route: "App fr = Shell ctx (Some r) \<Longrightarrow> r = current (fr_router fr)"
  by (auto simp: App_def render_boundary_def split: option.splits bool.splits if_splits)

lemma page_of_same: "page_of r m \<Longrightarrow> same_page r m"
  by (simp add: page_of_def)

lemma app_ok_page: "app_ok a \<Longrightarrow> ap_page a = Some m \<Longrightarrow> page_of (current (fr_router (ap_frame a))) m \<and> page_live m"
  by (auto simp: app_ok_def dest: App_route split: page.splits option.splits)

lemma show_frame_simps [simp]: "ap_frame (show_frame again fr a) = fr"
  by (auto simp: show_frame_def Let_def split: page.split option.split)

lemma show_frame_ok:
  assumes "app_ok a" "router_ok fr" "again \<or> current (fr_router fr) = current (fr_router (ap_frame a))"
  shows "app_ok (show_frame again fr a)"
proof -
  have left: "list_all page_idle (ap_left a)" using assms(1) by (simp add: app_ok_def)
  note page = app_ok_page [OF assms(1)]
  have gone: "list_all page_idle (map leave_page (case ap_page a of None \<Rightarrow> [] | Some m \<Rightarrow> [m]))"
    using page leave_live by (auto split: option.split)
  show ?thesis
  proof (cases "\<exists>ctx r. App fr = Shell ctx (Some r)")
    case True
    then obtain ctx r where r: "App fr = Shell ctx (Some r)" by blast
    show ?thesis
    proof (cases "ap_page a")
      case None
      then show ?thesis using r left assms(2) mount_live by (simp add: app_ok_def show_frame_def Let_def)
    next
      case (Some m)
      show ?thesis
      proof (cases "same_page r m")
        case True
        have "page_of r m" if "\<not> again" using that assms(3) page [OF Some] App_route [OF r] by simp
        then have "page_live (if again then rerender_page r m else m) \<and> page_of r (if again then rerender_page r m else m)"
          using page [OF Some] rerender_live [OF _ True] by simp
        then show ?thesis using Some True r left assms(2) by (simp add: app_ok_def show_frame_def Let_def)
      next
        case False
        then show ?thesis using Some r left gone assms(2) mount_live by (simp add: app_ok_def show_frame_def Let_def)
      qed
    qed
  next
    case False
    then show ?thesis
      using left gone assms(2) by (auto simp: app_ok_def show_frame_def Let_def split: page.split option.split)
  qed
qed

lemma app_frame_ok: "app_ok a \<Longrightarrow> app_ok (app_frame e a)"
  using show_frame_ok [of a "frame_step (ap_frame a) e" "renders e (ap_frame a)"] frame_router [of "ap_frame a" e]
  by (auto simp: app_frame_def app_ok_def)

lemma open_process_ok: "app_ok a \<Longrightarrow> app_ok (open_process k a)"
  by (simp add: open_process_def app_frame_ok split: sum.split)

lemma page_did_ok: "app_ok a \<Longrightarrow> app_ok (page_did m m' a)"
  by (simp add: page_did_def app_frame_ok open_process_ok split: option.split)

lemma late_step:
  assumes "app_ok a"
  shows "app_step a (AppLate k e) = a \<or>
    (\<exists>ms. app_step a (AppLate k e) = a\<lparr>ap_left := ms\<rparr> \<and> list_all page_idle ms)"
proof (cases "k < length (ap_left a) \<and> is_answer e")
  case True
  then have i: "page_idle (ap_left a ! k)" using assms by (simp add: app_ok_def list_all_length)
  then have "list_all page_idle ((ap_left a)[k := page_step (ap_left a ! k) e])"
    using assms idle_page_step(1) [OF i, of e]
    by (auto simp: app_ok_def list_all_iff dest: set_update_subset_insert [THEN subsetD])
  moreover have "app_step a (AppLate k e) = a\<lparr>ap_left := (ap_left a)[k := page_step (ap_left a ! k) e]\<rparr>"
    using True idle_page_step(2) [OF i, of e] answer_opens_nothing [of e "ap_left a ! k"] by (simp add: page_did_def)
  ultimately show ?thesis by blast
qed auto

lemma app_ok_cong:
  "app_ok a \<Longrightarrow> ap_frame b = ap_frame a \<Longrightarrow> ap_page b = ap_page a \<Longrightarrow> list_all page_idle (ap_left b) \<Longrightarrow> app_ok b"
  unfolding app_ok_def by (simp only:)

lemma app_ok_shell: "app_ok a \<Longrightarrow> app_ok (a\<lparr>ap_shell := x\<rparr>)"
  by (rule app_ok_cong [of a]) (simp_all add: app_ok_def)

lemma app_step_ok: "app_ok a \<Longrightarrow> app_ok (app_step a e)"
proof (cases e)
  case (AppPage x)
  assume ok: "app_ok a"
  show ?thesis
  proof (cases "ap_page a")
    case (Some m)
    have "app_ok (a\<lparr>ap_page := Some (page_step m x)\<rparr>)"
      using ok Some page_step_live [of m] by (auto simp: app_ok_def split: page.splits option.splits)
    with AppPage Some show ?thesis by (simp add: page_did_ok)
  qed (use AppPage ok in simp)
next
  case (AppLate k x)
  assume ok: "app_ok a"
  from late_step [OF ok, of k x] show ?thesis
  proof
    assume "\<exists>ms. app_step a (AppLate k x) = a\<lparr>ap_left := ms\<rparr> \<and> list_all page_idle ms"
    then obtain ms where "app_step a (AppLate k x) = a\<lparr>ap_left := ms\<rparr>" "list_all page_idle ms" by blast
    then show ?thesis using AppLate app_ok_cong [OF ok, of "a\<lparr>ap_left := ms\<rparr>"] by simp
  qed (use AppLate ok in simp)
next
  case (AppErrorsRow i)
  assume "app_ok a"
  with AppErrorsRow show ?thesis by (simp add: errors_row_click_def open_process_ok split: option.split mounted.split)
qed (simp_all add: app_frame_ok app_ok_shell)

lemma app_run_ok: "app_ok a \<Longrightarrow> app_ok (foldl app_step a es)"
  by (induction es arbitrary: a) (simp_all add: app_step_ok)

lemma app_mount_ok: "boot hash cookie = Inr fr \<Longrightarrow> app_ok (app_mount fr)"
  by (auto simp: boot_def map_result_def use_route_init_def app_mount_def app_ok_def App_def router_ok_def split: sum.splits)

section \<open>Signing out\<close>

lemma called_logout_fails: "called_logout m (page_step m e) \<longleftrightarrow> page_fails e m"
proof (cases rule: page_step_cases [of m e])
  case 1
  then show ?thesis by (simp add: called_logout_def split: mounted.split)
next
  case (2 s x)
  then show ?thesis
    by (cases "(e, m)" rule: page_fails.cases)
      (auto simp: called_logout_def fleet_logouts_step simp del: fleet_page_step.simps
        split: fleet_page_event.splits fleet_dialog_event.splits)
next
  case (3 s x)
  then show ?thesis
    by (cases "(e, m)" rule: page_fails.cases)
      (auto simp: called_logout_def process_logouts_step simp del: process_step.simps split: process_event.splits if_splits)
qed (simp_all add: called_logout_def)

lemma authed_hash: "fr_authed (frame_step fr (Hash h)) = fr_authed fr"
  by (simp add: go_hash_def)

lemma open_process_authed: "fr_authed (ap_frame (open_process k a)) = fr_authed (ap_frame a)"
  by (simp add: open_process_def app_frame_def authed_hash del: frame_step.simps split: sum.split)

lemma page_did_authed:
  "fr_authed (ap_frame (page_did m m' a)) =
     (if called_logout m m' then fr_authed (frame_step (ap_frame a) SignOut) else fr_authed (ap_frame a))"
  by (simp add: page_did_def app_frame_def open_process_authed del: frame_step.simps split: option.split)

fun ends_session :: "frame_event \<Rightarrow> bool" where
  "ends_session SignOut = True"
| "ends_session (SessionAnswered (Response r)) = (status r \<noteq> 200)"
| "ends_session _ = False"

lemma frame_signs_out:
  assumes "fr_authed fr = Some True"
  shows "fr_authed (frame_step fr e) = Some False \<Longrightarrow> ends_session e" "fr_authed (frame_step fr SignOut) = Some False"
proof -
  have shell: "\<exists>ctx r. App fr = Shell ctx r" using assms App_shell by blast
  show "fr_authed (frame_step fr SignOut) = Some False" using shell by (auto simp: sign_out_def)
  show "ends_session e" if "fr_authed (frame_step fr e) = Some False"
  proof (cases e)
    case (SessionAnswered f)
    then show ?thesis
      using that assms by (cases f) (auto simp: session_answered_def getSession_res_def map_result_def split: if_splits sum.splits)
  qed (use that assms shell in \<open>auto simp: set_pass_def submit_def go_hash_def render_failed_def App_login\<close>)
qed

section \<open>Properties\<close>

text \<open>C2. One page at a time, the right one: after any interleaving of hash changes, clicks, timers and
  answers, the page mounted is the one the route names, the process page with the agent and
  process of the route, its effects poll and its file browser, dialogs and buttons are those its
  state asks for; no page is mounted before a session is confirmed,
  behind the fallback or after signing out; and every page left has stopped all its effects, so
  an answer it still gets changes neither the frame nor the page shown.\<close>

theorem app_shows_route:
  fixes es :: "app_event list"
  assumes "boot hash cookie = Inr fr"
  defines "a \<equiv> foldl app_step (app_mount fr) es"
  shows "(case App (ap_frame a) of
      Shell ctx (Some r) \<Rightarrow> (case ap_page a of None \<Rightarrow> False | Some m \<Rightarrow> page_of r m \<and> page_live m)
    | _ \<Rightarrow> ap_page a = None) \<and>
    list_all page_idle (ap_left a) \<and>
    ap_frame (app_step a (AppLate k e)) = ap_frame a \<and> ap_page (app_step a (AppLate k e)) = ap_page a"
proof -
  have ok: "app_ok a" unfolding a_def by (rule app_run_ok) (rule app_mount_ok [OF assms(1)])
  from late_step [OF ok, of k e]
  have "ap_frame (app_step a (AppLate k e)) = ap_frame a \<and> ap_page (app_step a (AppLate k e)) = ap_page a"
    by auto
  then show ?thesis using ok by (simp add: app_ok_def)
qed

definition errors_frame :: "jstr option \<Rightarrow> frame" where
  "errors_frame cookie =
     \<lparr>fr_authed = None, fr_router = \<lparr>location_hash = js ''#/errors'', current = RErrors\<rparr>, fr_login = login_mount,
      fr_boundary = False, fr_cookie = cookie\<rparr>"

lemma errors_boot: "boot (js ''#/errors'') cookie = Inr (errors_frame cookie)"
  by (simp add: boot_def map_result_def use_route_init_def parseHash_def errors_frame_def)

definition signed_in :: "app_event list" where
  "signed_in = [AppFrame (SessionAnswered (session_endpoint (Some (js ''admin''))))]"

lemma errors_signed_in:
  "ap_frame (foldl app_step (app_mount (errors_frame cookie)) signed_in) = (errors_frame cookie)\<lparr>fr_authed := Some True\<rparr>"
  by (simp add: signed_in_def app_mount_def app_frame_def session_answered_def session_endpoint_def getSession_res_def
      map_result_def errors_frame_def)

theorem app_shows_route_witness:
  "let a = foldl app_step (app_mount (errors_frame None)) signed_in
   in App (ap_frame a) = Shell (js ''Errors'') (Some RErrors) \<and> ap_page a \<noteq> None \<and> list_all page_idle (ap_left a)"
proof -
  let ?a = "foldl app_step (app_mount (errors_frame None)) signed_in"
  have app: "App (ap_frame ?a) = Shell (js ''Errors'') (Some RErrors)"
    unfolding errors_signed_in by (simp add: errors_frame_def App_def shell_ctx_def render_boundary_def)
  have "case App (ap_frame ?a) of
        Shell ctx (Some r) \<Rightarrow> (case ap_page ?a of None \<Rightarrow> False | Some m \<Rightarrow> page_of r m \<and> page_live m)
      | _ \<Rightarrow> ap_page ?a = None" "list_all page_idle (ap_left ?a)"
    using app_shows_route [OF errors_boot, of None signed_in 0 "EvCreds Create"] by blast+
  with app show ?thesis unfolding Let_def by (simp split: option.splits)
qed

text \<open>C16. When the application signs out: while the shell is shown the login form replaces it exactly
  after a click on sign out, or when a request of the live run of the fleet or process page
  gets no usable answer, be it a dropped connection or a proxy's error page and not only a 401;
  no other event and no late answer does. The session cookie is kept in any case, so the user
  is still signed in on the server.\<close>

theorem app_signs_out:
  fixes es :: "app_event list"
  assumes "boot hash cookie = Inr fr" "\<forall>f. e \<noteq> AppFrame (SessionAnswered f)"
  defines "a \<equiv> foldl app_step (app_mount fr) es"
  assumes "App (ap_frame a) = Shell ctx r"
  shows "(App (ap_frame (app_step a e)) = LoginPage \<longleftrightarrow>
      e = AppFrame SignOut \<or> (\<exists>m x. ap_page a = Some m \<and> e = AppPage x \<and> page_fails x m)) \<and>
    fr_cookie (ap_frame (app_step a e)) = fr_cookie (ap_frame a)"
proof -
  have ok: "app_ok a" unfolding a_def by (rule app_run_ok) (rule app_mount_ok [OF assms(1)])
  have authed: "fr_authed (ap_frame a) = Some True" using assms(4) App_shell by blast
  note late = late_step [OF ok]
  have cookie: "fr_cookie (frame_step fr x) = fr_cookie fr" if "App fr = Shell ctx r" "\<forall>f. x \<noteq> SessionAnswered f" for fr x ctx r
    using that by (cases x) (auto simp: sign_out_def go_hash_def render_failed_def)
  have opens: "fr_cookie (ap_frame (open_process k b)) = fr_cookie (ap_frame b)" for k b
    by (simp add: open_process_def app_frame_def go_hash_def split: sum.split)
  have did: "fr_cookie (ap_frame (page_did m m' b)) = fr_cookie (ap_frame b)" if "ap_frame b = ap_frame a" for m m' b
    using cookie [OF assms(4), of SignOut] that by (simp add: page_did_def app_frame_def opens split: option.split)
  show ?thesis
  proof (cases e)
    case (AppFrame x)
    have "ends_session x \<Longrightarrow> x = SignOut" using AppFrame assms(2) by (cases x rule: ends_session.cases) auto
    then have "fr_authed (frame_step (ap_frame a) x) = Some False \<longleftrightarrow> x = SignOut"
      using frame_signs_out(1) [OF authed, of x] frame_signs_out(2) [OF authed] by blast
    then show ?thesis using AppFrame cookie [OF assms(4), of x] assms(2) by (auto simp: app_frame_def App_login)
  next
    case (AppPage x)
    show ?thesis
    proof (cases "ap_page a")
      case (Some m)
      have "App (ap_frame (app_step a e)) = LoginPage \<longleftrightarrow> page_fails x m"
        using AppPage Some authed frame_signs_out(2) [OF authed] by (simp add: App_login page_did_authed called_logout_fails)
      then show ?thesis using AppPage Some did by auto
    qed (use AppPage authed in \<open>simp add: App_login\<close>)
  next
    case (AppLate k x)
    then show ?thesis using late [of k x] authed by (auto simp: App_login)
  next
    case (AppErrorsRow i)
    then show ?thesis
      using authed opens open_process_authed by (simp add: App_login errors_row_click_def split: option.split mounted.split)
  qed (use authed in \<open>simp_all add: App_login\<close>)
qed

theorem app_signs_out_witness:
  "let a = foldl app_step (app_mount (errors_frame (Some (js ''admin'')))) signed_in;
       b = app_step a (AppFrame SignOut)
   in App (ap_frame b) = LoginPage \<and> fr_cookie (ap_frame b) = Some (js ''admin'')"
proof -
  let ?a = "foldl app_step (app_mount (errors_frame (Some (js ''admin'')))) signed_in"
  have "App (ap_frame ?a) = Shell (js ''Errors'') (Some RErrors)" "fr_cookie (ap_frame ?a) = Some (js ''admin'')"
    unfolding errors_signed_in by (simp_all add: errors_frame_def App_def shell_ctx_def render_boundary_def)
  then show ?thesis
    using app_signs_out [where e = "AppFrame SignOut" and es = signed_in, OF errors_boot] unfolding Let_def by simp
qed

end
