(* ===== verification/ErrorStore.thy ===== *)
theory ErrorStore imports Api LogStore Logs Uri "HOL-Library.Multiset" "HOL-Library.Product_Lexorder" "HOL-Library.List_Lexorder" begin

text \<open>
  The server side of the errors page: the query of the error lines of an agent
  (internal/logstore/store.go, internal/server/logstores.go), the classification and the
  aggregation into signatures (internal/errsig), the acknowledgements (internal/ackstore) and
  the two handlers (internal/dashboard/errors.go). Lower-casing, the signature of a text (a hash of its normal
  form) and the source location found in a trace are parameters. Times are not negative, so that Go's
  integer division rounds down as \<open>div\<close> does.
\<close>

section \<open>The query\<close>

text \<open>
  Texts are ordered as their bytes are, which is the order of their code points; rows that agree in label and
  time come in the order of their numbers.
\<close>

definition text_key :: "jstr \<Rightarrow> nat list" where
  "text_key s = nullish (code_points s) (map unat s)"

definition StderrSince :: "log_table \<Rightarrow> jstr list \<Rightarrow> int \<Rightarrow> log_table" where
  "StderrSince t labels since_ms =
     (if labels = [] then []
      else sort_key (\<lambda>l. (text_key (sl_label l), sl_ts l))
             (filter (\<lambda>l. sl_label l \<in> set labels \<and> sl_stderr l \<and> since_ms \<le> sl_ts l) t))"

definition stores_stderr_since :: "log_stores \<Rightarrow> jstr \<Rightarrow> int \<Rightarrow> log_table" where
  "stores_stderr_since stores agent since_ms =
     (case map_of stores agent of None \<Rightarrow> [] | Some t \<Rightarrow> StderrSince t (Labels t) since_ms)"

section \<open>Which lines are errors\<close>

definition infoWarnMarkers :: "jstr list" where
  "infoWarnMarkers =
     [js ''level=info'', js ''level=debug'', js ''level=trace'', js ''level=warn'', js ''level=warning'',
      js ''[info]'', js ''[debug]'', js ''[trace]'', js ''[warn]'', js ''[warning]'', js ''[notice]'']"

definition errorMarkers :: "jstr list" where
  "errorMarkers =
     [js ''error'', js ''fatal'', js ''panic'', js ''exception'', js ''traceback (most recent call last)'', js ''level=error'']"

text \<open>\<open>^\s*\[?(?:debug|info|notice|trace|warn|warning)\b\<close>, with the white space of Go's expressions.\<close>

definition go_space :: "16 word \<Rightarrow> bool" where
  "go_space c \<longleftrightarrow> c \<in> {0x09, 0x0A, 0x0C, 0x0D, 0x20}"

definition reLevelPrefix :: "jstr \<Rightarrow> bool" where
  "reLevelPrefix l =
     (let r = dropWhile go_space l; s = (case r of c # u \<Rightarrow> if c = 0x5B then u else r | [] \<Rightarrow> [])
      in list_ex (\<lambda>w. startsWith s w \<and> boundary s (length w))
           [js ''debug'', js ''info'', js ''notice'', js ''trace'', js ''warn'', js ''warning''])"

definition IsError :: "(jstr \<Rightarrow> jstr) \<Rightarrow> jstr \<Rightarrow> bool" where
  "IsError lower text =
     (let l = lower text
      in if list_ex (str_includes l) errorMarkers then True
         else if list_ex (str_includes l) infoWarnMarkers then False
         else \<not> reLevelPrefix l)"

definition isTraceHeader :: "(jstr \<Rightarrow> jstr) \<Rightarrow> jstr \<Rightarrow> bool" where
  "isTraceHeader lower text =
     (let l = lower text
      in startsWith l (js ''panic:'') \<or> startsWith l (js ''goroutine '') \<or> startsWith l (js ''fatal error:'') \<or>
         str_includes l (js ''traceback (most recent call last)'') \<or> str_includes l (js ''exception''))"

section \<open>Aggregation\<close>

record err_line =
  el_ts :: int
  el_label :: jstr
  el_text :: jstr
  el_agent :: jstr

record err_sig =
  sg_id :: jstr
  sg_sample :: jstr
  sg_source :: jstr
  sg_agent :: jstr
  sg_proc :: jstr
  sg_affected :: "jstr list"
  sg_count :: nat
  sg_first :: int
  sg_last :: int
  sg_buckets :: "nat list"

record agg =
  ag_errors :: nat
  ag_last :: int
  ag_procs :: "jstr list"
  ag_sigs :: "err_sig list"

text \<open>The parameters of the aggregation, fixed for one call.\<close>

record agg_env =
  ae_lower :: "jstr \<Rightarrow> jstr"
  ae_signature :: "jstr \<Rightarrow> jstr"
  ae_source :: "jstr list \<Rightarrow> jstr"

definition insert_text :: "jstr \<Rightarrow> jstr list \<Rightarrow> jstr list" where
  "insert_text p ps = (if p \<in> set ps then ps else ps @ [p])"

text \<open>The lines a new signature looks at for its source: up to five of the same process after a trace header.\<close>

definition trace_window :: "agg_env \<Rightarrow> err_line \<Rightarrow> err_line list \<Rightarrow> jstr list" where
  "trace_window v e rest =
     el_text e # (if isTraceHeader (ae_lower v) (el_text e)
       then map el_text (take 5 (takeWhile (\<lambda>l. el_label l = el_label e \<and> el_agent l = el_agent e) rest)) else [])"

definition new_sig :: "agg_env \<Rightarrow> nat \<Rightarrow> err_line \<Rightarrow> err_line list \<Rightarrow> err_sig" where
  "new_sig v n e rest =
     \<lparr>sg_id = ae_signature v (el_text e), sg_sample = el_text e, sg_source = ae_source v (trace_window v e rest),
      sg_agent = [], sg_proc = [], sg_affected = [], sg_count = 0, sg_first = el_ts e div 1000, sg_last = 0,
      sg_buckets = replicate n 0\<rparr>"

definition bucket_index :: "int \<Rightarrow> int \<Rightarrow> nat \<Rightarrow> int \<Rightarrow> nat" where
  "bucket_index since_ms width n ts =
     (let b = (ts - since_ms) * int n div width in if b < 0 then 0 else if int n \<le> b then n - 1 else nat b)"

definition count_line :: "int \<Rightarrow> int \<Rightarrow> nat \<Rightarrow> err_line \<Rightarrow> err_sig \<Rightarrow> err_sig" where
  "count_line since_ms width n e s =
     s\<lparr>sg_count := sg_count s + 1, sg_last := el_ts e div 1000, sg_agent := el_agent e, sg_proc := el_label e,
       sg_affected := insert_text (el_label e) (sg_affected s),
       sg_buckets := (let b = bucket_index since_ms width n (el_ts e) in (sg_buckets s)[b := sg_buckets s ! b + 1])\<rparr>"

text \<open>The map from ids to signatures with the order of their first lines, as one list.\<close>

definition is_counted :: "agg_env \<Rightarrow> int \<Rightarrow> err_line \<Rightarrow> bool" where
  "is_counted v since_ms e \<longleftrightarrow> \<not> (el_ts e < since_ms \<or> \<not> IsError (ae_lower v) (el_text e))"

definition agg_line :: "agg_env \<Rightarrow> int \<Rightarrow> int \<Rightarrow> nat \<Rightarrow> err_line \<Rightarrow> err_line list \<Rightarrow> agg \<Rightarrow> agg" where
  "agg_line v since_ms width n e rest a =
     (let k = ae_signature v (el_text e);
          sigs = (if k \<in> sg_id ` set (ag_sigs a) then ag_sigs a else ag_sigs a @ [new_sig v n e rest])
      in \<lparr>ag_errors = ag_errors a + 1, ag_last = max (ag_last a) (el_ts e div 1000),
          ag_procs = insert_text (el_label e) (ag_procs a),
          ag_sigs = map (\<lambda>s. if sg_id s = k then count_line since_ms width n e s else s) sigs\<rparr>)"

fun agg_lines :: "agg_env \<Rightarrow> int \<Rightarrow> int \<Rightarrow> nat \<Rightarrow> err_line list \<Rightarrow> agg \<Rightarrow> agg" where
  "agg_lines v since_ms width n [] a = a"
| "agg_lines v since_ms width n (e # rest) a =
     agg_lines v since_ms width n rest (if is_counted v since_ms e then agg_line v since_ms width n e rest a else a)"

record agg_result =
  ar_errors :: nat
  ar_procs :: nat
  ar_last :: int
  ar_sigs :: "err_sig list"

definition Aggregate :: "agg_env \<Rightarrow> err_line list \<Rightarrow> int \<Rightarrow> int \<Rightarrow> nat \<Rightarrow> agg_result" where
  "Aggregate v lines since_ms now_ms buckets =
     (let n = (if buckets < 1 then 1 else buckets);
          width = (if now_ms - since_ms \<le> 0 then 1 else now_ms - since_ms);
          a = agg_lines v since_ms width n lines \<lparr>ag_errors = 0, ag_last = 0, ag_procs = [], ag_sigs = []\<rparr>;
          sigs = map (\<lambda>s. s\<lparr>sg_affected := sort_key text_key (sg_affected s)\<rparr>) (ag_sigs a)
      in \<lparr>ar_errors = ag_errors a, ar_procs = length (ag_procs a), ar_last = ag_last a,
          ar_sigs = sort_key (\<lambda>s. (- int (sg_count s), - sg_last s)) sigs\<rparr>)"

section \<open>Acknowledgements\<close>

type_synonym ack_store = "jstr \<rightharpoonup> int"

definition Ack :: "jstr \<Rightarrow> int \<Rightarrow> ack_store \<Rightarrow> ack_store" where
  "Ack k at_ms acks = acks(k \<mapsto> at_ms)"

definition Unack :: "jstr \<Rightarrow> ack_store \<Rightarrow> ack_store" where
  "Unack k acks = acks(k := None)"

definition prune_acks :: "int \<Rightarrow> ack_store \<Rightarrow> ack_store" where
  "prune_acks before_ms acks =
     (\<lambda>k. case acks k of None \<Rightarrow> None | Some at_ms \<Rightarrow> if at_ms < before_ms then None else Some at_ms)"

definition acknowledged :: "int option \<Rightarrow> int \<Rightarrow> bool" where
  "acknowledged acked last_unix = (case acked of None \<Rightarrow> False | Some at_ms \<Rightarrow> last_unix * 1000 \<le> at_ms)"

section \<open>The handlers\<close>

definition errSparkBuckets :: nat where "errSparkBuckets = 24"

definition errMaxScan :: nat where "errMaxScan = 200000"

definition dayMs :: int where "dayMs = 24 * 60 * 60 * 1000"

definition rangeMs :: "jstr \<Rightarrow> jstr \<times> int" where
  "rangeMs tok =
     (if tok = js ''7d'' then (js ''7d'', 7 * dayMs)
      else if tok = js ''all'' then (js ''all'', 7 * dayMs)
      else (js ''24h'', dayMs))"

definition agent_lines :: "log_stores \<Rightarrow> int \<Rightarrow> jstr \<Rightarrow> err_line list" where
  "agent_lines stores since_ms agent =
     map (\<lambda>l. \<lparr>el_ts = sl_ts l, el_label = sl_label l, el_text = sl_text l, el_agent = agent\<rparr>)
       (stores_stderr_since stores agent since_ms)"

definition sig_view :: "ack_store option \<Rightarrow> err_sig \<Rightarrow> err_signature" where
  "sig_view acks s =
     \<lparr>es_id = sg_id s, es_sample = sg_sample s, es_source = (if sg_source s = [] then None else Some (sg_source s)),
      es_agent = sg_agent s, es_proc = sg_proc s, es_affected = sg_affected s, es_count = int (sg_count s),
      es_first_unix = sg_first s, es_last_unix = sg_last s, es_buckets = map int (sg_buckets s),
      es_acknowledged = acknowledged (Option.bind acks (\<lambda>m. m (sg_id s))) (sg_last s)\<rparr>"

text \<open>The agents of the fleet are those of the registry; the store of an unknown one gives no rows.\<close>

definition errors_handler ::
  "agg_env \<Rightarrow> log_stores \<Rightarrow> jstr list \<Rightarrow> ack_store option \<Rightarrow> int \<Rightarrow> jstr \<Rightarrow> jstr \<Rightarrow> errors_response fetched" where
  "errors_handler v stores fleet acks now_ms tok agent =
     (let (rng, window) = rangeMs tok; since_ms = now_ms - window;
          agents = (if agent \<noteq> [] then [agent] else fleet);
          all = concat (map (agent_lines stores since_ms) agents);
          res = Aggregate v (take errMaxScan all) since_ms now_ms errSparkBuckets;
          sigs = map (sig_view acks) (ar_sigs res)
      in Response (answered
           \<lparr>er_range = rng, er_since = since_ms, er_now = now_ms,
            er_cluster = \<lparr>ec_errors = int (ar_errors res), ec_signatures = int (length (ar_sigs res)),
              ec_unacknowledged = int (length (filter (\<lambda>s. \<not> es_acknowledged s) sigs)),
              ec_affected_procs = int (ar_procs res), ec_last_error_unix = ar_last res\<rparr>,
            er_signatures = sigs, er_truncated = (errMaxScan \<le> length all)\<rparr>))"

definition ack_handler :: "int \<Rightarrow> jstr \<Rightarrow> bool \<Rightarrow> ack_store option \<Rightarrow> ack_store option \<times> unit fetched" where
  "ack_handler now_ms k ack acks =
     (case acks of
        None \<Rightarrow> (None, Response (empty_response 503))
      | Some m \<Rightarrow>
          if k = [] then (acks, Response (empty_response 400))
          else (Some (if ack then Ack k now_ms m else Unack k m), Response (empty_response 200)))"

section \<open>What a signature counts\<close>

text \<open>The lines of a signature, and what it holds after them.\<close>

definition sig_lines :: "agg_env \<Rightarrow> jstr \<Rightarrow> err_line list \<Rightarrow> err_line list" where
  "sig_lines v k ls = filter (\<lambda>l. ae_signature v (el_text l) = k) ls"

definition sig_ok :: "nat \<Rightarrow> err_line list \<Rightarrow> err_sig \<Rightarrow> bool" where
  "sig_ok n m s \<longleftrightarrow>
     sg_count s = length m \<and> sum_list (sg_buckets s) = length m \<and> length (sg_buckets s) = n \<and>
     set (sg_affected s) = el_label ` set m \<and> distinct (sg_affected s) \<and>
     (m \<noteq> [] \<longrightarrow> sg_first s = el_ts (hd m) div 1000 \<and> sg_sample s = el_text (hd m) \<and>
        sg_last s = el_ts (last m) div 1000 \<and> sg_proc s = el_label (last m) \<and> sg_agent s = el_agent (last m))"

lemma set_insert_text [simp]: "set (insert_text p ps) = insert p (set ps)"
  by (auto simp: insert_text_def)

lemma distinct_insert_text: "distinct ps \<Longrightarrow> distinct (insert_text p ps)"
  by (simp add: insert_text_def)

lemma bucket_index_less: "0 < n \<Longrightarrow> bucket_index since_ms width n ts < n"
  by (auto simp: bucket_index_def Let_def)

lemma count_line_ok:
  assumes "sig_ok n m s" "0 < n" "m = [] \<Longrightarrow> sg_first s = el_ts e div 1000 \<and> sg_sample s = el_text e"
  shows "sig_ok n (m @ [e]) (count_line since_ms width n e s)"
proof -
  let ?b = "bucket_index since_ms width n (el_ts e)"
  have b: "?b < length (sg_buckets s)" using assms(1,2) bucket_index_less by (simp add: sig_ok_def)
  then have "sg_buckets s ! ?b \<le> sum_list (sg_buckets s)" by (simp add: member_le_sum_list)
  then have "sum_list ((sg_buckets s)[?b := sg_buckets s ! ?b + 1]) = sum_list (sg_buckets s) + 1"
    using b by (simp add: sum_list_update)
  then show ?thesis
    using assms by (cases m) (auto simp: sig_ok_def count_line_def Let_def distinct_insert_text)
qed

lemma new_sig_ok: "sig_ok n [] (new_sig v n e rest)"
  by (simp add: sig_ok_def new_sig_def)

definition agg_ok :: "agg_env \<Rightarrow> nat \<Rightarrow> err_line list \<Rightarrow> agg \<Rightarrow> bool" where
  "agg_ok v n ls a \<longleftrightarrow>
     ag_errors a = length ls \<and> ag_last a = foldl (\<lambda>m l. max m (el_ts l div 1000)) 0 ls \<and>
     distinct (ag_procs a) \<and> set (ag_procs a) = el_label ` set ls \<and>
     distinct (map sg_id (ag_sigs a)) \<and> sg_id ` set (ag_sigs a) = (\<lambda>l. ae_signature v (el_text l)) ` set ls \<and>
     (\<forall>s \<in> set (ag_sigs a). sig_ok n (sig_lines v (sg_id s) ls) s)"

lemma sig_lines_snoc:
  "sig_lines v k (ls @ [e]) = (if ae_signature v (el_text e) = k then sig_lines v k ls @ [e] else sig_lines v k ls)"
  by (simp add: sig_lines_def)

lemma count_line_id [simp]: "sg_id (count_line since_ms width n e s) = sg_id s"
  by (simp add: count_line_def)

lemma agg_line_ok:
  assumes "agg_ok v n ls a" "0 < n"
  shows "agg_ok v n (ls @ [e]) (agg_line v since_ms width n e rest a)"
proof -
  let ?k = "ae_signature v (el_text e)"
  define sigs where "sigs = (if ?k \<in> sg_id ` set (ag_sigs a) then ag_sigs a else ag_sigs a @ [new_sig v n e rest])"
  have new: "sg_id (new_sig v n e rest) = ?k" by (simp add: new_sig_def)
  have ids: "distinct (map sg_id sigs)" "sg_id ` set sigs = insert ?k (sg_id ` set (ag_sigs a))"
    using assms(1) new by (auto simp: sigs_def agg_ok_def)
  define upd where "upd s = (if sg_id s = ?k then count_line since_ms width n e s else s)" for s
  have upd_id: "sg_id (upd s) = sg_id s" for s by (simp add: upd_def)
  have upd: "sig_ok n (sig_lines v (sg_id s) (ls @ [e])) (upd s)"
    if s: "s \<in> set sigs" for s
  proof (cases "s \<in> set (ag_sigs a)")
    case True
    then have ok: "sig_ok n (sig_lines v (sg_id s) ls) s" using assms(1) by (simp add: agg_ok_def)
    have "sig_lines v (sg_id s) ls \<noteq> []"
    proof -
      have "sg_id s \<in> (\<lambda>l. ae_signature v (el_text l)) ` set ls" using True assms(1) by (auto simp: agg_ok_def)
      then show ?thesis by (auto simp: sig_lines_def filter_empty_conv)
    qed
    then show ?thesis using ok count_line_ok [OF ok assms(2)] by (cases "sg_id s = ?k") (simp_all add: sig_lines_snoc upd_def)
  next
    case False
    with s have n: "?k \<notin> sg_id ` set (ag_sigs a)" "s = new_sig v n e rest" by (auto simp: sigs_def split: if_splits)
    then have "?k \<notin> (\<lambda>l. ae_signature v (el_text l)) ` set ls" using assms(1) by (simp add: agg_ok_def)
    then have "sig_lines v ?k ls = []" by (metis (mono_tags, lifting) filter_empty_conv image_eqI sig_lines_def)
    then show ?thesis
      using n new count_line_ok [OF new_sig_ok assms(2), of v e rest e since_ms width]
      by (simp add: sig_lines_snoc upd_def) (simp add: new_sig_def)
  qed
  have line: "agg_line v since_ms width n e rest a =
      \<lparr>ag_errors = ag_errors a + 1, ag_last = max (ag_last a) (el_ts e div 1000), ag_procs = insert_text (el_label e) (ag_procs a),
       ag_sigs = map upd sigs\<rparr>"
    by (simp add: agg_line_def sigs_def upd_def Let_def cong: map_cong)
  have upd_ids: "map sg_id (map upd sigs) = map sg_id sigs" "sg_id ` set (map upd sigs) = sg_id ` set sigs"
    by (simp_all add: upd_id image_image)
  have sigs_ok: "\<forall>s \<in> set (map upd sigs). sig_ok n (sig_lines v (sg_id s) (ls @ [e])) s"
    using upd by (auto simp: upd_id)
  have "ag_errors a = length ls" "ag_last a = foldl (\<lambda>m l. max m (el_ts l div 1000)) 0 ls"
    "distinct (ag_procs a)" "set (ag_procs a) = el_label ` set ls"
    "sg_id ` set (ag_sigs a) = (\<lambda>l. ae_signature v (el_text l)) ` set ls"
    using assms(1) by (simp_all add: agg_ok_def)
  then show ?thesis
    unfolding agg_ok_def line agg.simps using ids sigs_ok by (simp only: upd_ids) (simp add: distinct_insert_text)
qed

lemma agg_lines_ok:
  assumes "agg_ok v n ls a" "0 < n"
  shows "agg_ok v n (ls @ filter (is_counted v since_ms) es) (agg_lines v since_ms width n es a)"
  using assms(1)
proof (induction es arbitrary: a ls)
  case (Cons e es)
  show ?case
  proof (cases "is_counted v since_ms e")
    case True
    then show ?thesis using Cons.IH [OF agg_line_ok [OF Cons.prems assms(2)]] by simp
  next
    case False
    then show ?thesis using Cons.IH [OF Cons.prems] by simp
  qed
qed simp

lemma length_partition: "distinct ks \<Longrightarrow> f ` set xs \<subseteq> set ks \<Longrightarrow> (\<Sum>k\<leftarrow>ks. length (filter (\<lambda>x. f x = k) xs)) = length xs"
proof (induction xs)
  case (Cons x xs)
  have "(\<Sum>k\<leftarrow>ks. length (filter (\<lambda>y. f y = k) (x # xs))) =
      (\<Sum>k\<leftarrow>ks. (if f x = k then 1 else 0) + length (filter (\<lambda>y. f y = k) xs))"
    by (rule arg_cong [where f = sum_list]) simp
  also have "\<dots> = (\<Sum>k\<leftarrow>ks. if f x = k then 1 else 0) + (\<Sum>k\<leftarrow>ks. length (filter (\<lambda>y. f y = k) xs))"
    by (rule sum_list_addf)
  also have "(\<Sum>k\<leftarrow>ks. if f x = k then 1 else (0::nat)) = 1"
  proof -
    have "(\<Sum>k\<leftarrow>ks. if f x = k then 1 else (0::nat)) = (\<Sum>k\<in>set ks. if f x = k then 1 else 0)"
      using Cons.prems(1) by (simp add: sum_list_distinct_conv_sum_set)
    then show ?thesis using Cons.prems(2) by simp
  qed
  finally show ?case using Cons by simp
qed simp

text \<open>The result of the aggregation over the error lines of the window.\<close>

lemma aggregate_sigs:
  fixes v :: agg_env and ls :: "err_line list" and since_ms now_ms :: int and buckets :: nat
  defines "r \<equiv> Aggregate v ls since_ms now_ms buckets" and "errs \<equiv> filter (is_counted v since_ms) ls"
  shows "ar_errors r = length errs" "ar_procs r = card (el_label ` set errs)"
    "distinct (map sg_id (ar_sigs r))" "sg_id ` set (ar_sigs r) = (\<lambda>l. ae_signature v (el_text l)) ` set errs"
    "s \<in> set (ar_sigs r) \<Longrightarrow>
       sig_ok (if buckets < 1 then 1 else buckets) (sig_lines v (sg_id s) errs) s \<and> sig_lines v (sg_id s) errs \<noteq> []"
    "sorted (map (\<lambda>s. (- int (sg_count s), - sg_last s)) (ar_sigs r))"
proof -
  let ?n = "if buckets < 1 then 1 else buckets" and ?w = "if now_ms - since_ms \<le> 0 then 1 else now_ms - since_ms"
  define a where "a = agg_lines v since_ms ?w ?n ls \<lparr>ag_errors = 0, ag_last = 0, ag_procs = [], ag_sigs = []\<rparr>"
  have pos: "0 < ?n" by simp
  have "agg_ok v ?n [] \<lparr>ag_errors = 0, ag_last = 0, ag_procs = [], ag_sigs = []\<rparr>" unfolding agg_ok_def by simp
  from agg_lines_ok [OF this pos, where since_ms = since_ms and width = ?w and es = ls] have a: "agg_ok v ?n errs a"
    unfolding a_def errs_def append_Nil .
  let ?sigs = "map (\<lambda>s. s\<lparr>sg_affected := sort_key text_key (sg_affected s)\<rparr>) (ag_sigs a)"
  have r: "ar_errors r = ag_errors a" "ar_procs r = length (ag_procs a)"
    "ar_sigs r = sort_key (\<lambda>s. (- int (sg_count s), - sg_last s)) ?sigs"
    by (simp_all add: r_def Aggregate_def a_def Let_def)
  have sigs: "distinct (map sg_id ?sigs)" "sg_id ` set ?sigs = sg_id ` set (ag_sigs a)"
    using a by (simp_all add: agg_ok_def comp_def image_image)
  have perm: "mset (ar_sigs r) = mset ?sigs" unfolding r(3) by (rule mset_sort)
  then have "mset (map sg_id (ar_sigs r)) = mset (map sg_id ?sigs)" by (simp only: mset_map)
  then have "distinct (map sg_id (ar_sigs r)) = distinct (map sg_id ?sigs)" by (rule mset_eq_imp_distinct_iff)
  with sigs(1) show ids: "distinct (map sg_id (ar_sigs r))" by blast
  have served: "set (ar_sigs r) = set ?sigs" using mset_eq_setD [OF perm] .
  show "ar_errors r = length errs" "ar_procs r = card (el_label ` set errs)"
    using a r by (simp_all add: agg_ok_def flip: distinct_card)
  show "sg_id ` set (ar_sigs r) = (\<lambda>l. ae_signature v (el_text l)) ` set errs"
    unfolding served sigs(2) using a by (simp add: agg_ok_def)
  show "sorted (map (\<lambda>s. (- int (sg_count s), - sg_last s)) (ar_sigs r))" by (simp add: r)
  assume "s \<in> set (ar_sigs r)"
  then have "s \<in> (\<lambda>s. s\<lparr>sg_affected := sort_key text_key (sg_affected s)\<rparr>) ` set (ag_sigs a)"
    unfolding served set_map .
  then obtain u where u: "s = u\<lparr>sg_affected := sort_key text_key (sg_affected u)\<rparr>" "u \<in> set (ag_sigs a)" by (rule imageE)
  have "sg_id u \<in> sg_id ` set (ag_sigs a)" using u(2) by (rule imageI)
  then have "sg_id u \<in> (\<lambda>l. ae_signature v (el_text l)) ` set errs" using a unfolding agg_ok_def by (simp only:)
  then have "sig_lines v (sg_id u) errs \<noteq> []" by (auto simp: sig_lines_def filter_empty_conv)
  moreover have "sig_ok ?n (sig_lines v (sg_id u) errs) u" using a u(2) unfolding agg_ok_def by blast
  ultimately show "sig_ok ?n (sig_lines v (sg_id s) errs) s \<and> sig_lines v (sg_id s) errs \<noteq> []"
    unfolding u(1) sig_ok_def by simp
qed

section \<open>What the endpoint serves\<close>

text \<open>The error lines of the window, in the order of the query, after the limit on the scan.\<close>

definition window_errors :: "agg_env \<Rightarrow> log_stores \<Rightarrow> jstr list \<Rightarrow> int \<Rightarrow> err_line list" where
  "window_errors v stores agents since_ms =
     filter (is_counted v since_ms) (take errMaxScan (concat (map (agent_lines stores since_ms) agents)))"

lemma errors_served:
  fixes v :: agg_env and stores :: log_stores and fleet :: "jstr list" and now_ms :: int and tok agent :: jstr
  assumes "reply (errors_handler v stores fleet acks now_ms tok agent) getErrors_res = Inr d" "g \<in> set (er_signatures d)"
  defines "m \<equiv> sig_lines v (es_id g) (window_errors v stores (if agent \<noteq> [] then [agent] else fleet) (now_ms - snd (rangeMs tok)))"
  shows "m \<noteq> []" "es_last_unix g = el_ts (last m) div 1000" "es_proc g = el_label (last m)" "es_agent g = el_agent (last m)"
    "es_count g = int (length m)"
    "es_acknowledged g = acknowledged (Option.bind acks (\<lambda>f. f (es_id g))) (el_ts (last m) div 1000)"
proof -
  let ?since = "now_ms - snd (rangeMs tok)" and ?agents = "if agent \<noteq> [] then [agent] else fleet"
  let ?lines = "take errMaxScan (concat (map (agent_lines stores ?since) ?agents))"
  have "er_signatures d = map (sig_view acks) (ar_sigs (Aggregate v ?lines ?since now_ms errSparkBuckets))"
    using assms(1) by (auto simp: errors_handler_def Let_def answered_def getErrors_res_def json_or_status_def resp_ok_def
        split: prod.splits)
  with assms(2) obtain s where s: "s \<in> set (ar_sigs (Aggregate v ?lines ?since now_ms errSparkBuckets))" "g = sig_view acks s"
    by auto
  have g: "es_id g = sg_id s" "es_last_unix g = sg_last s" "es_proc g = sg_proc s" "es_agent g = sg_agent s"
    "es_count g = int (sg_count s)" "es_acknowledged g = acknowledged (Option.bind acks (\<lambda>f. f (es_id g))) (sg_last s)"
    by (simp_all add: s(2) sig_view_def)
  show "m \<noteq> []" "es_last_unix g = el_ts (last m) div 1000" "es_proc g = el_label (last m)" "es_agent g = el_agent (last m)"
    "es_count g = int (length m)"
    "es_acknowledged g = acknowledged (Option.bind acks (\<lambda>f. f (es_id g))) (el_ts (last m) div 1000)"
    using aggregate_sigs(5) [OF s(1)] by (simp_all add: m_def window_errors_def sig_ok_def g)
qed

lemma errors_served_all:
  fixes v :: agg_env and stores :: log_stores and fleet :: "jstr list" and now_ms :: int and tok agent :: jstr
  assumes "reply (errors_handler v stores fleet acks now_ms tok agent) getErrors_res = Inr d"
  shows "es_id ` set (er_signatures d) = (\<lambda>l. ae_signature v (el_text l)) `
      set (window_errors v stores (if agent \<noteq> [] then [agent] else fleet) (now_ms - snd (rangeMs tok)))"
    "ec_unacknowledged (er_cluster d) = int (length (filter (\<lambda>g. \<not> es_acknowledged g) (er_signatures d)))"
    "er_range d = fst (rangeMs tok)"
proof -
  let ?since = "now_ms - snd (rangeMs tok)" and ?agents = "if agent \<noteq> [] then [agent] else fleet"
  let ?r = "Aggregate v (take errMaxScan (concat (map (agent_lines stores ?since) ?agents))) ?since now_ms errSparkBuckets"
  have d: "er_signatures d = map (sig_view acks) (ar_sigs ?r)"
    "ec_unacknowledged (er_cluster d) = int (length (filter (\<lambda>g. \<not> es_acknowledged g) (er_signatures d)))"
    "er_range d = fst (rangeMs tok)"
    using assms by (auto simp: errors_handler_def Let_def answered_def getErrors_res_def json_or_status_def resp_ok_def
        split: prod.splits)
  show "es_id ` set (er_signatures d) = (\<lambda>l. ae_signature v (el_text l)) ` set (window_errors v stores ?agents ?since)"
    using aggregate_sigs(4) unfolding d(1) window_errors_def by (simp add: image_image sig_view_def)
  show "ec_unacknowledged (er_cluster d) = int (length (filter (\<lambda>g. \<not> es_acknowledged g) (er_signatures d)))"
    "er_range d = fst (rangeMs tok)" using d(2,3) .
qed

lemma errors_handler_ok: "\<exists>d. reply (errors_handler v stores fleet acks now_ms tok agent) getErrors_res = Inr d"
  by (simp add: errors_handler_def Let_def answered_def getErrors_res_def json_or_status_def resp_ok_def split: prod.split)

lemma agent_lines_label:
  "l \<in> set (agent_lines stores since_ms x) \<Longrightarrow> \<exists>t. map_of stores (el_agent l) = Some t \<and> el_label l \<in> sl_label ` set t"
  by (cases "map_of stores x") (auto simp: agent_lines_def stores_stderr_since_def StderrSince_def split: if_splits)

text \<open>The process named by a signature is a label of the log, an app with the number of its instance.\<close>

lemma served_label:
  fixes v :: agg_env and stores :: log_stores and fleet :: "jstr list" and now_ms :: int and tok agent :: jstr
  assumes "reply (errors_handler v stores fleet acks now_ms tok agent) getErrors_res = Inr d" "g \<in> set (er_signatures d)"
  shows "\<exists>t. map_of stores (es_agent g) = Some t \<and> es_proc g \<in> sl_label ` set t"
proof -
  let ?since = "now_ms - snd (rangeMs tok)" and ?agents = "if agent \<noteq> [] then [agent] else fleet"
  let ?m = "sig_lines v (es_id g) (window_errors v stores ?agents ?since)"
  have "last ?m \<in> set ?m" using errors_served(1) [OF assms] by (meson last_in_set)
  then obtain x where "last ?m \<in> set (agent_lines stores ?since x)"
    by (auto simp: sig_lines_def window_errors_def dest!: in_set_takeD)
  then have "\<exists>t. map_of stores (el_agent (last ?m)) = Some t \<and> el_label (last ?m) \<in> sl_label ` set t"
    by (rule agent_lines_label)
  then show ?thesis using errors_served(3,4) [OF assms] by simp
qed

text \<open>
  An acknowledged signature comes back with the next error, says the documentation of the store.
  The time compared is that of the line the query returns last, the newest one of the last
  label, and not of the newest line: with two processes an error after the acknowledgement
  stays silent when the process comes first in the order of the labels.
\<close>

lemma recurrence_hidden:
  fixes v :: agg_env and msg a :: jstr
  assumes "IsError (ae_lower v) msg" "ack_ms < 5000" "1000 \<le> ack_ms"
  defines "lines \<equiv> [\<lparr>el_ts = 5000, el_label = js ''api#0'', el_text = msg, el_agent = a\<rparr>,
    \<lparr>el_ts = 1000, el_label = js ''web#0'', el_text = msg, el_agent = a\<rparr>]"
  shows "let r = Aggregate v lines 0 9000 24
    in ar_last r * 1000 > ack_ms \<and> (\<exists>s. ar_sigs r = [s] \<and> sg_count s = 2 \<and> acknowledged (Some ack_ms) (sg_last s))"
  using assms(1-3)
  by (simp add: lines_def Aggregate_def agg_line_def is_counted_def new_sig_def count_line_def acknowledged_def
      insert_text_def Let_def)

section \<open>Properties\<close>


end
