(* ===== verification/MetricStore.thy ===== *)
theory MetricStore imports LogStore Charts "HOL-Library.Multiset" begin

text \<open>
  The server side of the charts: the table of samples of internal/metricstore/store.go with its
  bucketed query and the merging of instances, the history of an app in internal/server/stores.go
  and the metrics handler of internal/dashboard/metrics.go. A table is the list of its rows;
  averages are exact rationals.
\<close>

section \<open>The table\<close>

record sample =
  sm_ts :: int
  sm_label :: jstr
  sm_cpu :: rat
  sm_mem :: int

type_synonym metric_table = "sample list"

definition append_samples :: "metric_table \<Rightarrow> int \<Rightarrow> (jstr \<times> rat \<times> int) list \<Rightarrow> metric_table" where
  "append_samples t ts ss =
     t @ map (\<lambda>(l, c, m). \<lparr>sm_ts = ts, sm_label = l, sm_cpu = c, sm_mem = m\<rparr>) ss"

definition prune_samples :: "metric_table \<Rightarrow> int \<Rightarrow> metric_table" where
  "prune_samples t beforeMs = filter (\<lambda>r. \<not> sm_ts r < beforeMs) t"

definition SamplesSince :: "metric_table \<Rightarrow> int \<Rightarrow> sample list" where
  "SamplesSince t tsMs = sort_key sm_ts (filter (\<lambda>r. tsMs < sm_ts r) t)"

definition MaxTs :: "metric_table \<Rightarrow> int" where
  "MaxTs t = (if t = [] then 0 else Max (set (map sm_ts t)))"

text \<open>The labels in some order; what is merged from them does not depend on it.\<close>

definition sample_labels :: "metric_table \<Rightarrow> jstr list" where
  "sample_labels t = remdups (map sm_label t)"

section \<open>The bucketed query\<close>

text \<open>SQL's integer division cuts towards zero.\<close>

definition bucket_start :: "int \<Rightarrow> int \<Rightarrow> int" where
  "bucket_start w ts = (if ts < 0 then - (- ts div w) else ts div w) * w"

definition avg :: "rat list \<Rightarrow> rat" where
  "avg xs = sum_list xs / of_nat (length xs)"

text \<open>One row of the aggregate: of the samples of a bucket, which are never none.\<close>

definition aggregate_row :: "int \<Rightarrow> sample list \<Rightarrow> bucket" where
  "aggregate_row b rows =
     \<lparr>b_ts = b, cpu_avg = avg (map sm_cpu rows), cpu_max = Max (set (map sm_cpu rows)),
      mem_avg = of_int \<lfloor>avg (map (\<lambda>r. of_int (sm_mem r)) rows) + 1 / 2\<rfloor>,
      mem_max = of_int (Max (set (map sm_mem rows)))\<rparr>"

definition bucket_query :: "metric_table \<Rightarrow> jstr \<Rightarrow> int \<Rightarrow> int \<Rightarrow> bucket list option" where
  "bucket_query t label sinceMs bucketMs =
     (if bucketMs \<le> 0 then None
      else let rows = filter (\<lambda>r. sm_label r = label \<and> sinceMs \<le> sm_ts r) t
           in Some (map (\<lambda>b. aggregate_row b (filter (\<lambda>r. bucket_start bucketMs (sm_ts r) = b) rows))
                (sort (remdups (map (\<lambda>r. bucket_start bucketMs (sm_ts r)) rows)))))"

section \<open>The history of an app\<close>

definition AutoBucketMs :: "int \<Rightarrow> int \<Rightarrow> int" where
  "AutoBucketMs sinceMs bucketMs = (if bucketMs > 0 then bucketMs else max (sinceMs div 60) 1000)"

text \<open>The buckets by their time and the order in which the times came up, as one list.\<close>

definition merge_into :: "bucket \<Rightarrow> bucket \<Rightarrow> bucket" where
  "merge_into cur b =
     cur\<lparr>cpu_avg := cpu_avg cur + cpu_avg b, mem_avg := mem_avg cur + mem_avg b,
         cpu_max := (if cpu_max b > cpu_max cur then cpu_max b else cpu_max cur),
         mem_max := (if mem_max b > mem_max cur then mem_max b else mem_max cur)\<rparr>"

fun merge_bucket :: "bucket list \<Rightarrow> bucket \<Rightarrow> bucket list" where
  "merge_bucket [] b = [b]"
| "merge_bucket (c # cs) b = (if b_ts c = b_ts b then merge_into c b # cs else c # merge_bucket cs b)"

definition MergeBuckets :: "bucket list list \<Rightarrow> bucket list" where
  "MergeBuckets series = sort_key b_ts (foldl (foldl merge_bucket) [] series)"

text \<open>
  The stores of the agents by their directory: the separators and dots of an agent's name are
  replaced.
\<close>

definition sanitizeAgent :: "jstr \<Rightarrow> jstr" where
  "sanitizeAgent name =
     (if name = [] then js ''_'' else map (\<lambda>c. if c \<in> {0x2F, 0x5C, 0x2E} then 0x5F else c) name)"

type_synonym metric_stores = "(jstr \<times> metric_table) list"

fun queries :: "metric_table \<Rightarrow> int \<Rightarrow> int \<Rightarrow> jstr list \<Rightarrow> bucket list list option" where
  "queries t sinceMs w [] = Some []"
| "queries t sinceMs w (l # ls) =
     (case bucket_query t l sinceMs w of
        None \<Rightarrow> None
      | Some bs \<Rightarrow> map_option ((#) bs) (queries t sinceMs w ls))"

definition metric_history :: "metric_stores \<Rightarrow> int \<Rightarrow> jstr \<Rightarrow> jstr \<Rightarrow> int \<Rightarrow> int \<Rightarrow> bucket list option" where
  "metric_history stores now_ms agent selector sinceMs bucketMs =
     (case map_of stores (sanitizeAgent agent) of
        None \<Rightarrow> Some []
      | Some t \<Rightarrow>
          map_option MergeBuckets (queries t (now_ms - sinceMs) (AutoBucketMs sinceMs bucketMs)
            (filter (label_match selector) (sample_labels t))))"

section \<open>The handler\<close>

text \<open>A number parameter: absent or not a number, negative, or itself.\<close>

definition parseMs :: "int option \<Rightarrow> int \<Rightarrow> int" where
  "parseMs v def = (case v of None \<Rightarrow> def | Some n \<Rightarrow> if n < 0 then def else n)"

definition defaultSparkSinceMs :: int where "defaultSparkSinceMs = 5 * 60 * 1000"
definition defaultDetailSinceMs :: int where "defaultDetailSinceMs = 60 * 60 * 1000"

fun all_some :: "'a option list \<Rightarrow> 'a list option" where
  "all_some [] = Some []"
| "all_some (x # xs) = (case x of None \<Rightarrow> None | Some y \<Rightarrow> map_option ((#) y) (all_some xs))"

definition metrics_ok :: "agent_metrics list \<Rightarrow> agent_metrics list fetched" where
  "metrics_ok ms = Response \<lparr>status = 200, json_body = Inr ms, error_field = Inr None, body_text = []\<rparr>"

definition metrics_handler ::
  "metric_stores \<Rightarrow> (jstr \<times> jstr list) list \<Rightarrow> int \<Rightarrow> jstr \<Rightarrow> jstr \<Rightarrow> int option \<Rightarrow> int option \<Rightarrow> agent_metrics list fetched" where
  "metrics_handler stores fleet now_ms agent selector since_q bucket_q =
     (if agent \<noteq> [] \<and> selector \<noteq> [] then
        case metric_history stores now_ms agent selector (parseMs since_q defaultDetailSinceMs) (parseMs bucket_q 0) of
          None \<Rightarrow> Response (empty_response 500)
        | Some bs \<Rightarrow> metrics_ok [\<lparr>am_agent = agent, am_procs = [\<lparr>pm_name = selector, pm_buckets = bs\<rparr>]\<rparr>]
      else
        case all_some (map (\<lambda>(a, ps). map_option (\<lambda>pms. \<lparr>am_agent = a, am_procs = pms\<rparr>)
               (all_some (map (\<lambda>p. map_option (\<lambda>bs. \<lparr>pm_name = p, pm_buckets = bs\<rparr>)
                  (metric_history stores now_ms a p (parseMs since_q defaultSparkSinceMs) 0)) ps))) fleet) of
          None \<Rightarrow> Response (empty_response 500)
        | Some ms \<Rightarrow> metrics_ok ms)"

section \<open>Merging is grouping\<close>

text \<open>The buckets of one time, combined: averages add up, maxima are taken over all.\<close>

definition combined :: "bucket list \<Rightarrow> int \<Rightarrow> bucket" where
  "combined bs k =
     (let sel = filter (\<lambda>b. b_ts b = k) bs
      in \<lparr>b_ts = k, cpu_avg = sum_list (map cpu_avg sel), cpu_max = Max (set (map cpu_max sel)),
          mem_avg = sum_list (map mem_avg sel), mem_max = Max (set (map mem_max sel))\<rparr>)"

lemma foldl_concat: "foldl (foldl f) a xss = foldl f a (concat xss)"
  by (induction xss arbitrary: a) simp_all

lemma merge_into_ts [simp]: "b_ts (merge_into c b) = b_ts c"
  by (simp add: merge_into_def)

lemma merge_bucket_times: "b_ts ` set (merge_bucket cs b) = insert (b_ts b) (b_ts ` set cs)"
  by (induction cs) auto

lemma merge_bucket_distinct: "distinct (map b_ts cs) \<Longrightarrow> distinct (map b_ts (merge_bucket cs b))"
proof (induction cs)
  case (Cons c cs)
  then show ?case using merge_bucket_times [of cs b] by auto
qed simp

lemma merge_bucket_mem:
  "distinct (map b_ts cs) \<Longrightarrow> x \<in> set (merge_bucket cs b) \<Longrightarrow>
   if b_ts x = b_ts b then x = b \<and> b_ts b \<notin> b_ts ` set cs \<or> (\<exists>c \<in> set cs. b_ts c = b_ts b \<and> x = merge_into c b)
   else x \<in> set cs"
proof (induction cs)
  case (Cons c cs)
  show ?case
  proof (cases "b_ts c = b_ts b")
    case True
    have "b_ts x \<noteq> b_ts b" if "x \<in> set cs" using Cons.prems(1) True that by (auto simp: image_iff)
    with True Cons.prems show ?thesis by auto
  next
    case False
    with Cons show ?thesis by (auto split: if_splits)
  qed
qed simp

lemma Max_snoc: "xs \<noteq> [] \<Longrightarrow> Max (set (map f (xs @ [b]))) = (if f b > Max (set (map f xs)) then f b else Max (set (map f xs)))"
  for f :: "'a \<Rightarrow> 'b::linorder"
proof -
  assume "xs \<noteq> []"
  then have "Max (insert (f b) (f ` set xs)) = max (f b) (Max (f ` set xs))" by (intro Max_insert) simp_all
  then show ?thesis by (simp only: set_map set_append list.set image_Un image_insert image_empty Un_insert_right Un_empty_right
      max_def not_le [symmetric] if_not_P split: if_split) auto
qed

lemma combined_snoc:
  "combined (bs @ [b]) k =
     (if k = b_ts b then if k \<in> b_ts ` set bs then merge_into (combined bs k) b else b else combined bs k)"
proof (cases "k = b_ts b")
  case True
  let ?sel = "filter (\<lambda>x. b_ts x = k) bs"
  show ?thesis
  proof (cases "k \<in> b_ts ` set bs")
    case in_bs: True
    then have "?sel \<noteq> []" by (auto simp: filter_empty_conv)
    with True in_bs show ?thesis
      using Max_snoc [of ?sel cpu_max b] Max_snoc [of ?sel mem_max b]
      by (simp add: combined_def merge_into_def Let_def)
  next
    case False
    then have "?sel = []" by (auto simp: filter_empty_conv)
    with True False show ?thesis by (simp add: combined_def Let_def)
  qed
qed (simp add: combined_def)

lemma merge_run:
  "distinct (map b_ts (foldl merge_bucket [] bs)) \<and> b_ts ` set (foldl merge_bucket [] bs) = b_ts ` set bs \<and>
   (\<forall>c \<in> set (foldl merge_bucket [] bs). c = combined bs (b_ts c))"
proof (induction bs rule: rev_induct)
  case (snoc b bs)
  let ?m = "foldl merge_bucket [] bs"
  have d: "distinct (map b_ts ?m)" and times: "b_ts ` set ?m = b_ts ` set bs"
    and old: "\<And>c. c \<in> set ?m \<Longrightarrow> combined bs (b_ts c) = c"
    using snoc by simp_all
  have "combined (bs @ [b]) (b_ts c) = c" if c: "c \<in> set (merge_bucket ?m b)" for c
  proof (cases "b_ts c = b_ts b")
    case True
    with merge_bucket_mem [OF d c] consider "c = b" "b_ts b \<notin> b_ts ` set bs"
      | a where "a \<in> set ?m" "b_ts a = b_ts b" "c = merge_into a b"
      unfolding times by auto
    then show ?thesis
    proof cases
      case 2
      then have "b_ts b \<in> b_ts ` set bs" unfolding times [symmetric] by (metis image_eqI)
      with 2 old [OF 2(1)] show ?thesis by (simp add: combined_snoc)
    qed (simp add: combined_snoc)
  next
    case False
    with merge_bucket_mem [OF d c] old [of c] show ?thesis by (simp add: combined_snoc)
  qed
  then have "\<forall>c \<in> set (merge_bucket ?m b). c = combined (bs @ [b]) (b_ts c)" by simp
  moreover have "distinct (map b_ts (merge_bucket ?m b))" by (rule merge_bucket_distinct [OF d])
  ultimately show ?case using times by (simp add: merge_bucket_times)
qed simp

lemma sort_by_key:
  assumes "distinct (map g xs)" "\<And>x. x \<in> set xs \<Longrightarrow> x = h (g x)"
  shows "sort_key g xs = map h (sorted_list_of_set (g ` set xs))"
proof -
  have keys: "map g (sort_key g xs) = sorted_list_of_set (g ` set xs)"
    by (rule sorted_distinct_set_unique) (use assms(1) in \<open>auto simp: distinct_map\<close>)
  have "sort_key g xs = map (h \<circ> g) (sort_key g xs)"
    using assms(2) by (intro map_idI [symmetric]) simp
  then show ?thesis using keys by (metis map_map)
qed

lemma MergeBuckets_groups: "MergeBuckets series = map (combined (concat series)) (sorted_list_of_set (b_ts ` set (concat series)))"
  using sort_by_key [of b_ts "foldl merge_bucket [] (concat series)" "combined (concat series)"] merge_run [of "concat series"]
  by (simp add: MergeBuckets_def foldl_concat)

text \<open>So the order in which the labels come does not matter.\<close>

lemma combined_perm: "mset bs = mset cs \<Longrightarrow> combined bs = combined cs"
proof
  fix k
  assume "mset bs = mset cs"
  then have m: "mset (filter (\<lambda>b. b_ts b = k) bs) = mset (filter (\<lambda>b. b_ts b = k) cs)" by simp
  have "mset (map f (filter (\<lambda>b. b_ts b = k) bs)) = mset (map f (filter (\<lambda>b. b_ts b = k) cs))" for f :: "bucket \<Rightarrow> rat"
    using m by simp
  then have "sum_list (map f (filter (\<lambda>b. b_ts b = k) bs)) = sum_list (map f (filter (\<lambda>b. b_ts b = k) cs))"
    "set (map f (filter (\<lambda>b. b_ts b = k) bs)) = set (map f (filter (\<lambda>b. b_ts b = k) cs))" for f :: "bucket \<Rightarrow> rat"
    by (metis sum_mset_sum_list, metis mset_eq_setD)
  then show "combined bs k = combined cs k" by (simp add: combined_def Let_def del: set_map)
qed

lemma MergeBuckets_order: "mset xss = mset yss \<Longrightarrow> MergeBuckets xss = MergeBuckets yss"
proof -
  assume "mset xss = mset yss"
  then have m: "mset (concat xss) = mset (concat yss)" by (metis mset_concat mset_map sum_mset_sum_list)
  show ?thesis unfolding MergeBuckets_groups combined_perm [OF m] using mset_eq_setD [OF m] by simp
qed

section \<open>What a history holds\<close>

text \<open>The samples a history is about: of every instance of the app, in the window.\<close>

definition app_rows :: "jstr \<Rightarrow> int \<Rightarrow> metric_table \<Rightarrow> sample list" where
  "app_rows selector sinceMs t = filter (\<lambda>r. label_match selector (sm_label r) \<and> sinceMs \<le> sm_ts r) t"

definition series_of :: "metric_table \<Rightarrow> jstr \<Rightarrow> int \<Rightarrow> int \<Rightarrow> bucket list list" where
  "series_of t selector sinceMs w =
     map (\<lambda>l. the (bucket_query t l sinceMs w)) (filter (label_match selector) (sample_labels t))"

lemma AutoBucket_pos: "0 < AutoBucketMs sinceMs bucketMs"
  by (simp add: AutoBucketMs_def less_max_iff_disj)

lemma queries_Some: "0 < w \<Longrightarrow> queries t sinceMs w ls = Some (map (\<lambda>l. the (bucket_query t l sinceMs w)) ls)"
  by (induction ls) (simp_all add: bucket_query_def)

lemma history_series:
  "metric_history stores now_ms agent selector sinceMs bucketMs =
     (case map_of stores (sanitizeAgent agent) of
        None \<Rightarrow> Some []
      | Some t \<Rightarrow> Some (MergeBuckets (series_of t selector (now_ms - sinceMs) (AutoBucketMs sinceMs bucketMs))))"
  by (simp add: metric_history_def queries_Some AutoBucket_pos series_of_def split: option.split)

text \<open>The buckets before merging: one for each label and time of a sample.\<close>

definition sample_key :: "int \<Rightarrow> sample \<Rightarrow> jstr \<times> int" where
  "sample_key w r = (sm_label r, bucket_start w (sm_ts r))"

lemma series_buckets:
  assumes "0 < w"
  shows "set (concat (series_of t selector sinceMs w)) =
    (\<lambda>k. aggregate_row (snd k) (filter (\<lambda>r. sample_key w r = k) (app_rows selector sinceMs t))) `
      sample_key w ` set (app_rows selector sinceMs t)"
proof -
  let ?R = "app_rows selector sinceMs t"
  have group: "filter (\<lambda>r. bucket_start w (sm_ts r) = k) (filter (\<lambda>r. sm_label r = l \<and> sinceMs \<le> sm_ts r) t) =
      filter (\<lambda>r. sample_key w r = (l, k)) ?R" if "label_match selector l" for l k
    unfolding app_rows_def filter_filter using that by (intro filter_cong) (auto simp: sample_key_def)
  have one: "set (the (bucket_query t l sinceMs w)) =
      (\<lambda>k. aggregate_row k (filter (\<lambda>r. sample_key w r = (l, k)) ?R)) `
        (\<lambda>r. bucket_start w (sm_ts r)) ` {r \<in> set t. sm_label r = l \<and> sinceMs \<le> sm_ts r}"
    if "label_match selector l" for l
    using assms by (simp add: bucket_query_def Let_def group [OF that] del: filter_filter)
  have "set (concat (series_of t selector sinceMs w)) =
      (\<Union>l \<in> {l \<in> sm_label ` set t. label_match selector l}. set (the (bucket_query t l sinceMs w)))"
    by (auto simp: series_of_def sample_labels_def)
  also have "\<dots> = (\<Union>l \<in> {l \<in> sm_label ` set t. label_match selector l}.
      (\<lambda>k. aggregate_row k (filter (\<lambda>r. sample_key w r = (l, k)) ?R)) `
        (\<lambda>r. bucket_start w (sm_ts r)) ` {r \<in> set t. sm_label r = l \<and> sinceMs \<le> sm_ts r})"
    using one by (intro SUP_cong) simp_all
  also have "\<dots> = (\<Union>r \<in> set ?R. {aggregate_row (bucket_start w (sm_ts r))
      (filter (\<lambda>x. sample_key w x = (sm_label r, bucket_start w (sm_ts r))) ?R)})"
    by (fastforce simp: app_rows_def)
  finally show ?thesis unfolding image_image by (simp add: sample_key_def UNION_singleton_eq_range)
qed

lemma combined_ts: "b_ts (combined bs k) = k"
  by (simp add: combined_def Let_def)

text \<open>The maximum of the maxima of groups.\<close>

lemma Max_groups:
  fixes f :: "'a \<Rightarrow> 'b::linorder"
  assumes "finite S" "S \<noteq> {}"
  shows "Max ((\<lambda>k. Max (f ` {x \<in> S. g x = k})) ` g ` S) = Max (f ` S)"
proof (rule Max_eqI)
  have "Max (f ` S) \<in> f ` S" using assms by (intro Max_in) simp_all
  then obtain x where x: "x \<in> S" "f x = Max (f ` S)" by (metis imageE)
  have top: "f y \<le> f x" if "y \<in> S" for y using x(2) that assms(1) by simp
  have "Max (f ` {y \<in> S. g y = g x}) = f x" using x(1) assms(1) top by (intro Max_eqI) auto
  then have "Max (f ` {y \<in> S. g y = g x}) = Max (f ` S)" using x(2) by simp
  then have "Max (f ` S) = (\<lambda>k. Max (f ` {x \<in> S. g x = k})) (g x)" by simp
  then show "Max (f ` S) \<in> (\<lambda>k. Max (f ` {x \<in> S. g x = k})) ` g ` S" by (rule image_eqI) (rule imageI [OF x(1)])
  fix y
  assume "y \<in> (\<lambda>k. Max (f ` {x \<in> S. g x = k})) ` g ` S"
  then obtain z where z: "z \<in> S" "y = Max (f ` {x \<in> S. g x = g z})" by blast
  show "y \<le> Max (f ` S)" unfolding z(2) by (rule Max_mono) (use z(1) assms(1) in auto)
qed (use assms in simp)

lemma history_max:
  fixes m :: "bucket \<Rightarrow> rat" and f :: "sample \<Rightarrow> rat"
  assumes "0 < w" "app_rows selector sinceMs t \<noteq> []"
    and row: "\<And>k rows. rows \<noteq> [] \<Longrightarrow> m (aggregate_row k rows) = Max (f ` set rows)"
    and comb: "\<And>bs k. m (combined bs k) = Max (m ` {b \<in> set bs. b_ts b = k})"
  shows "Max (m ` set (MergeBuckets (series_of t selector sinceMs w))) = Max (f ` set (app_rows selector sinceMs t))"
proof -
  let ?R = "app_rows selector sinceMs t" and ?C = "concat (series_of t selector sinceMs w)"
  have C: "set ?C = (\<lambda>k. aggregate_row (snd k) (filter (\<lambda>r. sample_key w r = k) ?R)) ` sample_key w ` set ?R"
    by (rule series_buckets [OF assms(1)])
  have "m ` set (MergeBuckets (series_of t selector sinceMs w)) =
      (\<lambda>k. Max (m ` {b \<in> set ?C. b_ts b = k})) ` b_ts ` set ?C"
    unfolding MergeBuckets_groups by (simp add: image_image comb del: set_concat)
  also have "Max \<dots> = Max (m ` set ?C)"
    by (rule Max_groups) (use assms(2) C in \<open>simp_all del: set_concat\<close>)
  also have "m ` set ?C = (\<lambda>k. Max (f ` {r \<in> set ?R. sample_key w r = k})) ` sample_key w ` set ?R"
  proof -
    have "m (aggregate_row (snd k) (filter (\<lambda>r. sample_key w r = k) ?R)) = Max (f ` {r \<in> set ?R. sample_key w r = k})"
      if "k \<in> sample_key w ` set ?R" for k
      using row [of "filter (\<lambda>r. sample_key w r = k) ?R"] that by (auto simp: filter_empty_conv)
    then show ?thesis unfolding C image_image by (intro image_cong) simp_all
  qed
  also have "Max \<dots> = Max (f ` set ?R)" by (rule Max_groups) (use assms(2) in simp_all)
  finally show ?thesis .
qed

text \<open>The peaks of a history are those of the samples.\<close>

lemma history_peaks:
  fixes stores :: metric_stores and selector :: jstr and now_ms sinceMs :: int
  assumes "map_of stores (sanitizeAgent agent) = Some t"
  defines "rows \<equiv> app_rows selector (now_ms - sinceMs) t"
  shows "\<exists>bs. metric_history stores now_ms agent selector sinceMs bucketMs = Some bs \<and>
    (if rows = [] then bs = []
     else bs \<noteq> [] \<and> Max (set (map cpu_max bs)) = Max (set (map sm_cpu rows)) \<and>
       Max (set (map mem_max bs)) = of_int (Max (set (map sm_mem rows))))"
proof -
  let ?w = "AutoBucketMs sinceMs bucketMs"
  let ?bs = "MergeBuckets (series_of t selector (now_ms - sinceMs) ?w)"
  have h: "metric_history stores now_ms agent selector sinceMs bucketMs = Some ?bs"
    by (simp add: history_series assms(1))
  have empty: "?bs = [] \<longleftrightarrow> rows = []"
    unfolding MergeBuckets_groups rows_def
    using series_buckets [OF AutoBucket_pos, of t selector "now_ms - sinceMs" sinceMs bucketMs] by (simp del: set_concat)
  have mem: "of_int (Max (sm_mem ` set rs)) = Max ((\<lambda>r. rat_of_int (sm_mem r)) ` set rs)" if "rs \<noteq> []" for rs
    using that mono_Max_commute [of rat_of_int "sm_mem ` set rs"] by (simp add: mono_def image_image)
  have "Max (cpu_max ` set ?bs) = Max (sm_cpu ` set rows)" if "rows \<noteq> []"
    unfolding rows_def
    by (rule history_max [OF AutoBucket_pos that [unfolded rows_def]]) (simp_all add: aggregate_row_def combined_def Let_def)
  moreover have "Max (mem_max ` set ?bs) = of_int (Max (sm_mem ` set rows))" if "rows \<noteq> []"
    unfolding mem [OF that] unfolding rows_def
    by (rule history_max [OF AutoBucket_pos that [unfolded rows_def]]) (simp_all add: aggregate_row_def combined_def Let_def mem)
  ultimately show ?thesis using h empty by auto
qed

text \<open>About as many buckets as asked for: at most 62, whatever the window.\<close>

lemma history_length:
  assumes "metric_history stores now_ms agent selector sinceMs 0 = Some bs" "map_of stores (sanitizeAgent agent) = Some t"
    and "0 \<le> sinceMs" "sinceMs \<le> now_ms" "list_all (\<lambda>r. sm_ts r \<le> now_ms) t"
  shows "length bs \<le> 62"
proof -
  define w where "w = AutoBucketMs sinceMs 0"
  let ?R = "app_rows selector (now_ms - sinceMs) t" and ?C = "concat (series_of t selector (now_ms - sinceMs) w)"
  have w: "1000 \<le> w" "sinceMs div 60 \<le> w" by (simp_all add: w_def AutoBucketMs_def)
  then have pos: "0 < w" by simp
  have bs: "bs = MergeBuckets (series_of t selector (now_ms - sinceMs) w)"
    using assms(1,2) by (simp add: history_series w_def)
  have "b_ts ` set ?C \<subseteq> (\<lambda>j. j * w) ` {(now_ms - sinceMs) div w .. now_ms div w}"
  proof
    fix k
    assume "k \<in> b_ts ` set ?C"
    then obtain r where "r \<in> set ?R" "k = bucket_start w (sm_ts r)"
      unfolding series_buckets [OF pos] by (auto simp: aggregate_row_def sample_key_def)
    moreover from this(1) have "now_ms - sinceMs \<le> sm_ts r" "sm_ts r \<le> now_ms"
      using assms(5) by (auto simp: app_rows_def list_all_iff)
    ultimately show "k \<in> (\<lambda>j. j * w) ` {(now_ms - sinceMs) div w .. now_ms div w}"
      using assms(4) pos by (auto simp: bucket_start_def intro!: imageI zdiv_mono1)
  qed
  then have "card (b_ts ` set ?C) \<le> card {(now_ms - sinceMs) div w .. now_ms div w}"
    by (meson card_image_le card_mono finite_atLeastAtMost_int finite_imageI le_trans)
  also have "\<dots> = nat (now_ms div w - (now_ms - sinceMs) div w + 1)" by simp
  also have "\<dots> \<le> 62"
  proof -
    have "sinceMs < 61 * w" using w by linarith
    then have "now_ms < (now_ms - sinceMs) + 61 * w" by simp
    then have "now_ms div w \<le> ((now_ms - sinceMs) + 61 * w) div w" using pos by (intro zdiv_mono1) simp_all
    also have "\<dots> = (now_ms - sinceMs) div w + 61" using pos by simp
    finally show ?thesis by simp
  qed
  finally show ?thesis unfolding bs MergeBuckets_groups by (simp del: set_concat)
qed

section \<open>Averages and peaks\<close>

lemma sum_list_le_bound: "list_all (\<lambda>x. x \<le> M) xs \<Longrightarrow> sum_list xs \<le> of_nat (length xs) * M" for M :: rat
  by (induction xs) (auto simp: algebra_simps)

lemma avg_le: "xs \<noteq> [] \<Longrightarrow> list_all (\<lambda>x. x \<le> M) xs \<Longrightarrow> avg xs \<le> M"
  using sum_list_le_bound [of M xs] by (simp add: avg_def divide_le_eq mult.commute)

lemma avg_nonneg: "list_all (\<lambda>x. 0 \<le> x) xs \<Longrightarrow> 0 \<le> avg xs"
  by (auto simp: avg_def list_all_iff intro!: divide_nonneg_nonneg sum_list_nonneg)

lemma aggregate_fits:
  assumes "rows \<noteq> []" "list_all (\<lambda>r. 0 \<le> sm_cpu r \<and> 0 \<le> sm_mem r) rows"
  shows "0 \<le> avg_of m (aggregate_row k rows) \<and> avg_of m (aggregate_row k rows) \<le> max_of m (aggregate_row k rows)"
proof (cases m)
  case Cpu
  have "avg (map sm_cpu rows) \<le> Max (sm_cpu ` set rows)"
    using assms(1) by (intro avg_le) (auto simp: list_all_iff)
  then show ?thesis
    using Cpu assms avg_nonneg [of "map sm_cpu rows"]
    by (simp add: avg_of_def max_of_def aggregate_row_def list_all_iff)
next
  case Mem
  let ?xs = "map (\<lambda>r. rat_of_int (sm_mem r)) rows" and ?M = "Max (sm_mem ` set rows)"
  have "avg ?xs \<le> of_int ?M" using assms(1) by (intro avg_le) (auto simp: list_all_iff)
  then have "\<lfloor>avg ?xs + 1 / 2\<rfloor> \<le> ?M" by linarith
  moreover have "0 \<le> avg ?xs" using assms(2) by (intro avg_nonneg) (auto simp: list_all_iff)
  then have "0 \<le> \<lfloor>avg ?xs + 1 / 2\<rfloor>" by linarith
  ultimately show ?thesis using Mem by (simp add: avg_of_def max_of_def aggregate_row_def)
qed

text \<open>With one instance the averages lie below the peaks, as the charts expect.\<close>

lemma combined_single: "distinct (map b_ts bs) \<Longrightarrow> b \<in> set bs \<Longrightarrow> combined bs (b_ts b) = b"
proof (induction bs)
  case (Cons a bs)
  show ?case
  proof (cases "a = b")
    case True
    then have "filter (\<lambda>x. b_ts x = b_ts b) bs = []" using Cons.prems(1) by (auto simp: filter_empty_conv image_iff dest: sym)
    with True show ?thesis by (simp add: combined_def)
  next
    case False
    then have "b_ts a \<noteq> b_ts b" using Cons.prems by auto
    with False Cons show ?thesis by (simp add: combined_def)
  qed
qed simp

lemma concat_one: "distinct ls \<Longrightarrow> (\<And>x. x \<in> set ls \<Longrightarrow> x \<noteq> l \<Longrightarrow> f x = []) \<Longrightarrow> concat (map f ls) = (if l \<in> set ls then f l else [])"
  by (induction ls) auto

lemma history_fits:
  assumes "metric_history stores now_ms agent selector sinceMs bucketMs = Some bs"
    and one: "\<And>t r. map_of stores (sanitizeAgent agent) = Some t \<Longrightarrow> r \<in> set (app_rows selector (now_ms - sinceMs) t) \<Longrightarrow>
      sm_label r = l \<and> 0 \<le> sm_cpu r \<and> 0 \<le> sm_mem r"
  shows "list_all (\<lambda>b. 0 \<le> avg_of m b \<and> avg_of m b \<le> max_of m b) bs"
proof (cases "map_of stores (sanitizeAgent agent)")
  case None
  with assms(1) show ?thesis by (simp add: history_series)
next
  case (Some t)
  define w where "w = AutoBucketMs sinceMs bucketMs"
  have pos: "0 < w" by (simp add: w_def AutoBucket_pos)
  let ?since = "now_ms - sinceMs"
  let ?rows = "filter (\<lambda>r. sm_label r = l \<and> ?since \<le> sm_ts r) t"
  have bs: "bs = MergeBuckets (series_of t selector ?since w)" using assms(1) Some by (simp add: history_series w_def)
  have "the (bucket_query t x ?since w) = []" if "x \<in> set (filter (label_match selector) (sample_labels t))" "x \<noteq> l" for x
  proof -
    have "sm_label r = l" if "r \<in> set t" "sm_label r = x" "?since \<le> sm_ts r" for r
      using one [OF Some, of r] that \<open>x \<in> _\<close> by (auto simp: app_rows_def)
    then have "filter (\<lambda>r. sm_label r = x \<and> ?since \<le> sm_ts r) t = []" using \<open>x \<noteq> l\<close> by (auto simp: filter_empty_conv)
    then show ?thesis using pos by (simp add: bucket_query_def del: filter_filter)
  qed
  then have C: "concat (series_of t selector ?since w) =
      (if l \<in> set (filter (label_match selector) (sample_labels t)) then the (bucket_query t l ?since w) else [])"
    unfolding series_of_def by (intro concat_one) (simp_all add: sample_labels_def)
  have dist: "distinct (map b_ts (the (bucket_query t l ?since w)))"
    using pos by (simp add: bucket_query_def Let_def aggregate_row_def comp_def)
  have fit: "0 \<le> avg_of m b \<and> avg_of m b \<le> max_of m b"
    if "b \<in> set (the (bucket_query t l ?since w))" "label_match selector l" for b
  proof -
    from that(1) obtain r where r: "r \<in> set ?rows"
      "b = aggregate_row (bucket_start w (sm_ts r)) (filter (\<lambda>x. bucket_start w (sm_ts x) = bucket_start w (sm_ts r)) ?rows)"
      using pos by (auto simp: bucket_query_def Let_def)
    have "0 \<le> sm_cpu x \<and> 0 \<le> sm_mem x" if "x \<in> set ?rows" for x
      using one [OF Some, of x] that \<open>label_match selector l\<close> by (auto simp: app_rows_def)
    then show ?thesis unfolding r(2) using r(1) by (intro aggregate_fits) (auto simp: filter_empty_conv list_all_iff)
  qed
  show ?thesis
    unfolding bs MergeBuckets_groups C using combined_single [OF dist] fit by (auto simp: list_all_iff)
qed

text \<open>
  With several instances they need not: averages are added up, peaks are not. Two instances that use
  the same share of the CPU give an average of twice the peak, drawn above the chart.
\<close>

lemma peak_below_average:
  assumes "0 < c" "0 \<le> sinceMs"
  shows "\<exists>b. metric_history [(sanitizeAgent agent, append_samples [] ts [(app @ js ''#0'', c, m), (app @ js ''#1'', c, m)])]
        ts agent app sinceMs 0 = Some [b] \<and>
      cpu_avg b = 2 * c \<and> cpu_max b = c \<and> chart_y (chart_hi Cpu [b]) (cpu_avg b) = - 56"
proof -
  let ?l = "app @ js ''#0''" and ?k = "app @ js ''#1''"
  let ?t = "[\<lparr>sm_ts = ts, sm_label = ?l, sm_cpu = c, sm_mem = m\<rparr>, \<lparr>sm_ts = ts, sm_label = ?k, sm_cpu = c, sm_mem = m\<rparr>]"
  define w where "w = AutoBucketMs sinceMs 0"
  have pos: "0 < w" by (simp add: w_def AutoBucket_pos)
  have t: "append_samples [] ts [(?l, c, m), (?k, c, m)] = ?t" by (simp add: append_samples_def)
  have "label_match app ?l" "label_match app ?k" "?l \<noteq> ?k"
    by (simp_all add: label_match_def startsWith_def js_def)
  then have "series_of ?t app (ts - sinceMs) w =
      [[aggregate_row (bucket_start w ts) [?t ! 0]], [aggregate_row (bucket_start w ts) [?t ! 1]]]"
    using pos assms(2) by (simp add: series_of_def sample_labels_def bucket_query_def)
  then have h: "metric_history [(sanitizeAgent agent, ?t)] ts agent app sinceMs 0 =
      Some [merge_into (aggregate_row (bucket_start w ts) [?t ! 0]) (aggregate_row (bucket_start w ts) [?t ! 1])]"
    by (simp add: history_series w_def [symmetric] MergeBuckets_def aggregate_row_def)
  let ?b = "merge_into (aggregate_row (bucket_start w ts) [?t ! 0]) (aggregate_row (bucket_start w ts) [?t ! 1])"
  have b: "cpu_avg ?b = 2 * c" "cpu_max ?b = c" by (simp_all add: merge_into_def aggregate_row_def avg_def)
  then have "chart_hi Cpu [?b] = c" using assms(1) by (simp add: chart_hi_def max_of_def or_one_def)
  then have "chart_y (chart_hi Cpu [?b]) (cpu_avg ?b) = - 56"
    using assms(1) b by (simp add: chart_y_def or_one_def chart_H_def PAD_def)
  with h b show ?thesis unfolding t by blast
qed

text \<open>Agents whose names differ in such a character only share one store.\<close>

lemma agents_share_store:
  "metric_history stores now_ms (x @ [0x2E] @ y) selector sinceMs bucketMs =
   metric_history stores now_ms (x @ [0x5F] @ y) selector sinceMs bucketMs"
  by (simp add: metric_history_def sanitizeAgent_def)

end
