(* ===== verification/RateLimit.thy ===== *)
theory RateLimit imports JsString begin

text \<open>
  The lockout of internal/ratelimit/limiter.go: consecutive failures per key, locks that double up
  to a cap, and the eviction of idle keys. Times and durations are nanoseconds; a duration is a
  64-bit integer and the doubling a shift that can overflow. The zero time of Go is \<open>None\<close>.
\<close>

section \<open>State\<close>

record policy =
  po_threshold :: nat
  po_base :: int
  po_cap :: int

record entry =
  en_fails :: nat
  en_lockUntil :: "int option"
  en_lockedOnce :: nat
  en_lastSeen :: int

type_synonym limiter = "jstr \<rightharpoonup> entry"

section \<open>Operations\<close>

definition RetryAfter :: "limiter \<Rightarrow> int \<Rightarrow> jstr \<Rightarrow> int option" where
  "RetryAfter l now k =
     (case l k of
        None \<Rightarrow> None
      | Some e \<Rightarrow> (case en_lockUntil e of None \<Rightarrow> None | Some u \<Rightarrow> if now < u then Some (u - now) else None))"

definition LockedAny :: "limiter \<Rightarrow> int \<Rightarrow> jstr list \<Rightarrow> int option" where
  "LockedAny l now ks =
     foldl (\<lambda>acc k. case RetryAfter l now k of
         None \<Rightarrow> acc
       | Some w \<Rightarrow> Some (case acc of None \<Rightarrow> max 0 w | Some v \<Rightarrow> max v w)) None ks"

definition evicted :: "policy \<Rightarrow> int \<Rightarrow> entry \<Rightarrow> bool" where
  "evicted pol now e \<longleftrightarrow>
     (case en_lockUntil e of
        None \<Rightarrow> po_cap pol < now - en_lastSeen e
      | Some u \<Rightarrow> u < now \<and> po_cap pol < now - u)"

definition pruneLocked :: "policy \<Rightarrow> int \<Rightarrow> limiter \<Rightarrow> limiter" where
  "pruneLocked pol now l = (\<lambda>k. case l k of None \<Rightarrow> None | Some e \<Rightarrow> if evicted pol now e then None else Some e)"

text \<open>\<open>Base << lockedOnce\<close> on 64 bits, with the guard against overflow.\<close>

definition lock_duration :: "policy \<Rightarrow> nat \<Rightarrow> int" where
  "lock_duration pol n =
     (let dur = sint (push_bit n (word_of_int (po_base pol) :: 64 word))
      in if dur > po_cap pol \<or> dur \<le> 0 then po_cap pol else dur)"

definition fail_entry :: "policy \<Rightarrow> int \<Rightarrow> entry \<Rightarrow> entry" where
  "fail_entry pol now e =
     (let e = e\<lparr>en_lastSeen := now, en_fails := en_fails e + 1\<rparr>
      in if po_threshold pol \<le> en_fails e
         then e\<lparr>en_lockUntil := Some (now + lock_duration pol (en_lockedOnce e)),
                en_lockedOnce := en_lockedOnce e + 1, en_fails := 0\<rparr>
         else e)"

definition new_entry :: entry where
  "new_entry = \<lparr>en_fails = 0, en_lockUntil = None, en_lockedOnce = 0, en_lastSeen = 0\<rparr>"

definition Fail :: "policy \<Rightarrow> int \<Rightarrow> jstr \<Rightarrow> limiter \<Rightarrow> limiter" where
  "Fail pol now k l =
     (let l = pruneLocked pol now l; e = (case l k of None \<Rightarrow> new_entry | Some e \<Rightarrow> e)
      in l(k \<mapsto> fail_entry pol now e))"

definition Reset :: "jstr \<Rightarrow> limiter \<Rightarrow> limiter" where
  "Reset k l = l(k := None)"

text \<open>The policy of the dashboard: five failures, one minute, a quarter of an hour.\<close>

definition dashboard_policy :: policy where
  "dashboard_policy = \<lparr>po_threshold = 5, po_base = 60 * 10 ^ 9, po_cap = 15 * 60 * 10 ^ 9\<rparr>"

section \<open>The doubling never wraps to a short lock\<close>

lemma shifted: "sint (push_bit n (word_of_int b :: 64 word)) = signed_take_bit 63 (b * 2 ^ n)"
proof -
  have "push_bit n (word_of_int b :: 64 word) = word_of_int (b * 2 ^ n)" by (simp add: push_bit_eq_mult)
  then show ?thesis by (simp only: sint_sbintrunc') simp
qed

text \<open>From the 29th doubling on, what is left of the product is a multiple of \<open>2 ^ 40\<close>.\<close>

lemma wrapped_multiple: "29 \<le> n \<Longrightarrow> (2 :: int) ^ 40 dvd signed_take_bit 63 (60 * 10 ^ 9 * 2 ^ n)"
proof -
  assume "29 \<le> n"
  then have "(2 :: int) ^ 29 dvd 2 ^ n" by (rule le_imp_power_dvd)
  then have "(2 :: int) ^ 11 * 2 ^ 29 dvd (2 ^ 11 * 29296875) * 2 ^ n" by (intro mult_dvd_mono) simp_all
  then have p: "(2 :: int) ^ 40 dvd 60 * 10 ^ 9 * 2 ^ n" by simp
  have "(2 :: int) ^ 40 dvd 2 ^ 63" "(2 :: int) ^ 40 dvd 2 ^ 64" by (rule le_imp_power_dvd, simp)+
  then show ?thesis unfolding signed_take_bit_eq_take_bit_shift take_bit_eq_mod
    using p by (intro dvd_diff) (simp_all add: dvd_mod_iff)
qed

lemma dashboard_lock_duration: "lock_duration dashboard_policy n = min (60 * 10 ^ 9 * 2 ^ n) (15 * 60 * 10 ^ 9)"
proof -
  let ?x = "60 * 10 ^ 9 * 2 ^ n :: int" and ?cap = "15 * 60 * 10 ^ 9 :: int"
  have d: "lock_duration dashboard_policy n =
      (let dur = signed_take_bit 63 ?x in if dur > ?cap \<or> dur \<le> 0 then ?cap else dur)"
    unfolding lock_duration_def dashboard_policy_def policy.simps shifted ..
  have big: "?cap \<le> ?x" if "4 \<le> n"
  proof -
    have "(2 :: int) ^ 4 \<le> 2 ^ n" using that by (intro power_increasing) simp_all
    then show ?thesis by simp
  qed
  consider "n \<le> 27" | "n = 28" | "29 \<le> n" by linarith
  then show ?thesis
  proof cases
    case 1
    then have "(2 :: int) ^ n \<le> 2 ^ 27" by (intro power_increasing) simp_all
    then have "?x < 2 ^ 63" by simp
    moreover have "- (2 ^ 63) \<le> ?x" by (rule order_trans [of _ 0]) simp_all
    ultimately have "signed_take_bit 63 ?x = ?x" by (intro signed_take_bit_int_eq_self)
    then show ?thesis unfolding d by (simp add: Let_def min_def)
  next
    case 2
    then show ?thesis unfolding d by (simp add: signed_take_bit_eq_take_bit_shift take_bit_eq_mod)
  next
    case 3
    from wrapped_multiple [OF 3] obtain q where q: "signed_take_bit 63 ?x = 2 ^ 40 * q" by (rule dvdE)
    have "?cap < 2 ^ 40 * q \<or> 2 ^ 40 * q \<le> 0" by (cases "q \<le> 0") auto
    then show ?thesis using big 3 unfolding d q by (simp add: Let_def min_def)
  qed
qed

section \<open>How many failures get through\<close>

text \<open>No span of the length \<open>b\<close> has more than \<open>n\<close> of the times.\<close>

definition windows_ok :: "nat \<Rightarrow> int \<Rightarrow> int list \<Rightarrow> bool" where
  "windows_ok n b ts \<longleftrightarrow> (\<forall>t. length (filter (\<lambda>x. t \<le> x \<and> x < t + b) ts) \<le> n)"

definition lock_end :: "int \<Rightarrow> entry option \<Rightarrow> int" where
  "lock_end now e = (case e of None \<Rightarrow> now | Some x \<Rightarrow> (case en_lockUntil x of None \<Rightarrow> now | Some u \<Rightarrow> max now u))"

definition fails_of :: "entry option \<Rightarrow> nat" where
  "fails_of e = (case e of None \<Rightarrow> 0 | Some x \<Rightarrow> en_fails x)"

lemma windows_append:
  assumes "windows_ok n b xs" "length ys \<le> n" "\<And>x y. x \<in> set xs \<Longrightarrow> y \<in> set ys \<Longrightarrow> x + b \<le> y"
  shows "windows_ok n b (xs @ ys)"
  unfolding windows_ok_def
proof
  fix t
  let ?f = "filter (\<lambda>x. t \<le> x \<and> x < t + b)"
  show "length (?f (xs @ ys)) \<le> n"
  proof (cases "?f xs = []")
    case True
    have "length (?f ys) \<le> n" using assms(2) length_filter_le le_trans by blast
    with True show ?thesis by simp
  next
    case False
    then obtain x where "x \<in> set xs" "t \<le> x" by (auto simp: filter_empty_conv)
    then have "?f ys = []" using assms(3) by (fastforce simp: filter_empty_conv)
    then show ?thesis using assms(1) by (simp add: windows_ok_def)
  qed
qed

text \<open>
  The times of the failures of a key: those from before the last lock, those of a streak that was
  evicted, and the streak the entry counts.
\<close>

definition near :: "int \<Rightarrow> int list \<Rightarrow> int list \<Rightarrow> bool" where
  "near b xs ys \<longleftrightarrow> (\<forall>x \<in> set xs. \<forall>y \<in> set ys. x + b \<le> y)"

definition unlocked_entry :: "entry option \<Rightarrow> bool" where
  "unlocked_entry e \<longleftrightarrow> (case e of None \<Rightarrow> True | Some x \<Rightarrow> en_lockUntil x = None)"

definition seen_by :: "entry option \<Rightarrow> int list \<Rightarrow> bool" where
  "seen_by e ts \<longleftrightarrow> (case e of None \<Rightarrow> True | Some x \<Rightarrow> (\<forall>y \<in> set ts. y \<le> en_lastSeen x))"

definition streaks ::
  "nat \<Rightarrow> int \<Rightarrow> entry option \<Rightarrow> int \<Rightarrow> int list \<Rightarrow> int list \<Rightarrow> int list \<Rightarrow> bool" where
  "streaks n b e now older mid recent \<longleftrightarrow>
     windows_ok (2 * n - 1) b older \<and> (\<forall>x \<in> set (older @ mid @ recent). x \<le> now) \<and>
     length recent = fails_of e \<and> length recent < n \<and> length mid < n \<and>
     (mid \<noteq> [] \<longrightarrow> unlocked_entry e) \<and> near b older (mid @ recent) \<and>
     (mid @ recent = [] \<longrightarrow> near b older [lock_end now e]) \<and> seen_by e (older @ mid @ recent)"

lemma streaksI:
  assumes "windows_ok (2 * n - 1) b older" "\<And>x. x \<in> set (older @ mid @ recent) \<Longrightarrow> x \<le> now"
    "length recent = fails_of e" "length recent < n" "length mid < n" "mid \<noteq> [] \<Longrightarrow> unlocked_entry e"
    "near b older (mid @ recent)" "mid @ recent = [] \<Longrightarrow> near b older [lock_end now e]" "seen_by e (older @ mid @ recent)"
  shows "streaks n b e now older mid recent"
  using assms by (simp add: streaks_def)

lemma streaksD:
  assumes "streaks n b e now older mid recent"
  shows "windows_ok (2 * n - 1) b older" "\<And>x. x \<in> set (older @ mid @ recent) \<Longrightarrow> x \<le> now"
    "length recent = fails_of e" "length recent < n" "length mid < n" "mid \<noteq> [] \<Longrightarrow> unlocked_entry e"
    "near b older (mid @ recent)" "mid @ recent = [] \<Longrightarrow> near b older [lock_end now e]" "seen_by e (older @ mid @ recent)"
  using assms by (auto simp: streaks_def)

definition counted :: "nat \<Rightarrow> int \<Rightarrow> entry option \<Rightarrow> int \<Rightarrow> int list \<Rightarrow> bool" where
  "counted n b e now ts \<longleftrightarrow> (\<exists>older mid recent. ts = older @ mid @ recent \<and> streaks n b e now older mid recent)"

lemma countedI: "streaks n b e now older mid recent \<Longrightarrow> ts = older @ mid @ recent \<Longrightarrow> counted n b e now ts"
  unfolding counted_def by blast

lemma streaks_windows: "streaks n b e now older mid recent \<Longrightarrow> windows_ok (2 * n - 1) b (older @ mid @ recent)"
  using streaksD [of n b e now older mid recent] by (intro windows_append) (auto simp: near_def)

lemma counted_windows: "counted n b e now ts \<Longrightarrow> windows_ok (2 * n - 1) b ts"
  unfolding counted_def using streaks_windows by blast

lemma streaks_later:
  assumes "streaks n b e now older mid recent" "now \<le> t"
  shows "streaks n b e t older mid recent"
proof -
  note d = streaksD [OF assms(1)]
  have "lock_end now e \<le> lock_end t e" using assms(2) by (auto simp: lock_end_def split: option.split)
  then have "near b older [lock_end t e]" if "mid @ recent = []" using d(8) [OF that] by (fastforce simp: near_def)
  moreover have "x \<le> t" if "x \<in> set (older @ mid @ recent)" for x using d(2) [OF that] assms(2) by simp
  ultimately show ?thesis using d by (intro streaksI)
qed

lemma counted_later:
  assumes "counted n b e now ts" "now \<le> t"
  shows "counted n b e t ts"
proof -
  from assms(1) obtain older mid recent where "ts = older @ mid @ recent" "streaks n b e now older mid recent"
    unfolding counted_def by blast
  then show ?thesis using countedI [OF streaks_later [OF _ assms(2)]] by blast
qed

text \<open>All failures count as old once nothing new can be near them.\<close>

lemma streaks_closed:
  assumes "streaks n b e now older mid recent" "0 < n" "fails_of e' = 0" "now \<le> t"
    and "near b (older @ mid @ recent) [lock_end t e']" "seen_by e' (older @ mid @ recent)"
  shows "counted n b e' t (older @ mid @ recent)"
proof (rule countedI)
  have "x \<le> t" if "x \<in> set (older @ mid @ recent)" for x using streaksD(2) [OF assms(1) that] assms(4) by simp
  then show "streaks n b e' t (older @ mid @ recent) [] []"
    using assms streaks_windows [OF assms(1)] by (intro streaksI) (simp_all add: near_def)
qed simp

locale lockout =
  fixes pol :: policy and b :: int
  assumes b_pos: "0 < b" and b_cap: "b \<le> po_cap pol" and b_lock: "\<And>n. b \<le> lock_duration pol n"
    and threshold: "0 < po_threshold pol"
begin

abbreviation failures :: "limiter \<Rightarrow> jstr \<Rightarrow> int \<Rightarrow> int list \<Rightarrow> bool" where
  "failures l k now ts \<equiv> counted (po_threshold pol) b (l k) now ts"

lemma later: "failures l k now ts \<Longrightarrow> now \<le> t \<Longrightarrow> failures l k t ts"
  by (rule counted_later)

text \<open>An evicted entry is of no use any more, or was counting a streak after an old lock.\<close>

lemma evicted_ok:
  assumes "failures l k now ts" "now \<le> t" "l k = Some e" "evicted pol t e"
  shows "counted (po_threshold pol) b None t ts"
proof -
  from assms(1) obtain older mid recent where ts: "ts = older @ mid @ recent"
    and s: "streaks (po_threshold pol) b (l k) now older mid recent" unfolding counted_def by blast
  note d = streaksD [OF s]
  show ?thesis
  proof (cases "en_lockUntil e")
    case None
    then have "en_lastSeen e + b \<le> t" using assms(4) b_cap by (simp add: evicted_def)
    moreover have "x \<le> en_lastSeen e" if "x \<in> set (older @ mid @ recent)" for x
      using d(9) that assms(3) by (simp add: seen_by_def)
    ultimately have "x + b \<le> t" if "x \<in> set (older @ mid @ recent)" for x
      using that by (meson add_right_mono order_trans)
    then have "near b (older @ mid @ recent) [t]" by (simp add: near_def)
    then show ?thesis unfolding ts
      by (intro streaks_closed [OF s threshold]) (simp_all add: fails_of_def lock_end_def assms(2) seen_by_def)
  next
    case (Some u)
    then have u: "u < t" and mid: "mid = []"
      using assms(3,4) d(6) by (auto simp: evicted_def unlocked_entry_def)
    have "near b older [t]" if "recent = []"
      using d(8) that mid u assms(2) Some by (fastforce simp: near_def lock_end_def assms(3))
    moreover have "x \<le> t" if "x \<in> set (older @ mid @ recent)" for x using d(2) [OF that] assms(2) by simp
    ultimately have "streaks (po_threshold pol) b None t older recent []"
      using d mid by (intro streaksI) (simp_all add: fails_of_def lock_end_def unlocked_entry_def seen_by_def threshold)
    then show ?thesis by (rule countedI) (simp add: ts mid)
  qed
qed

lemma failures_pruned: "failures l k now ts \<Longrightarrow> now \<le> t \<Longrightarrow> failures (pruneLocked pol t l) k t ts"
  using later [of l k now ts t] evicted_ok [of l k now ts t] by (cases "l k") (simp_all add: pruneLocked_def)

lemma fail_own:
  assumes "failures l k now ts" "now \<le> t" "RetryAfter l t k = None"
  shows "failures (Fail pol t k l) k t (ts @ [t])"
proof -
  let ?l = "pruneLocked pol t l" and ?n = "po_threshold pol"
  define e where "e = (case ?l k of None \<Rightarrow> new_entry | Some e \<Rightarrow> e)"
  obtain older mid recent where ts: "ts = older @ mid @ recent" and s: "streaks ?n b (?l k) t older mid recent"
    using failures_pruned [where l = l and k = k, OF assms(1,2)] unfolding counted_def by blast
  note d = streaksD [OF s]
  have fails: "en_fails e = length recent" using d(3) by (simp add: e_def fails_of_def new_entry_def split: option.splits)
  have free: "lock_end t (?l k) = t"
    using assms(3) by (auto simp: lock_end_def pruneLocked_def RetryAfter_def split: option.splits if_splits)
  have gap: "near b older [t]"
  proof (cases "mid @ recent = []")
    case True
    then show ?thesis using d(8) free by simp
  next
    case False
    then obtain y where y: "y \<in> set (mid @ recent)" using hd_in_set by blast
    then have "y \<le> t" using d(2) [of y] by auto
    then show ?thesis using d(7) y unfolding near_def by fastforce
  qed
  then have near: "near b older (mid @ recent @ [t])" using d(7) by (auto simp: near_def)
  have now: "Fail pol t k l k = Some (fail_entry pol t e)" by (simp add: Fail_def Let_def e_def)
  have past: "x \<le> t" if "x \<in> set (older @ mid @ recent @ [t])" for x using d(2) [of x] that by auto
  show ?thesis
  proof (cases "?n \<le> length recent + 1")
    case True
    then have e': "fail_entry pol t e = e\<lparr>en_lastSeen := t, en_lockUntil := Some (t + lock_duration pol (en_lockedOnce e)),
        en_lockedOnce := en_lockedOnce e + 1, en_fails := 0\<rparr>"
      by (simp add: fail_entry_def Let_def fails)
    have full: "windows_ok (2 * ?n - 1) b (older @ mid @ recent @ [t])"
      by (rule windows_append) (use d(1,4,5) near threshold in \<open>auto simp: near_def\<close>)
    have "streaks ?n b (Some (fail_entry pol t e)) t (older @ mid @ recent @ [t]) [] []"
    proof (rule streaksI [OF full])
      show "near b (older @ mid @ recent @ [t]) [lock_end t (Some (fail_entry pol t e))]"
        using past b_lock [of "en_lockedOnce e"] by (fastforce simp: near_def lock_end_def e')
    qed (use past threshold in \<open>auto simp: fails_of_def e' near_def seen_by_def\<close>)
    then show ?thesis unfolding now by (rule countedI) (simp add: ts)
  next
    case False
    then have e': "fail_entry pol t e = e\<lparr>en_lastSeen := t, en_fails := length recent + 1\<rparr>"
      by (simp add: fail_entry_def Let_def fails)
    have unlocked: "en_lockUntil e = None" if "mid \<noteq> []"
      using d(6) [OF that] by (simp add: unlocked_entry_def e_def new_entry_def split: option.splits)
    have "streaks ?n b (Some (fail_entry pol t e)) t older mid (recent @ [t])"
    proof (rule streaksI [OF d(1)])
      show "near b older (mid @ recent @ [t])" by (rule near)
    qed (use past False d(5) unlocked in \<open>auto simp: fails_of_def e' seen_by_def unlocked_entry_def\<close>)
    then show ?thesis unfolding now by (rule countedI) (simp add: ts)
  qed
qed

lemma fail_other: "failures l k now ts \<Longrightarrow> now \<le> t \<Longrightarrow> k' \<noteq> k \<Longrightarrow> failures (Fail pol t k' l) k t ts"
  using failures_pruned [of l k now ts t] by (simp add: Fail_def Let_def)

lemma reset_other: "failures l k now ts \<Longrightarrow> k' \<noteq> k \<Longrightarrow> failures (Reset k' l) k now ts"
  by (simp add: Reset_def)

lemma no_failures: "failures (\<lambda>_. None) k now []"
  by (rule countedI [where older = "[]" and mid = "[]" and recent = "[]"])
    (auto intro!: streaksI simp: windows_ok_def fails_of_def near_def seen_by_def threshold)

end

lemma dashboard_lock_min: "60 * 10 ^ 9 \<le> lock_duration dashboard_policy n"
proof -
  have "(1 :: int) \<le> 2 ^ n" by simp
  then have "60 * 10 ^ 9 * 1 \<le> (60 * 10 ^ 9 * 2 ^ n :: int)" by (intro mult_left_mono) simp_all
  then show ?thesis unfolding dashboard_lock_duration by (simp only: min.bounded_iff mult_1_right) simp
qed

interpretation dashboard: lockout dashboard_policy "60 * 10 ^ 9"
proof
  show "\<And>n. 60 * 10 ^ 9 \<le> lock_duration dashboard_policy n" by (rule dashboard_lock_min)
qed (simp_all add: dashboard_policy_def)

text \<open>
  Eviction looks at the lock only: a streak under way is forgotten, with the doubling, once the last
  lock is a quarter of an hour old, however recent its failures are.
\<close>

lemma streak_evicted:
  assumes "l k = Some e" "en_lockUntil e = Some u" "u + po_cap pol < t" "0 < po_cap pol"
  shows "Fail pol t k l k = Some (fail_entry pol t new_entry)"
  using assms by (simp add: Fail_def pruneLocked_def evicted_def)

end
