(* ===== verification/SessionStore.thy ===== *)
theory SessionStore imports RateLimit ApiTypes "HOL-Library.AList" begin

text \<open>
  Signing in on the server: the dashboard users of internal/server/auth.go, the session store of
  internal/dashboard/session.go and the handlers for login, logout and every other request in
  internal/dashboard/handlers.go. The cryptography is a parameter, and so are the random bytes of a
  call and whether a write to disk succeeds. Times are nanoseconds.
\<close>

section \<open>Users\<close>

record dashboard_user =
  du_pbkdf2 :: jstr
  du_salt :: jstr
  du_iter :: int

text \<open>Base64, PBKDF2 with the length of the key, and the hexadecimal SHA-256.\<close>

record crypto =
  cr_encode :: "jstr \<Rightarrow> jstr"
  cr_decode :: "jstr \<Rightarrow> jstr option"
  cr_kdf :: "jstr \<Rightarrow> jstr \<Rightarrow> int \<Rightarrow> nat \<Rightarrow> jstr option"
  cr_sha :: "jstr \<Rightarrow> jstr"

definition dashboardPBKDF2Iter :: int where
  "dashboardPBKDF2Iter = 600000"

datatype set_user_error = NoUserName | NoPassword | NoKey | NotSaved

definition SetDashboardUser ::
  "crypto \<Rightarrow> bool \<Rightarrow> jstr \<Rightarrow> jstr \<Rightarrow> jstr \<Rightarrow> (jstr \<rightharpoonup> dashboard_user) \<Rightarrow> set_user_error option \<times> (jstr \<rightharpoonup> dashboard_user)" where
  "SetDashboardUser c saved salt user password users =
     (if user = [] then (Some NoUserName, users)
      else if password = [] then (Some NoPassword, users)
      else case cr_kdf c password salt dashboardPBKDF2Iter 32 of
             None \<Rightarrow> (Some NoKey, users)
           | Some dk \<Rightarrow>
               if saved
               then (None, users(user \<mapsto> \<lparr>du_pbkdf2 = cr_encode c dk, du_salt = cr_encode c salt, du_iter = dashboardPBKDF2Iter\<rparr>))
               else (Some NotSaved, users))"

definition VerifyDashboardUser :: "crypto \<Rightarrow> (jstr \<rightharpoonup> dashboard_user) \<Rightarrow> jstr \<Rightarrow> jstr \<Rightarrow> bool" where
  "VerifyDashboardUser c users user password =
     (case users user of
        None \<Rightarrow> False
      | Some u \<Rightarrow>
          (case (cr_decode c (du_salt u), cr_decode c (du_pbkdf2 u)) of
             (Some salt, Some want) \<Rightarrow> cr_kdf c password salt (du_iter u) (length want) = Some want
           | _ \<Rightarrow> False))"

definition DashboardCredentialStamp :: "crypto \<Rightarrow> (jstr \<rightharpoonup> dashboard_user) \<Rightarrow> jstr \<Rightarrow> jstr option" where
  "DashboardCredentialStamp c users user =
     map_option (\<lambda>u. cr_sha c (du_pbkdf2 u @ js ''.'' @ du_salt u @ js ''.'' @ dec_int (du_iter u))) (users user)"

section \<open>Sessions\<close>

record session =
  ss_user :: jstr
  ss_stamp :: jstr
  ss_expiry :: int

text \<open>The map from token hashes, and the file when the store has one.\<close>

record session_store =
  st_ttl :: int
  st_path :: bool
  st_map :: "(jstr \<times> session) list"
  st_disk :: "(jstr \<times> session) list option"

definition persistLocked :: "bool \<Rightarrow> session_store \<Rightarrow> session_store" where
  "persistLocked written s = (if st_path s \<and> written then s\<lparr>st_disk := Some (st_map s)\<rparr> else s)"

definition session_create :: "crypto \<Rightarrow> int \<Rightarrow> bool \<Rightarrow> jstr \<Rightarrow> jstr \<Rightarrow> jstr \<Rightarrow> session_store \<Rightarrow> session_store" where
  "session_create c now written user stamp tok s =
     persistLocked written (s\<lparr>st_map := AList.update (cr_sha c tok)
       \<lparr>ss_user = user, ss_stamp = stamp, ss_expiry = now + st_ttl s\<rparr> (st_map s)\<rparr>)"

definition session_validate :: "crypto \<Rightarrow> int \<Rightarrow> bool \<Rightarrow> jstr \<Rightarrow> session_store \<Rightarrow> (jstr \<times> jstr) option \<times> session_store" where
  "session_validate c now written tok s =
     (let h = cr_sha c tok
      in case map_of (st_map s) h of
           None \<Rightarrow> (None, s)
         | Some x \<Rightarrow>
             if \<not> now < ss_expiry x then (None, persistLocked written (s\<lparr>st_map := AList.delete h (st_map s)\<rparr>))
             else (Some (ss_user x, ss_stamp x), s))"

definition session_delete :: "crypto \<Rightarrow> bool \<Rightarrow> jstr \<Rightarrow> session_store \<Rightarrow> session_store" where
  "session_delete c written tok s = persistLocked written (s\<lparr>st_map := AList.delete (cr_sha c tok) (st_map s)\<rparr>)"

definition session_sweep :: "int \<Rightarrow> bool \<Rightarrow> session_store \<Rightarrow> session_store" where
  "session_sweep now written s =
     (let m = filter (\<lambda>(h, x). now < ss_expiry x) (st_map s)
      in if length m < length (st_map s) then persistLocked written (s\<lparr>st_map := m\<rparr>) else s)"

text \<open>A store on start: the sessions of the file that have not expired.\<close>

definition newSessionStore :: "int \<Rightarrow> int \<Rightarrow> bool \<Rightarrow> (jstr \<times> session) list option \<Rightarrow> session_store" where
  "newSessionStore ttl now path disk =
     \<lparr>st_ttl = ttl, st_path = path,
      st_map = (if path then filter (\<lambda>(h, x). now < ss_expiry x) (nullish disk []) else []), st_disk = disk\<rparr>"

section \<open>Handlers\<close>

datatype outcome = AuditSuccess | AuditInvalid | AuditRateLimited

record audit_event =
  av_time :: int
  av_user :: jstr
  av_ip :: jstr
  av_outcome :: outcome

record server =
  sv_users :: "jstr \<rightharpoonup> dashboard_user"
  sv_sessions :: session_store
  sv_limiter :: limiter
  sv_audit :: "audit_event list"

datatype cookie_action = KeepCookie | SetCookie jstr | ClearCookie

text \<open>What the handlers hand to the audit log, in order; the file it is kept in is left out.\<close>

definition record_event :: "int \<Rightarrow> jstr \<Rightarrow> jstr \<Rightarrow> outcome \<Rightarrow> server \<Rightarrow> server" where
  "record_event now user ip out s =
     s\<lparr>sv_audit := sv_audit s @ [\<lparr>av_time = now, av_user = user, av_ip = ip, av_outcome = out\<rparr>]\<rparr>"

definition user_key :: "jstr \<Rightarrow> jstr \<Rightarrow> jstr" where
  "user_key user ip = user @ js ''|'' @ ip"

definition ip_key :: "jstr \<Rightarrow> jstr" where
  "ip_key ip = js ''ip|'' @ ip"

definition user_response :: "jstr \<Rightarrow> jstr response" where
  "user_response user = \<lparr>status = 200, json_body = Inr user, error_field = Inr None, body_text = []\<rparr>"

text \<open>
  The body is the name and the password it decodes to, \<open>tok\<close> the token made of the random bytes,
  if reading them succeeds.
\<close>

definition login_handler ::
  "crypto \<Rightarrow> int \<Rightarrow> bool \<Rightarrow> jstr option \<Rightarrow> jstr \<Rightarrow> (jstr \<times> jstr) option \<Rightarrow> server \<Rightarrow> jstr response \<times> cookie_action \<times> server" where
  "login_handler c now written tok ip body s =
     (case body of
        None \<Rightarrow> (empty_response 400, KeepCookie, s)
      | Some (user, pass) \<Rightarrow>
          (case LockedAny (sv_limiter s) now [user_key user ip, ip_key ip] of
             Some w \<Rightarrow> (empty_response 429, KeepCookie, record_event now user ip AuditRateLimited s)
           | None \<Rightarrow>
               if \<not> VerifyDashboardUser c (sv_users s) user pass
               then (empty_response 401, KeepCookie, record_event now user ip AuditInvalid
                      (s\<lparr>sv_limiter := Fail dashboard_policy now (ip_key ip)
                           (Fail dashboard_policy now (user_key user ip) (sv_limiter s))\<rparr>))
               else let s = s\<lparr>sv_limiter := Reset (user_key user ip) (sv_limiter s)\<rparr>;
                        stamp = nullish (DashboardCredentialStamp c (sv_users s) user) []
                    in case tok of
                         None \<Rightarrow> (empty_response 500, KeepCookie, s)
                       | Some t \<Rightarrow> (user_response user, SetCookie t, record_event now user ip AuditSuccess
                                     (s\<lparr>sv_sessions := session_create c now written user stamp t (sv_sessions s)\<rparr>))))"

definition logout_handler :: "crypto \<Rightarrow> bool \<Rightarrow> jstr option \<Rightarrow> server \<Rightarrow> unit response \<times> cookie_action \<times> server" where
  "logout_handler c written cookie s =
     (empty_response 204, ClearCookie,
      (case cookie of None \<Rightarrow> s | Some t \<Rightarrow> s\<lparr>sv_sessions := session_delete c written t (sv_sessions s)\<rparr>))"

text \<open>The user a request is served for, or \<open>None\<close> for the 401.\<close>

definition requireSession :: "crypto \<Rightarrow> int \<Rightarrow> bool \<Rightarrow> jstr option \<Rightarrow> server \<Rightarrow> jstr option \<times> server" where
  "requireSession c now written cookie s =
     (case cookie of
        None \<Rightarrow> (None, s)
      | Some t \<Rightarrow>
          (let (r, st) = session_validate c now written t (sv_sessions s); s = s\<lparr>sv_sessions := st\<rparr>
           in case r of
                None \<Rightarrow> (None, s)
              | Some (user, stamp) \<Rightarrow>
                  if DashboardCredentialStamp c (sv_users s) user = Some stamp then (Some user, s)
                  else (None, s\<lparr>sv_sessions := session_delete c written t (sv_sessions s)\<rparr>)))"

definition session_handler :: "crypto \<Rightarrow> int \<Rightarrow> bool \<Rightarrow> jstr option \<Rightarrow> server \<Rightarrow> jstr response \<times> server" where
  "session_handler c now written cookie s =
     (case requireSession c now written cookie s of
        (None, s) \<Rightarrow> (empty_response 401, s)
      | (Some user, s) \<Rightarrow> (user_response user, s))"

section \<open>The server as a machine\<close>

datatype server_event =
    SrvLogin int bool "jstr option" jstr "(jstr \<times> jstr) option"
  | SrvLogout bool "jstr option"
  | SrvRequest int bool "jstr option"
  | SrvSweep int bool
  | SrvSetUser bool jstr jstr jstr
  | SrvRestart int

text \<open>A restart loses what is only in memory: the limiter, and the sessions of a store without a file.\<close>

fun server_step :: "crypto \<Rightarrow> server \<Rightarrow> server_event \<Rightarrow> server" where
  "server_step c s (SrvLogin now written tok ip body) = snd (snd (login_handler c now written tok ip body s))"
| "server_step c s (SrvLogout written cookie) = snd (snd (logout_handler c written cookie s))"
| "server_step c s (SrvRequest now written cookie) = snd (requireSession c now written cookie s)"
| "server_step c s (SrvSweep now written) = s\<lparr>sv_sessions := session_sweep now written (sv_sessions s)\<rparr>"
| "server_step c s (SrvSetUser saved salt user pass) = s\<lparr>sv_users := snd (SetDashboardUser c saved salt user pass (sv_users s))\<rparr>"
| "server_step c s (SrvRestart now) =
     s\<lparr>sv_sessions := newSessionStore (st_ttl (sv_sessions s)) now (st_path (sv_sessions s)) (st_disk (sv_sessions s)),
       sv_limiter := Map.empty\<rparr>"

definition server_start :: "bool \<Rightarrow> (jstr \<rightharpoonup> dashboard_user) \<Rightarrow> server" where
  "server_start path users =
     \<lparr>sv_users = users, sv_sessions = newSessionStore (24 * 60 * 60 * 10 ^ 9) 0 path None, sv_limiter = Map.empty, sv_audit = []\<rparr>"

section \<open>The lockout of an address\<close>

definition ip_failures :: "jstr \<Rightarrow> server \<Rightarrow> int list" where
  "ip_failures ip s = map av_time (filter (\<lambda>a. av_ip a = ip \<and> av_outcome a = AuditInvalid) (sv_audit s))"

text \<open>The bucket of an address is not that of any user, unless a user is called ip.\<close>

lemma user_key_distinct:
  assumes "user \<noteq> js ''ip''" "0x7C \<notin> set ip" "0x7C \<notin> set ip'"
  shows "user_key user ip' \<noteq> ip_key ip"
proof
  assume k: "user_key user ip' = ip_key ip"
  have bar: "js ''|'' = [0x7C]" "js ''ip|'' = js ''ip'' @ [0x7C]" by (simp_all add: js_def unit_of_def)
  have "takeWhile (\<lambda>x. x \<noteq> 0x7C) (rev (xs @ [0x7C] @ ys)) = rev ys" if "0x7C \<notin> set ys" for xs ys :: jstr
    unfolding rev_append using that by (simp add: takeWhile_append)
  then have "rev ip' = rev ip" using arg_cong [OF k, of "\<lambda>x. takeWhile (\<lambda>x. x \<noteq> 0x7C) (rev x)"] assms(2,3)
    by (simp add: user_key_def ip_key_def bar)
  then show False using k assms(1) by (simp add: user_key_def ip_key_def bar)
qed

lemma ip_key_inject [simp]: "ip_key x = ip_key y \<longleftrightarrow> x = y"
  by (simp add: ip_key_def)

lemma LockedAny_None: "LockedAny l now [j, k] = None \<Longrightarrow> RetryAfter l now j = None \<and> RetryAfter l now k = None"
  by (auto simp: LockedAny_def split: option.splits)

lemma RetryAfter_fail_other: "RetryAfter l now k = None \<Longrightarrow> j \<noteq> k \<Longrightarrow> RetryAfter (Fail pol now j l) now k = None"
  by (auto simp: RetryAfter_def Fail_def Let_def pruneLocked_def split: option.splits if_splits)

fun login_time :: "server_event \<Rightarrow> int list" where
  "login_time (SrvLogin now _ _ _ _) = [now]"
| "login_time _ = []"

fun plain_login :: "server_event \<Rightarrow> bool" where
  "plain_login (SrvLogin _ _ _ ip body) = (0x7C \<notin> set ip \<and> map_option fst body \<noteq> Some (js ''ip''))"
| "plain_login (SrvRestart _) = False"
| "plain_login _ = True"

abbreviation ip_limited :: "jstr \<Rightarrow> int \<Rightarrow> server \<Rightarrow> bool" where
  "ip_limited ip now s \<equiv> dashboard.failures (sv_limiter s) (ip_key ip) now (ip_failures ip s)"

lemma record_event_simps [simp]:
  "sv_limiter (record_event now u ip out s) = sv_limiter s" "sv_sessions (record_event now u ip out s) = sv_sessions s"
  "sv_users (record_event now u ip out s) = sv_users s"
  "ip_failures x (record_event now u ip out s) = ip_failures x s @ (if ip = x \<and> out = AuditInvalid then [now] else [])"
  by (simp_all add: record_event_def ip_failures_def)

lemma ip_failures_cong: "sv_audit s = sv_audit t \<Longrightarrow> ip_failures x s = ip_failures x t"
  by (simp add: ip_failures_def)

lemma login_limited:
  assumes "ip_limited ip now s" "0x7C \<notin> set ip" "plain_login (SrvLogin now written tok ip' body)"
  shows "ip_limited ip now (snd (snd (login_handler c now written tok ip' body s)))"
proof (cases body)
  case None
  then show ?thesis using assms(1) by (simp add: login_handler_def)
next
  case (Some b)
  obtain user pass where b: "b = (user, pass)" by (cases b)
  have other: "user_key user ip' \<noteq> ip_key ip" "user_key user ip' \<noteq> ip_key ip'"
    using user_key_distinct [of user ip ip'] user_key_distinct [of user ip' ip'] assms(2,3) Some b by auto
  show ?thesis
  proof (cases "LockedAny (sv_limiter s) now [user_key user ip', ip_key ip']")
    case locked: (Some w)
    then show ?thesis using assms(1) by (simp add: login_handler_def Some b)
  next
    case None
    let ?l = "Fail dashboard_policy now (user_key user ip') (sv_limiter s)"
    have free: "RetryAfter ?l now (ip_key ip') = None"
      using LockedAny_None [OF None] other by (intro RetryAfter_fail_other) simp_all
    have l: "dashboard.failures ?l (ip_key ip) now (ip_failures ip s)"
      by (rule dashboard.fail_other [where l = "sv_limiter s", OF assms(1) order_refl other(1)])
    have failed: "dashboard.failures (Fail dashboard_policy now (ip_key ip') ?l) (ip_key ip) now
        (ip_failures ip s @ (if ip' = ip then [now] else []))"
    proof (cases "ip' = ip")
      case True
      then show ?thesis using dashboard.fail_own [where l = ?l, OF l order_refl] free by simp
    next
      case False
      then show ?thesis using dashboard.fail_other [where l = ?l and k' = "ip_key ip'", OF l order_refl] by simp
    qed
    have reset: "dashboard.failures (Reset (user_key user ip') (sv_limiter s)) (ip_key ip) now (ip_failures ip s)"
      by (rule dashboard.reset_other [where l = "sv_limiter s", OF assms(1) other(1)])
    have "ip_failures ip (s\<lparr>sv_limiter := x\<rparr>) = ip_failures ip s" "ip_failures ip (s\<lparr>sv_limiter := x, sv_sessions := y\<rparr>) = ip_failures ip s"
      for x y by (rule ip_failures_cong, simp)+
    then show ?thesis using failed reset None by (simp add: login_handler_def Some b Let_def split: option.split)
  qed
qed

lemma server_step_limited:
  assumes "ip_limited ip now s" "0x7C \<notin> set ip" "plain_login e" "\<And>t. t \<in> set (login_time e) \<Longrightarrow> t = now"
  shows "ip_limited ip now (server_step c s e)"
proof (cases e)
  case (SrvLogin t written tok ip' body)
  then show ?thesis using login_limited [OF assms(1,2)] assms(3,4) by simp
qed (use assms(1,3) in \<open>auto simp: logout_handler_def requireSession_def ip_failures_def Let_def case_prod_unfold split: option.split\<close>)

lemma server_limited:
  assumes "0x7C \<notin> set ip"
  shows "sorted (concat (map login_time es)) \<Longrightarrow> list_all plain_login es \<Longrightarrow> list_all (\<lambda>t. t \<le> now) (concat (map login_time es)) \<Longrightarrow>
    ip_limited ip now (foldl (server_step c) (server_start path users) es)"
proof (induction es arbitrary: now rule: rev_induct)
  case Nil
  have "sv_limiter (server_start path users) = (\<lambda>_. None)" "ip_failures ip (server_start path users) = []"
    by (simp_all add: server_start_def ip_failures_def)
  then show ?case using dashboard.no_failures [of now] by simp
next
  case (snoc e es)
  define m where "m = (case login_time e of [] \<Rightarrow> now | t # _ \<Rightarrow> t)"
  have m: "list_all (\<lambda>t. t \<le> m) (concat (map login_time es))" "m \<le> now" "t = m" if "t \<in> set (login_time e)" for t
    using snoc.prems that by (cases e; auto simp: m_def sorted_append list_all_iff)+
  have "list_all (\<lambda>t. t \<le> m) (concat (map login_time es))" "m \<le> now"
    using snoc.prems by (cases e; auto simp: m_def sorted_append list_all_iff)+
  then have "ip_limited ip m (foldl (server_step c) (server_start path users) es)"
    using snoc by (simp add: sorted_append)
  from server_step_limited [where e = e and c = c, OF this assms] snoc.prems(2) m(3)
  have "ip_limited ip m (foldl (server_step c) (server_start path users) (es @ [e]))" by simp
  then show ?case using \<open>m \<le> now\<close> by (rule dashboard.later)
qed


lemma LockedAny_empty: "LockedAny (\<lambda>_. None) now ks = None"
proof -
  have "foldl (\<lambda>acc k. acc) (None :: int option) ks = None" by (induction ks) simp_all
  then show ?thesis by (simp add: LockedAny_def RetryAfter_def)
qed


section \<open>Sessions are opened by passwords\<close>

text \<open>The log-in that opens a session, and the log-out that closes it.\<close>

fun opens :: "crypto \<Rightarrow> server \<Rightarrow> jstr \<Rightarrow> jstr \<Rightarrow> server_event \<Rightarrow> bool" where
  "opens c s tok user (SrvLogin now _ (Some t) ip (Some (u, pass))) \<longleftrightarrow>
     t = tok \<and> u = user \<and> LockedAny (sv_limiter s) now [user_key u ip, ip_key ip] = None \<and> VerifyDashboardUser c (sv_users s) u pass"
| "opens _ _ _ _ _ \<longleftrightarrow> False"

fun closes :: "jstr \<Rightarrow> server_event \<Rightarrow> bool" where
  "closes tok (SrvLogout _ (Some t)) \<longleftrightarrow> t = tok"
| "closes _ _ \<longleftrightarrow> False"

fun logout_written :: "server_event \<Rightarrow> bool" where
  "logout_written (SrvLogout written _) = written"
| "logout_written _ = True"

fun event_tokens :: "server_event \<Rightarrow> jstr list" where
  "event_tokens (SrvLogin _ _ (Some t) _ _) = [t]"
| "event_tokens _ = []"

definition stored :: "session_store \<Rightarrow> (jstr \<times> session) set" where
  "stored st = set (st_map st) \<union> set (nullish (st_disk st) [])"

lemma set_update: "set (AList.update k v m) \<subseteq> insert (k, v) (set m)"
  by (induction m) auto

lemma stored_persist: "stored (persistLocked w s) \<subseteq> stored s"
  by (auto simp: persistLocked_def stored_def)

lemma stored_map: "set m \<subseteq> X \<union> set (st_map s) \<Longrightarrow> stored (s\<lparr>st_map := m\<rparr>) \<subseteq> X \<union> stored s"
  by (auto simp: stored_def)

lemma stored_create: "stored (session_create c now w u stamp tok s) \<subseteq>
    insert (cr_sha c tok, \<lparr>ss_user = u, ss_stamp = stamp, ss_expiry = now + st_ttl s\<rparr>) (stored s)"
  unfolding session_create_def
  by (rule order_trans [OF stored_persist], rule stored_map [where X = "{_}", simplified], rule set_update)

lemma stored_delete: "stored (session_delete c w tok s) \<subseteq> stored s"
  unfolding session_delete_def
  by (rule order_trans [OF stored_persist], rule stored_map [where X = "{}", simplified]) (auto simp: AList.delete_eq)

lemma stored_validate: "stored (snd (session_validate c now w tok s)) \<subseteq> stored s"
  using stored_delete [of c w tok s] by (simp add: session_validate_def session_delete_def Let_def split: option.split)

lemma stored_sweep: "stored (session_sweep now w s) \<subseteq> stored s"
  using order_trans [OF stored_persist [of w] stored_map [where X = "{}" and s = s, simplified]]
  by (auto simp: session_sweep_def Let_def)

lemma stored_restart: "stored (newSessionStore ttl now path (st_disk s)) \<subseteq> stored s"
  by (auto simp: newSessionStore_def stored_def)

text \<open>A store without a file has nothing on disk.\<close>

definition store_ok :: "session_store \<Rightarrow> bool" where
  "store_ok s \<longleftrightarrow> st_ttl s = 24 * 60 * 60 * 10 ^ 9 \<and> (st_path s \<or> st_disk s = None)"

lemma store_ok_ops [simp]:
  "store_ok (s\<lparr>st_map := m\<rparr>) = store_ok s" "store_ok s \<Longrightarrow> store_ok (persistLocked w s)"
  "store_ok s \<Longrightarrow> store_ok (newSessionStore (st_ttl s) now (st_path s) (st_disk s))"
  by (auto simp: store_ok_def persistLocked_def newSessionStore_def)

lemma store_ok_validate [simp]: "store_ok s \<Longrightarrow> store_ok (snd (session_validate c now w tok s))"
  by (auto simp: session_validate_def Let_def split: option.split)

lemma stored_logout:
  assumes "store_ok s" "(h, x) \<in> stored (session_delete c True tok s)"
  shows "(h, x) \<in> stored s \<and> h \<noteq> cr_sha c tok"
  using assms by (auto simp: session_delete_def persistLocked_def stored_def store_ok_def AList.delete_eq split: if_splits)

lemma requireSession_sessions:
  "stored (sv_sessions (snd (requireSession c now w cookie s))) \<subseteq> stored (sv_sessions s) \<and>
   (store_ok (sv_sessions s) \<longrightarrow> store_ok (sv_sessions (snd (requireSession c now w cookie s))))"
proof (cases cookie)
  case (Some t)
  define st where "st = snd (session_validate c now w t (sv_sessions s))"
  have "stored (session_delete c w t st) \<subseteq> stored st" "stored st \<subseteq> stored (sv_sessions s)"
    "store_ok (sv_sessions s) \<Longrightarrow> store_ok st"
    unfolding st_def by (rule stored_delete stored_validate store_ok_validate; assumption?)+
  then show ?thesis
    by (auto simp: requireSession_def Some Let_def case_prod_unfold session_delete_def simp flip: st_def split: option.split)
qed (simp add: requireSession_def)

definition opened ::
  "crypto \<Rightarrow> server \<Rightarrow> server_event list \<Rightarrow> jstr \<Rightarrow> session \<Rightarrow> bool" where
  "opened c s es h x \<longleftrightarrow>
     (\<exists>before e after tok. es = before @ e # after \<and> cr_sha c tok = h \<and> opens c (foldl (server_step c) s before) tok (ss_user x) e \<and>
        tok \<in> set (event_tokens e) \<and> login_time e = [ss_expiry x - 24 * 60 * 60 * 10 ^ 9] \<and>
        (list_all logout_written es \<longrightarrow> list_all (\<lambda>e. \<not> closes tok e) after) \<and>
        DashboardCredentialStamp c (sv_users (foldl (server_step c) s before)) (ss_user x) = Some (ss_stamp x))"

lemma opened_later:
  assumes "opened c s es h x" "\<And>tok. cr_sha c tok = h \<Longrightarrow> logout_written e \<Longrightarrow> \<not> closes tok e"
  shows "opened c s (es @ [e]) h x"
proof -
  obtain before d after tok where o: "es = before @ d # after" "cr_sha c tok = h"
    "opens c (foldl (server_step c) s before) tok (ss_user x) d"
    "tok \<in> set (event_tokens d)" "login_time d = [ss_expiry x - 24 * 60 * 60 * 10 ^ 9]"
    "list_all logout_written es \<longrightarrow> list_all (\<lambda>e. \<not> closes tok e) after"
    "DashboardCredentialStamp c (sv_users (foldl (server_step c) s before)) (ss_user x) = Some (ss_stamp x)"
    using assms(1) unfolding opened_def by blast
  show ?thesis unfolding opened_def
    by (rule exI [of _ before], rule exI [of _ d], rule exI [of _ "after @ [e]"], rule exI [of _ tok])
      (use o assms(2) [OF o(2)] in simp)
qed

lemma VerifyDashboardUser_known: "VerifyDashboardUser c us u p \<Longrightarrow> \<exists>x. DashboardCredentialStamp c us u = Some x"
  by (simp add: VerifyDashboardUser_def DashboardCredentialStamp_def split: option.splits)

lemma login_stored:
  assumes "(h, x) \<in> stored (sv_sessions (snd (snd (login_handler c now w tok ip body s))))" "(h, x) \<notin> stored (sv_sessions s)"
  obtains t u pass where "tok = Some t" "body = Some (u, pass)" "h = cr_sha c t" "ss_user x = u"
    "ss_expiry x = now + st_ttl (sv_sessions s)" "DashboardCredentialStamp c (sv_users s) u = Some (ss_stamp x)"
    "LockedAny (sv_limiter s) now [user_key u ip, ip_key ip] = None" "VerifyDashboardUser c (sv_users s) u pass"
proof -
  obtain u pass where b: "body = Some (u, pass)" using assms by (cases body) (auto simp: login_handler_def)
  have free: "LockedAny (sv_limiter s) now [user_key u ip, ip_key ip] = None"
    using assms by (auto simp: login_handler_def b split: option.splits)
  have ok: "VerifyDashboardUser c (sv_users s) u pass"
    using assms by (rule_tac ccontr) (simp add: login_handler_def b free)
  obtain t where t: "tok = Some t" using assms by (cases tok) (auto simp: login_handler_def b free ok Let_def)
  obtain stamp where stamp: "DashboardCredentialStamp c (sv_users s) u = Some stamp" using VerifyDashboardUser_known [OF ok] by blast
  have "(h, x) \<in> stored (session_create c now w u stamp t (sv_sessions s))"
    using assms(1) by (simp add: login_handler_def b free ok t stamp Let_def)
  then have "(h, x) = (cr_sha c t, \<lparr>ss_user = u, ss_stamp = stamp, ss_expiry = now + st_ttl (sv_sessions s)\<rparr>)"
    using stored_create assms(2) by blast
  then show thesis using that [OF t b] free ok stamp by simp
qed

lemma login_store_ok: "store_ok (sv_sessions s) \<Longrightarrow> store_ok (sv_sessions (snd (snd (login_handler c now w tok ip body s))))"
  by (simp add: login_handler_def session_create_def Let_def split: option.split prod.split)

lemma server_step_store_ok: "store_ok (sv_sessions s) \<Longrightarrow> store_ok (sv_sessions (server_step c s e))"
  using login_store_ok requireSession_sessions
  by (cases e) (auto simp: logout_handler_def session_delete_def session_sweep_def Let_def split: option.split)

lemma other_stored: "login_time e = [] \<Longrightarrow> stored (sv_sessions (server_step c s e)) \<subseteq> stored (sv_sessions s)"
  using requireSession_sessions stored_delete stored_sweep stored_restart
  by (cases e) (simp_all add: logout_handler_def split: option.split)

lemma sessions_opened:
  "store_ok (sv_sessions (foldl (server_step c) (server_start path users) es)) \<and>
    (\<forall>h x. (h, x) \<in> stored (sv_sessions (foldl (server_step c) (server_start path users) es)) \<longrightarrow>
      opened c (server_start path users) es h x)"
proof (induction es rule: rev_induct)
  case Nil
  then show ?case by (simp add: server_start_def newSessionStore_def stored_def store_ok_def)
next
  case (snoc e es)
  let ?s = "foldl (server_step c) (server_start path users) es"
  have ih: "store_ok (sv_sessions ?s)" "\<And>h x. (h, x) \<in> stored (sv_sessions ?s) \<Longrightarrow> opened c (server_start path users) es h x"
    using snoc by simp_all
  have "opened c (server_start path users) (es @ [e]) h x" if new: "(h, x) \<in> stored (sv_sessions (server_step c ?s e))" for h x
  proof (cases "(h, x) \<in> stored (sv_sessions ?s)")
    case True
    have "\<not> closes tok e" if "cr_sha c tok = h" "logout_written e" for tok
      using new that stored_logout [OF ih(1)]
      by (cases "(tok, e)" rule: closes.cases) (auto simp: logout_handler_def)
    with ih(2) [OF True] show ?thesis by (rule opened_later)
  next
    case False
    then obtain now w tok ip body where e: "e = SrvLogin now w tok ip body"
      using new other_stored [of e c ?s] by (cases e) auto
    obtain t u pass where l: "tok = Some t" "body = Some (u, pass)" "h = cr_sha c t" "ss_user x = u"
      "ss_expiry x = now + st_ttl (sv_sessions ?s)" "DashboardCredentialStamp c (sv_users ?s) u = Some (ss_stamp x)"
      "LockedAny (sv_limiter ?s) now [user_key u ip, ip_key ip] = None" "VerifyDashboardUser c (sv_users ?s) u pass"
      using login_stored [of h x c now w tok ip body ?s] new False by (auto simp: e)
    then show ?thesis unfolding opened_def
      by (intro exI [of _ es] exI [of _ e] exI [of _ "[]"] exI [of _ t]) (use ih(1) in \<open>simp add: e store_ok_def\<close>)
  qed
  then show ?case using server_step_store_ok [OF ih(1)] by simp
qed

lemma requireSession_served:
  assumes "fst (requireSession c now w (Some tok) s) = Some u"
  obtains x where "(cr_sha c tok, x) \<in> stored (sv_sessions s)" "ss_user x = u" "now < ss_expiry x"
    "DashboardCredentialStamp c (sv_users s) u = Some (ss_stamp x)"
proof -
  obtain x where x: "map_of (st_map (sv_sessions s)) (cr_sha c tok) = Some x"
    using assms by (cases "map_of (st_map (sv_sessions s)) (cr_sha c tok)") (simp_all add: requireSession_def session_validate_def)
  then have "now < ss_expiry x \<and> ss_user x = u \<and> DashboardCredentialStamp c (sv_users s) u = Some (ss_stamp x)"
    using assms by (simp add: requireSession_def session_validate_def split: if_splits)
  moreover have "(cr_sha c tok, x) \<in> stored (sv_sessions s)" using map_of_SomeD [OF x] by (simp add: stored_def)
  ultimately show thesis using that by blast
qed

lemma session_opened:
  assumes "fst (requireSession c now w (Some tok) (foldl (server_step c) (server_start path users) es)) = Some u"
    and "inj_on (cr_sha c) (insert tok (set (concat (map event_tokens es))))"
  obtains before e after where "es = before @ e # after"
    "opens c (foldl (server_step c) (server_start path users) before) tok u e"
    "list_all (\<lambda>t. now < t + 24 * 60 * 60 * 10 ^ 9) (login_time e)"
    "list_all logout_written es \<longrightarrow> list_all (\<lambda>e. \<not> closes tok e) after"
    "DashboardCredentialStamp c (sv_users (foldl (server_step c) (server_start path users) es)) u =
    DashboardCredentialStamp c (sv_users (foldl (server_step c) (server_start path users) before)) u"
proof -
  from requireSession_served [OF assms(1)] obtain x where
    x: "(cr_sha c tok, x) \<in> stored (sv_sessions (foldl (server_step c) (server_start path users) es))" "ss_user x = u" "now < ss_expiry x"
    "DashboardCredentialStamp c (sv_users (foldl (server_step c) (server_start path users) es)) u = Some (ss_stamp x)" .
  then have "opened c (server_start path users) es (cr_sha c tok) x" using sessions_opened by blast
  then obtain before e after tok' where o: "es = before @ e # after" "cr_sha c tok' = cr_sha c tok"
    "opens c (foldl (server_step c) (server_start path users) before) tok' u e" "tok' \<in> set (event_tokens e)"
    "login_time e = [ss_expiry x - 24 * 60 * 60 * 10 ^ 9]" "list_all logout_written es \<longrightarrow> list_all (\<lambda>e. \<not> closes tok' e) after"
    "DashboardCredentialStamp c (sv_users (foldl (server_step c) (server_start path users) before)) u = Some (ss_stamp x)"
    unfolding opened_def x(2) by blast
  have "tok' = tok" using inj_onD [OF assms(2) o(2)] o(1,4) by simp
  then show thesis using o x(3,4) by (intro that [of before e after]) simp_all
qed


text \<open>A toy cryptography for the examples: everything is its own hash.\<close>

definition plain_crypto :: crypto where
  "plain_crypto = \<lparr>cr_encode = (\<lambda>x. x), cr_decode = Some, cr_kdf = (\<lambda>p s n l. Some p), cr_sha = (\<lambda>x. x)\<rparr>"

definition one_user :: "jstr \<rightharpoonup> dashboard_user" where
  "one_user = snd (SetDashboardUser plain_crypto True [] (js ''admin'') (js ''pw'') Map.empty)"

lemma one_user_admin: "one_user (js ''admin'') =
    Some \<lparr>du_pbkdf2 = js ''pw'', du_salt = [], du_iter = dashboardPBKDF2Iter\<rparr>"
  by (simp add: one_user_def SetDashboardUser_def plain_crypto_def js_def)

lemma plain_sha [simp]: "cr_sha plain_crypto = (\<lambda>x. x)" "cr_decode plain_crypto = Some" "cr_kdf plain_crypto p s n l = Some p"
  by (simp_all add: plain_crypto_def)

lemma LockedAny_start [simp]: "LockedAny Map.empty now ks = None"
  by (rule LockedAny_empty)

lemmas session_eval = requireSession_def session_validate_def session_create_def session_delete_def persistLocked_def
  login_handler_def logout_handler_def server_start_def newSessionStore_def record_event_def Reset_def
  VerifyDashboardUser_def DashboardCredentialStamp_def one_user_admin Let_def


text \<open>The failing write of a log-out is only logged: a restart brings the session back.\<close>

lemma logout_undone:
  "fst (requireSession plain_crypto 9 True (Some (js ''t'')) (foldl (server_step plain_crypto) (server_start True one_user)
     [SrvLogin 7 True (Some (js ''t'')) [] (Some (js ''admin'', js ''pw'')), SrvLogout False (Some (js ''t'')), SrvRestart 8])) =
   Some (js ''admin'')"
  by (simp add: session_eval)

text \<open>A user called ip has the bucket of the address: a log-in of his clears it.\<close>

lemma ip_user_resets: "Reset (user_key (js ''ip'') a) l (ip_key a) = None"
  by (simp add: Reset_def user_key_def ip_key_def js_def)

end
