(* ===== verification/SignIn.thy ===== *)
theory SignIn imports SessionStore Session begin

text \<open>
  The application frame and the server together: the browser keeps the session cookie, the
  requests of App.tsx and Login.tsx reach the handlers, and their answers arrive later or are
  lost. In between the server may do anything else: other clients, restarts, new passwords.
\<close>

section \<open>State\<close>

text \<open>
  \<open>si_history\<close> lists what the server did. \<open>si_asked\<close> says that the session request of the mount
  effect was served, \<open>si_session\<close> and \<open>si_login\<close> are the answers under way, and \<open>si_sent\<close> the
  log-in request that has not been served yet.
\<close>

record site =
  si_frame :: frame
  si_jar :: "jstr option"
  si_server :: server
  si_history :: "server_event list"
  si_asked :: bool
  si_session :: "jstr fetched option"
  si_sent :: "request option"
  si_login :: "(jstr \<times> unit fetched \<times> cookie_action) option"

text \<open>Loading the page drops what was under way; a hash that cannot be decoded leaves no page.\<close>

definition load_page :: "jstr \<Rightarrow> site \<Rightarrow> site" where
  "load_page hash s =
     (case boot hash None of
        Inl _ \<Rightarrow> s
      | Inr f \<Rightarrow> s\<lparr>si_frame := f, si_asked := False, si_session := None, si_sent := None, si_login := None\<rparr>)"

definition site_start :: "bool \<Rightarrow> (jstr \<rightharpoonup> dashboard_user) \<Rightarrow> jstr option \<Rightarrow> frame \<Rightarrow> site" where
  "site_start path users jar f =
     \<lparr>si_frame = f, si_jar = jar, si_server = server_start path users, si_history = [], si_asked = False,
      si_session = None, si_sent = None, si_login = None\<rparr>"

definition serve :: "crypto \<Rightarrow> server_event \<Rightarrow> site \<Rightarrow> site" where
  "serve c e s = s\<lparr>si_server := server_step c (si_server s) e, si_history := si_history s @ [e]\<rparr>"

text \<open>The body of \<open>login\<close> in api.ts as the server decodes it.\<close>

definition login_body :: "request \<Rightarrow> (jstr \<times> jstr) option" where
  "login_body r =
     (case req_body r of
        None \<Rightarrow> None
      | Some d \<Rightarrow> (case (field (js ''User'') d, field (js ''Pass'') d) of
                    (Some (JStr u), Some (JStr p)) \<Rightarrow> Some (u, p)
                  | _ \<Rightarrow> None))"

section \<open>Steps\<close>

definition ask_session :: "crypto \<Rightarrow> int \<Rightarrow> bool \<Rightarrow> site \<Rightarrow> site" where
  "ask_session c now w s =
     (if si_asked s then s
      else (serve c (SrvRequest now w (si_jar s)) s)
             \<lparr>si_asked := True, si_session := Some (Response (fst (session_handler c now w (si_jar s) (si_server s))))\<rparr>)"

definition tell_session :: "site \<Rightarrow> site" where
  "tell_session s =
     (case si_session s of
        None \<Rightarrow> s
      | Some f \<Rightarrow> s\<lparr>si_session := None, si_frame := frame_step (si_frame s) (SessionAnswered f)\<rparr>)"

text \<open>\<open>submit\<close> builds the request from the fields as they are when the button is clicked.\<close>

definition site_submit :: "site \<Rightarrow> site" where
  "site_submit s =
     (if App (si_frame s) = LoginPage \<and> \<not> lf_busy (fr_login (si_frame s))
      then s\<lparr>si_frame := frame_step (si_frame s) Submit,
             si_sent := Some (login_req (lf_user (fr_login (si_frame s))) (lf_pass (fr_login (si_frame s))))\<rparr>
      else s)"

definition ask_login :: "crypto \<Rightarrow> int \<Rightarrow> bool \<Rightarrow> jstr option \<Rightarrow> jstr \<Rightarrow> site \<Rightarrow> site" where
  "ask_login c now w tok ip s =
     (case si_sent s of
        None \<Rightarrow> s
      | Some r \<Rightarrow>
          (let (resp, act, _) = login_handler c now w tok ip (login_body r) (si_server s)
           in (serve c (SrvLogin now w tok ip (login_body r)) s)
                \<lparr>si_sent := None,
                 si_login := Some (lf_user (fr_login (si_frame s)),
                   Response \<lparr>status = status resp, json_body = Inr (), error_field = error_field resp, body_text = body_text resp\<rparr>, act)\<rparr>))"

text \<open>The browser takes the cookie of an answer over, then the handler of the form goes on.\<close>

definition set_cookie :: "cookie_action \<Rightarrow> jstr option \<Rightarrow> jstr option" where
  "set_cookie act jar = (case act of KeepCookie \<Rightarrow> jar | SetCookie t \<Rightarrow> Some t | ClearCookie \<Rightarrow> None)"

definition tell_login :: "site \<Rightarrow> site" where
  "tell_login s =
     (case si_login s of
        None \<Rightarrow> s
      | Some (u, f, act) \<Rightarrow>
          s\<lparr>si_login := None, si_jar := set_cookie act (si_jar s), si_frame := frame_step (si_frame s) (LoginAnswered u f)\<rparr>)"

definition lose_login :: "js_error \<Rightarrow> site \<Rightarrow> site" where
  "lose_login e s =
     (if si_sent s = None \<and> si_login s = None then s
      else s\<lparr>si_sent := None, si_login := None, si_frame := frame_step (si_frame s) (LoginAnswered [] (NetworkError e))\<rparr>)"

datatype site_event =
    Load jstr
  | AskSession int bool
  | TellSession
  | LoseSession
  | Password jstr
  | PressSignIn
  | AskLogin int bool "jstr option" jstr
  | TellLogin
  | LoseLogin js_error
  | PressSignOut
  | GoTo jstr
  | Crash
  | Elsewhere server_event

fun site_step :: "crypto \<Rightarrow> site \<Rightarrow> site_event \<Rightarrow> site" where
  "site_step c s (Load h) = load_page h s"
| "site_step c s (AskSession now w) = ask_session c now w s"
| "site_step c s TellSession = tell_session s"
| "site_step c s LoseSession = s\<lparr>si_asked := True, si_session := None\<rparr>"
| "site_step c s (Password p) = s\<lparr>si_frame := frame_step (si_frame s) (TypePass p)\<rparr>"
| "site_step c s PressSignIn = site_submit s"
| "site_step c s (AskLogin now w tok ip) = ask_login c now w tok ip s"
| "site_step c s TellLogin = tell_login s"
| "site_step c s (LoseLogin e) = lose_login e s"
| "site_step c s PressSignOut = s\<lparr>si_frame := frame_step (si_frame s) SignOut\<rparr>"
| "site_step c s (GoTo h) = s\<lparr>si_frame := frame_step (si_frame s) (Hash h)\<rparr>"
| "site_step c s Crash = s\<lparr>si_frame := frame_step (si_frame s) RenderFailed\<rparr>"
| "site_step c s (Elsewhere e) = serve c e s"

section \<open>Where a shown page comes from\<close>

definition issued :: "crypto \<Rightarrow> server \<Rightarrow> server_event list \<Rightarrow> jstr \<Rightarrow> bool" where
  "issued c s0 h t \<longleftrightarrow> (\<exists>before e after u. h = before @ e # after \<and> opens c (foldl (server_step c) s0 before) t u e)"

definition granted :: "crypto \<Rightarrow> server \<Rightarrow> server_event list \<Rightarrow> jstr option \<Rightarrow> bool" where
  "granted c s0 h jar \<longleftrightarrow> (\<exists>t. jar = Some t \<and> issued c s0 h t)"

fun login_pending :: "crypto \<Rightarrow> server \<Rightarrow> server_event list \<Rightarrow> (jstr \<times> unit fetched \<times> cookie_action) option \<Rightarrow> bool" where
  "login_pending c s0 h (Some (u, Response r, act)) \<longleftrightarrow>
     (if status r = 200 then \<exists>t. act = SetCookie t \<and> issued c s0 h t else act = KeepCookie)"
| "login_pending c s0 h (Some (u, NetworkError e, act)) \<longleftrightarrow> False"
| "login_pending c s0 h None \<longleftrightarrow> True"

definition session_pending :: "crypto \<Rightarrow> server \<Rightarrow> server_event list \<Rightarrow> jstr option \<Rightarrow> jstr fetched option \<Rightarrow> bool" where
  "session_pending c s0 h jar f \<longleftrightarrow> (\<forall>r. f = Some (Response r) \<longrightarrow> status r = 200 \<longrightarrow> granted c s0 h jar)"

definition history_ok :: "crypto \<Rightarrow> server \<Rightarrow> jstr set \<Rightarrow> server \<Rightarrow> server_event list \<Rightarrow> jstr option \<Rightarrow> bool" where
  "history_ok c s0 T v h jar \<longleftrightarrow> v = foldl (server_step c) s0 h \<and>
     set (concat (map event_tokens h)) \<subseteq> T \<and> set_option jar \<subseteq> T"

definition site_inv :: "crypto \<Rightarrow> server \<Rightarrow> jstr set \<Rightarrow> site \<Rightarrow> bool" where
  "site_inv c s0 T s \<longleftrightarrow> history_ok c s0 T (si_server s) (si_history s) (si_jar s) \<and>
     (fr_authed (si_frame s) = Some True \<longrightarrow> granted c s0 (si_history s) (si_jar s)) \<and>
     session_pending c s0 (si_history s) (si_jar s) (si_session s) \<and> login_pending c s0 (si_history s) (si_login s)"

fun site_tokens :: "site_event \<Rightarrow> jstr list" where
  "site_tokens (AskLogin _ _ tok _) = (case tok of None \<Rightarrow> [] | Some t \<Rightarrow> [t])"
| "site_tokens (Elsewhere e) = event_tokens e"
| "site_tokens _ = []"

lemma issued_later: "issued c s0 h t \<Longrightarrow> issued c s0 (h @ [e]) t"
  unfolding issued_def by (metis append.assoc append_Cons)

lemma opens_tokens: "opens c s t u e \<Longrightarrow> t \<in> set (event_tokens e)"
  by (cases "(c, s, t, u, e)" rule: opens.cases) auto

lemma issued_tokens: "issued c s0 h t \<Longrightarrow> t \<in> set (concat (map event_tokens h))"
  unfolding issued_def using opens_tokens by fastforce

lemma serve_simps [simp]:
  "si_frame (serve c e s) = si_frame s" "si_jar (serve c e s) = si_jar s" "si_session (serve c e s) = si_session s"
  "si_login (serve c e s) = si_login s" "si_history (serve c e s) = si_history s @ [e]"
  "si_server (serve c e s) = server_step c (si_server s) e"
  by (simp_all add: serve_def)

lemma history_serve:
  "history_ok c s0 T v h jar \<Longrightarrow> set (event_tokens e) \<subseteq> T \<Longrightarrow> history_ok c s0 T (server_step c v e) (h @ [e]) jar"
  by (simp add: history_ok_def)

lemma granted_serve: "granted c s0 h jar \<Longrightarrow> granted c s0 (h @ [e]) jar"
  using issued_later by (auto simp: granted_def)

lemma login_pending_serve: "login_pending c s0 h l \<Longrightarrow> login_pending c s0 (h @ [e]) l"
  using issued_later by (cases "(c, s0, h, l)" rule: login_pending.cases) (auto split: if_splits)

lemma site_inv_serve: "site_inv c s0 T s \<Longrightarrow> set (event_tokens e) \<subseteq> T \<Longrightarrow> site_inv c s0 T (serve c e s)"
  by (simp add: site_inv_def history_serve granted_serve login_pending_serve session_pending_def)

text \<open>An event of the frame that confirms nothing.\<close>

lemma site_inv_frame:
  assumes "site_inv c s0 T s" "fr_authed f = Some True \<Longrightarrow> fr_authed (si_frame s) = Some True"
  shows "site_inv c s0 T (s\<lparr>si_frame := f\<rparr>)"
  using assms by (simp add: site_inv_def)

lemma frame_no_grant: "\<not> grants e \<Longrightarrow> fr_authed (frame_step f e) = Some True \<Longrightarrow> fr_authed f = Some True"
  using authed_step by blast

lemma boot_unknown: "boot h k = Inr f \<Longrightarrow> fr_authed f = None"
  by (auto simp: boot_def map_result_def split: sum.splits)

lemma login_issues:
  assumes "login_handler c now w tok ip body s = (resp, act, s')"
  shows "if status resp = 200 then \<exists>t u. act = SetCookie t \<and> opens c s t u (SrvLogin now w tok ip body) else act = KeepCookie"
  using assms by (auto simp: login_handler_def user_response_def Let_def split: option.splits if_splits prod.splits)

lemma session_served:
  "status (fst (session_handler c now w k s)) = 200 \<Longrightarrow> \<exists>t u. k = Some t \<and> fst (requireSession c now w (Some t) s) = Some u"
  by (cases k) (auto simp: session_handler_def requireSession_def split: prod.splits option.splits)

abbreviation site_ok :: "crypto \<Rightarrow> bool \<Rightarrow> (jstr \<rightharpoonup> dashboard_user) \<Rightarrow> jstr set \<Rightarrow> site \<Rightarrow> bool" where
  "site_ok c path users T \<equiv> site_inv c (server_start path users) T"

lemma ask_session_ok:
  assumes i: "site_ok c path users T s" and hashes: "inj_on (cr_sha c) T"
  shows "site_ok c path users T (ask_session c now w s)"
proof (cases "si_asked s")
  case False
  let ?r = "fst (session_handler c now w (si_jar s) (si_server s))" and ?e = "SrvRequest now w (si_jar s)"
  have h: "si_server s = foldl (server_step c) (server_start path users) (si_history s)" using i by (simp add: site_inv_def history_ok_def)
  have "granted c (server_start path users) (si_history s) (si_jar s)" if ok: "status ?r = 200"
  proof -
    obtain t u where t: "si_jar s = Some t" "fst (requireSession c now w (Some t) (si_server s)) = Some u"
      using session_served [OF ok] by blast
    have "inj_on (cr_sha c) (insert t (set (concat (map event_tokens (si_history s)))))"
      using i t(1) by (intro inj_on_subset [OF hashes]) (simp add: site_inv_def history_ok_def)
    then show ?thesis
      using session_opened [OF t(2) [unfolded h]] t(1) unfolding granted_def issued_def by metis
  qed
  then have "session_pending c (server_start path users) (si_history s @ [?e]) (si_jar s) (Some (Response ?r))"
    by (simp add: session_pending_def granted_serve)
  moreover have "site_ok c path users T (serve c ?e s)" using i by (rule site_inv_serve) simp
  ultimately show ?thesis using False by (simp add: ask_session_def site_inv_def)
qed (use i in \<open>simp add: ask_session_def\<close>)

lemma tell_session_ok: "site_ok c path users T s \<Longrightarrow> site_ok c path users T (tell_session s)"
proof (cases "si_session s")
  case (Some f)
  assume i: "site_ok c path users T s"
  have "granted c (server_start path users) (si_history s) (si_jar s)"
    if "fr_authed (frame_step (si_frame s) (SessionAnswered f)) = Some True"
    using authed_step [OF that] i Some by (cases f) (auto simp: site_inv_def session_pending_def)
  with i Some show ?thesis by (simp add: tell_session_def site_inv_def session_pending_def del: frame_step.simps)
qed (simp add: tell_session_def)

lemma ask_login_ok:
  assumes "site_ok c path users T s" "set_option tok \<subseteq> T"
  shows "site_ok c path users T (ask_login c now w tok ip s)"
proof (cases "si_sent s")
  case (Some r)
  let ?e = "SrvLogin now w tok ip (login_body r)"
  obtain resp act s' where h: "login_handler c now w tok ip (login_body r) (si_server s) = (resp, act, s')"
    by (rule prod_cases3)
  have "set (event_tokens ?e) \<subseteq> T" using assms(2) by (cases tok) simp_all
  with assms(1) have "site_ok c path users T (serve c ?e s)" by (rule site_inv_serve)
  moreover have "issued c (server_start path users) (si_history s @ [?e]) t" if "opens c (si_server s) t u ?e" for t u
    using that assms(1) unfolding issued_def by (auto simp: site_inv_def history_ok_def)
  then have "if status resp = 200 then \<exists>t. act = SetCookie t \<and> issued c (server_start path users) (si_history s @ [?e]) t else act = KeepCookie"
    using login_issues [OF h] by (auto split: if_splits)
  ultimately show ?thesis using Some by (simp add: ask_login_def h site_inv_def)
qed (use assms(1) in \<open>simp add: ask_login_def\<close>)

lemma tell_login_ok: "site_ok c path users T s \<Longrightarrow> site_ok c path users T (tell_login s)"
proof (cases "si_login s")
  case (Some a)
  assume i: "site_ok c path users T s"
  obtain u r act where a: "a = (u, Response r, act)"
    using i Some by (cases "(c, server_start path users, si_history s, si_login s)" rule: login_pending.cases) (auto simp: site_inv_def)
  show ?thesis
  proof (cases "status r = 200")
    case True
    then obtain t where t: "act = SetCookie t" "issued c (server_start path users) (si_history s) t"
      using i Some by (auto simp: a site_inv_def)
    have "t \<in> T" using i issued_tokens [OF t(2)] by (auto simp: site_inv_def history_ok_def)
    with i t show ?thesis
      by (simp add: tell_login_def Some a set_cookie_def site_inv_def history_ok_def granted_def session_pending_def del: frame_step.simps)
  next
    case False
    then have act: "act = KeepCookie" using i Some by (simp add: a site_inv_def)
    have "fr_authed (si_frame s) = Some True" if "fr_authed (frame_step (si_frame s) (LoginAnswered u (Response r))) = Some True"
      by (rule frame_no_grant [OF _ that]) (simp add: False)
    with i act show ?thesis by (simp add: tell_login_def Some a set_cookie_def site_inv_def del: frame_step.simps)
  qed
qed (simp add: tell_login_def)

lemma load_page_ok: "site_ok c path users T s \<Longrightarrow> site_ok c path users T (load_page h s)"
  using boot_unknown [of h None]
  by (cases "boot h None") (simp_all add: load_page_def site_inv_def session_pending_def)

lemma lose_login_ok: "site_ok c path users T s \<Longrightarrow> site_ok c path users T (lose_login e s)"
  using frame_no_grant [of "LoginAnswered [] (NetworkError e)" "si_frame s"]
  by (simp add: lose_login_def site_inv_def del: frame_step.simps)

lemma site_submit_ok: "site_ok c path users T s \<Longrightarrow> site_ok c path users T (site_submit s)"
  using frame_no_grant [of Submit "si_frame s"] by (simp add: site_submit_def site_inv_def del: frame_step.simps)

lemma site_step_ok: "inj_on (cr_sha c) T \<Longrightarrow> site_ok c path users T s \<Longrightarrow> set (site_tokens e) \<subseteq> T \<Longrightarrow> site_ok c path users T (site_step c s e)"
proof (cases e)
  case (AskLogin now w tok ip)
  assume "site_ok c path users T s" "set (site_tokens e) \<subseteq> T"
  then show ?thesis using AskLogin ask_login_ok [of c path users T s tok] by (cases tok) simp_all
next
  case LoseSession
  assume "site_ok c path users T s"
  with LoseSession show ?thesis by (simp add: site_inv_def session_pending_def)
next
  case (Password p)
  assume "site_ok c path users T s"
  then show ?thesis unfolding Password site_step.simps by (rule site_inv_frame) (rule frame_no_grant [of "TypePass p"], simp)
next
  case PressSignOut
  assume "site_ok c path users T s"
  then show ?thesis unfolding PressSignOut site_step.simps by (rule site_inv_frame) (rule frame_no_grant [of SignOut], simp)
next
  case (GoTo h)
  assume "site_ok c path users T s"
  then show ?thesis unfolding GoTo site_step.simps by (rule site_inv_frame) (rule frame_no_grant [of "Hash h"], simp)
next
  case Crash
  assume "site_ok c path users T s"
  then show ?thesis unfolding Crash site_step.simps by (rule site_inv_frame) (rule frame_no_grant [of RenderFailed], simp)
qed (simp_all add: ask_session_ok tell_session_ok tell_login_ok load_page_ok lose_login_ok site_submit_ok site_inv_serve)

lemma site_run_ok:
  "inj_on (cr_sha c) T \<Longrightarrow> boot hash None = Inr f \<Longrightarrow> set_option jar \<subseteq> T \<Longrightarrow> set (concat (map site_tokens es)) \<subseteq> T \<Longrightarrow>
   site_ok c path users T (foldl (site_step c) (site_start path users jar f) es)"
proof (induction es rule: rev_induct)
  case Nil
  then show ?case using boot_unknown
    by (simp add: site_start_def site_inv_def history_ok_def session_pending_def)
next
  case (snoc e es)
  then show ?case using site_step_ok by simp
qed

text \<open>C1. No page without a password, from the browser to the server: whatever the address and the
  cookie the browser starts with, whenever a page of the application is shown, the browser holds a
  token the server issued to somebody who was not locked out and gave the password of a user.
  Answers may be late or lost, and the server may do anything else in between.\<close>

theorem signed_in_by_password:
  assumes "boot hash None = Inr f" "App (si_frame (foldl (site_step c) (site_start path users jar f) es)) = Shell ctx p"
    and "inj_on (cr_sha c) (set_option jar \<union> set (concat (map site_tokens es)))"
  shows "\<exists>tok u before e after. si_jar (foldl (site_step c) (site_start path users jar f) es) = Some tok \<and>
    si_history (foldl (site_step c) (site_start path users jar f) es) = before @ e # after \<and>
    opens c (foldl (server_step c) (server_start path users) before) tok u e"
proof -
  let ?s = "foldl (site_step c) (site_start path users jar f) es"
  have "fr_authed (si_frame ?s) = Some True" using assms(2) App_shell by metis
  moreover have "site_ok c path users (set_option jar \<union> set (concat (map site_tokens es))) ?s"
    by (rule site_run_ok [OF assms(3,1)]) simp_all
  ultimately show ?thesis unfolding site_inv_def granted_def issued_def by blast
qed

section \<open>Signing in works, and what it tells\<close>

lemma login_accepted:
  assumes "LockedAny (sv_limiter v) now [user_key u ip, ip_key ip] = None" "VerifyDashboardUser c (sv_users v) u p"
  obtains v' where "login_handler c now w (Some t) ip (Some (u, p)) v = (user_response u, SetCookie t, v')"
  using assms by (simp add: login_handler_def Let_def)

text \<open>The right password, from an address and for a user that are not locked out, opens the shell.\<close>

lemma sign_in_works:
  assumes "App (si_frame s) = LoginPage" "\<not> lf_busy (fr_login (si_frame s))"
    and "LockedAny (sv_limiter (si_server s)) now [user_key (lf_user (fr_login (si_frame s))) ip, ip_key ip] = None"
    and "VerifyDashboardUser c (sv_users (si_server s)) (lf_user (fr_login (si_frame s))) p"
  shows "\<exists>x q. App (si_frame (foldl (site_step c) s [Password p, PressSignIn, AskLogin now w (Some t) ip, TellLogin])) = Shell x q \<and>
    si_jar (foldl (site_step c) s [Password p, PressSignIn, AskLogin now w (Some t) ip, TellLogin]) = Some t"
proof -
  obtain v' where h: "login_handler c now w (Some t) ip (Some (lf_user (fr_login (si_frame s)), p)) (si_server s) =
      (user_response (lf_user (fr_login (si_frame s))), SetCookie t, v')"
    using login_accepted [OF assms(3,4)] by blast
  have "login_body (login_req u p) = Some (u, p)" for u
    by (simp add: login_body_def login_req_def send_def js_def)
  then show ?thesis using assms(1,2) h
    by (simp add: App_shell App_login site_submit_def ask_login_def tell_login_def set_pass_def submit_def
        login_answered_def login_res_def user_response_def set_cookie_def)
qed

text \<open>
  A lockout is not told apart from a wrong password: the right one is answered with "invalid username
  or password" as long as the lock lasts.
\<close>

lemma lockout_looks_wrong:
  assumes "App (si_frame s) = LoginPage" "\<not> lf_busy (fr_login (si_frame s))"
    and "LockedAny (sv_limiter (si_server s)) now [user_key (lf_user (fr_login (si_frame s))) ip, ip_key ip] \<noteq> None"
  shows "lf_error (fr_login (si_frame (foldl (site_step c) s [Password p, PressSignIn, AskLogin now w tok ip, TellLogin]))) =
    js ''invalid username or password''"
proof -
  have "login_body (login_req u p) = Some (u, p)" for u
    by (simp add: login_body_def login_req_def send_def js_def)
  then show ?thesis using assms
    by (auto simp: App_login site_submit_def ask_login_def tell_login_def set_pass_def submit_def
        login_answered_def login_res_def login_handler_def)
qed

text \<open>The form asks for no name: only admin can sign in, whatever users the server has.\<close>

lemma only_admin: "lf_user (fr_login s) = js ''admin'' \<Longrightarrow> lf_user (fr_login (frame_step s e)) = js ''admin''"
  by (cases e) (auto simp: session_answered_def set_pass_def submit_def login_answered_def sign_out_def login_mount_def
      go_hash_def render_failed_def split: sum.splits bool.splits page.splits)

definition first_events :: "site_event list" where
  "first_events = [AskSession 1 True, TellSession, Password (js ''pw''), PressSignIn, AskLogin 2 True (Some (js ''t'')) (js ''::1''), TellLogin]"

definition first_site :: site where
  "first_site = foldl (site_step plain_crypto) (site_start True one_user None
     \<lparr>fr_authed = None, fr_router = \<lparr>location_hash = js ''#/'', current = ROverview\<rparr>, fr_login = login_mount,
      fr_boundary = False, fr_cookie = None\<rparr>) first_events"

lemma first_site_shell: "\<exists>x q. App (si_frame first_site) = Shell x q"
proof -
  define s where "s = foldl (site_step plain_crypto) (site_start True one_user None
      \<lparr>fr_authed = None, fr_router = \<lparr>location_hash = js ''#/'', current = ROverview\<rparr>, fr_login = login_mount, fr_boundary = False, fr_cookie = None\<rparr>)
    [AskSession 1 True, TellSession]"
  have s: "si_frame s = \<lparr>fr_authed = Some False, fr_router = \<lparr>location_hash = js ''#/'', current = ROverview\<rparr>,
      fr_login = login_mount, fr_boundary = False, fr_cookie = None\<rparr>" "sv_limiter (si_server s) = Map.empty" "sv_users (si_server s) = one_user"
    by (simp_all add: s_def site_start_def ask_session_def tell_session_def session_handler_def requireSession_def
        server_start_def session_answered_def getSession_res_def serve_def)
  have "first_site = foldl (site_step plain_crypto) s [Password (js ''pw''), PressSignIn, AskLogin 2 True (Some (js ''t'')) (js ''::1''), TellLogin]"
    unfolding first_site_def s_def foldl_append [symmetric] by (simp add: first_events_def del: site_step.simps)
  moreover have "VerifyDashboardUser plain_crypto (sv_users (si_server s)) (js ''admin'') (js ''pw'')"
    by (simp add: s VerifyDashboardUser_def one_user_admin)
  ultimately show ?thesis using sign_in_works [of s 2 "js ''::1''" plain_crypto "js ''pw''" True "js ''t''"]
    by (simp add: s App_def login_mount_def del: foldl_Cons foldl_Nil)
qed

lemma signed_in_by_password_witness:
  "\<exists>tok u before e after. si_jar first_site = Some tok \<and> si_history first_site = before @ e # after \<and>
    opens plain_crypto (foldl (server_step plain_crypto) (server_start True one_user) before) tok u e"
proof -
  from first_site_shell obtain x q where "App (si_frame first_site) = Shell x q" by blast
  from signed_in_by_password [OF boot_overview [of None] this [unfolded first_site_def]] show ?thesis
    by (simp add: first_site_def plain_crypto_def)
qed

end
