(* ===== verification/View.thy ===== *)
theory View imports Widgets Ledger ControlActions FleetSummary begin

text \<open>
  What the components render, as trees of texts, controls and the events their handlers raise
  (web/src/components/Ledger.tsx, Cluster.tsx, EmptyState.tsx, Controls.tsx, Modal.tsx and
  StatusMessage.tsx). Inline styles are left out; class names are kept.
\<close>

section \<open>Trees\<close>

text \<open>
  A block may take clicks: on itself, outside the controls inside it. A button carries its class,
  whether it is disabled and its tooltip; an input its type, placeholder and value; a choice
  whether it is disabled, its options and the one chosen; a link its class, label and address.
\<close>

datatype 'e node =
    Words jstr jstr
  | Block jstr "'e option" "'e node list"
  | Btn button jstr 'e
  | Inp jstr jstr jstr "jstr \<Rightarrow> 'e"
  | Sel bool "(jstr \<times> jstr) list" jstr "jstr \<Rightarrow> 'e"
  | Anchor jstr jstr jstr

definition Div :: "string \<Rightarrow> 'e node list \<Rightarrow> 'e node" where
  "Div c ns = Block (js c) None ns"

definition Span :: "string \<Rightarrow> jstr \<Rightarrow> 'e node" where
  "Span c t = Words (js c) t"

definition show_if :: "bool \<Rightarrow> 'e node list \<Rightarrow> 'e node list" where
  "show_if b ns = (if b then ns else [])"

section \<open>What can be done with a tree\<close>

text \<open>The buttons with their disabled flag and the blocks that take clicks; what a user can raise.\<close>

fun presses :: "'e node \<Rightarrow> (bool \<times> 'e) list" where
  "presses (Btn b l e) = [(bt_disabled b, e)]"
| "presses (Block c k ns) = (case k of None \<Rightarrow> [] | Some e \<Rightarrow> [(False, e)]) @ concat (map presses ns)"
| "presses _ = []"

definition controls :: "'e node list \<Rightarrow> (bool \<times> 'e) list" where
  "controls ns = concat (map presses ns)"

definition clicks :: "'e node list \<Rightarrow> 'e list" where
  "clicks ns = map snd (filter (\<lambda>(d, e). \<not> d) (controls ns))"

text \<open>What the disabled buttons would raise.\<close>

definition blocked :: "'e node list \<Rightarrow> 'e list" where
  "blocked ns = map snd (filter fst (controls ns))"

text \<open>What typing a text, or picking an option, can raise.\<close>

fun inputs :: "jstr \<Rightarrow> 'e node \<Rightarrow> 'e list" where
  "inputs t (Inp ty p v f) = [f t]"
| "inputs t (Sel d os v f) = (if \<not> d \<and> t \<in> set (map fst os) then [f t] else [])"
| "inputs t (Block c k ns) = concat (map (inputs t) ns)"
| "inputs t _ = []"

text \<open>The texts on the screen, from top to bottom.\<close>

fun words :: "'e node \<Rightarrow> jstr list" where
  "words (Words c t) = [t]"
| "words (Block c k ns) = concat (map words ns)"
| "words (Btn b l e) = [l]"
| "words (Inp ty p v f) = [v]"
| "words (Sel d os v f) = [v]"
| "words (Anchor c l h) = [l]"

section \<open>Ledger.tsx, Cluster.tsx, EmptyState.tsx\<close>

record 'e quick_action =
  qk_icon :: jstr
  qk_label :: jstr
  qk_variant :: "action_variant option"
  qk_title :: "jstr option"
  qk_event :: 'e

definition QuickActions :: "'e quick_action list \<Rightarrow> 'e node" where
  "QuickActions actions =
     Div ''qa'' (map (\<lambda>a. Btn \<lparr>bt_class = QuickAction_class (qk_variant a), bt_disabled = False, bt_title = qk_title a\<rparr>
       (qk_icon a @ js '' '' @ qk_label a) (qk_event a)) actions)"

definition SectionHeader :: "jstr \<Rightarrow> jstr \<Rightarrow> 'e node list \<Rightarrow> 'e node list \<Rightarrow> jstr option \<Rightarrow> 'e node" where
  "SectionHeader index title glyph right count =
     Div ''sec'' ([Span ''ix'' index] @ glyph @ [Span ''t'' title, Span ''rule'' []] @ right @
       (case count of None \<Rightarrow> [] | Some c \<Rightarrow> [Span ''ct'' c]))"

definition LedgerHeader :: "'e node list \<Rightarrow> 'e node" where
  "LedgerHeader ns = Div ''lh'' ns"

definition LedgerRow :: "'e option \<Rightarrow> 'e quick_action list option \<Rightarrow> bool \<Rightarrow> 'e node list \<Rightarrow> 'e node" where
  "LedgerRow onClick actions dimmed ns =
     Block (LedgerRow_class (onClick \<noteq> None) dimmed) onClick
       (ns @ (case actions of None \<Rightarrow> [] | Some as \<Rightarrow> [QuickActions as]))"

definition Cell_node :: "cell \<Rightarrow> 'e node" where
  "Cell_node c =
     Div ''cell'' ([Span ''l'' (cell_label c),
         Block (cell_class c) None ([Span '''' (cell_value c)] @ (case cell_unit c of None \<Rightarrow> [] | Some u \<Rightarrow> [Span ''small'' u]))] @
       (case cell_sub c of None \<Rightarrow> [] | Some s \<Rightarrow> [Span ''d'' s]))"

definition MetricCluster :: "nat \<Rightarrow> 'e node list \<Rightarrow> 'e node" where
  "MetricCluster cols ns = Block (MetricCluster_class cols) None ns"

definition EmptyState_node :: "jstr \<Rightarrow> 'e node list \<Rightarrow> 'e node" where
  "EmptyState_node message action =
     Div ''empty-state'' (Span '''' message # (if action = [] then [] else [Div ''empty-state-action'' action]))"

section \<open>Controls.tsx, StatusMessage.tsx\<close>

definition plain_class :: "jstr \<Rightarrow> button" where
  "plain_class c = \<lparr>bt_class = c, bt_disabled = False, bt_title = None\<rparr>"

definition Segment_node :: "('a \<times> jstr) list \<Rightarrow> 'a \<Rightarrow> ('a \<Rightarrow> 'e) \<Rightarrow> 'e node" where
  "Segment_node options val onChange =
     Div ''seg'' (map (\<lambda>i. Btn (plain_class (if sg_pressed i then js ''on'' else [])) (sg_label i) (onChange (sg_value i)))
       (Segment options val))"

definition Toggle_node :: "bool \<Rightarrow> (bool \<Rightarrow> 'e) \<Rightarrow> jstr option \<Rightarrow> jstr option \<Rightarrow> 'e node" where
  "Toggle_node active onChange label desc =
     (let v = Toggle active label desc; switch = Btn (plain_class (tv_class v)) [] (onChange (Toggle_activate active))
      in case tv_row v of
           None \<Rightarrow> switch
         | Some (h, p) \<Rightarrow> Div ''tgrow'' [switch, Div ''meta'' (map (Span ''h'') h @ map (Span ''p'') p)])"

definition Chip :: "jstr \<Rightarrow> bool \<Rightarrow> 'e \<Rightarrow> 'e node" where
  "Chip label active e = Btn (plain_class (Chip_class active)) label e"

definition Field :: "jstr \<Rightarrow> bool \<Rightarrow> jstr option \<Rightarrow> jstr option \<Rightarrow> 'e node list \<Rightarrow> 'e node" where
  "Field label required hint error ns =
     Div ''field'' ([Div '''' (Span '''' label # (if required then [Span ''req'' (js '' '' @ middle_dot)] else []))] @ ns @
       (case Field_note hint error of NoNote \<Rightarrow> [] | ErrNote t \<Rightarrow> [Span ''err'' t] | HintNote t \<Rightarrow> [Span ''hint'' t]))"

definition StatusMessage_node :: "use_status \<Rightarrow> 'e node list" where
  "StatusMessage_node s = (case StatusMessage s of None \<Rightarrow> [] | Some (c, t) \<Rightarrow> [Words c t])"

section \<open>StatusGlyph.tsx\<close>

definition StatusGlyph_view :: "glyph \<Rightarrow> 'e node" where
  "StatusGlyph_view g = Div ''st'' [Words (square_class g) [], Words (text_class g) (glyph_word g)]"

section \<open>Modal.tsx\<close>

text \<open>The backdrop closes the modal when it is hit itself, and so does the mark in the head.\<close>

definition Modal :: "jstr \<Rightarrow> 'e \<Rightarrow> 'e node list \<Rightarrow> 'e node list \<Rightarrow> 'e node" where
  "Modal title onClose ns footer =
     Block (js ''backdrop'') (Some onClose)
       [Div ''modal''
         ([Div ''mhead'' [Span ''mtitle'' title, Btn (plain_class (js ''mclose'')) [0xD7] onClose], Div ''mbody'' ns] @
          (if footer = [] then [] else [Div ''mfoot'' footer]))]"

section \<open>Lemmas\<close>

lemma in_clicks: "e \<in> set (clicks ns) \<longleftrightarrow> (False, e) \<in> set (controls ns)"
  by (force simp: clicks_def)

lemma in_blocked: "e \<in> set (blocked ns) \<longleftrightarrow> (True, e) \<in> set (controls ns)"
  by (force simp: blocked_def)

lemma controls_simps [simp]:
  "controls [] = []" "controls (ns @ ms) = controls ns @ controls ms"
  "controls (Btn b l e # ns) = (bt_disabled b, e) # controls ns"
  "controls (Block c k xs # ns) = (case k of None \<Rightarrow> [] | Some e \<Rightarrow> [(False, e)]) @ controls xs @ controls ns"
  "controls (Div d xs # ns) = controls xs @ controls ns" "controls (Words c x # ns) = controls ns"
  "controls (Span d x # ns) = controls ns" "controls (Inp ty p v f # ns) = controls ns" "controls (Sel dis os v g # ns) = controls ns"
  "controls (Anchor c l h # ns) = controls ns"
  by (simp_all add: controls_def Div_def Span_def split: option.split)

lemma controls_map: "controls (map f xs) = concat (map (\<lambda>x. controls [f x]) xs)"
  by (simp add: controls_def comp_def)

lemma controls_show_if [simp]: "controls (show_if b ns) = (if b then controls ns else [])"
  by (simp add: show_if_def)

lemma controls_QuickActions [simp]: "controls (QuickActions acts # ns) = map (\<lambda>a. (False, qk_event a)) acts @ controls ns"
  by (simp add: QuickActions_def controls_map comp_def concat_map_singleton)

lemma controls_LedgerRow [simp]: "controls (LedgerRow k acts d ns # ms) = (case k of None \<Rightarrow> [] | Some e \<Rightarrow> [(False, e)]) @
    controls ns @ (case acts of None \<Rightarrow> [] | Some qs \<Rightarrow> map (\<lambda>a. (False, qk_event a)) qs) @ controls ms"
  by (simp add: LedgerRow_def split: option.split)

lemma controls_Segment [simp]: "controls (Segment_node opts v f # ns) = map (\<lambda>x. (False, f (fst x))) opts @ controls ns"
  by (simp add: Segment_node_def Segment_def plain_class_def controls_map comp_def case_prod_unfold concat_map_singleton)

lemma controls_Toggle [simp]: "controls (Toggle_node b f l p # ns) = (False, f (\<not> b)) # controls ns"
proof -
  have none: "controls (map (Span c) xs) = []" for c xs by (induction xs) simp_all
  show ?thesis
    by (simp add: Toggle_node_def Toggle_activate_def plain_class_def Let_def none split: option.split prod.split)
qed

lemma controls_Modal [simp]: "controls (Modal l e ns ms # rest) = (False, e) # (False, e) # controls ns @ controls ms @ controls rest"
  by (simp add: Modal_def plain_class_def)

lemma controls_components [simp]:
  "controls (SectionHeader i t g r c # ns) = controls g @ controls r @ controls ns" "controls (LedgerHeader ns # ms) = controls ns @ controls ms"
  "controls (Cell_node cl # ns) = controls ns" "controls (MetricCluster n ns # ms) = controls ns @ controls ms"
  "controls (EmptyState_node m ns # ms) = controls ns @ controls ms" "controls (Field l rq h er ns # ms) = controls ns @ controls ms"
  "controls (StatusMessage_node s) = []" "controls (StatusGlyph_view gy # ns) = controls ns"
  by (simp_all add: StatusGlyph_view_def SectionHeader_def LedgerHeader_def Cell_node_def MetricCluster_def EmptyState_node_def Field_def
      StatusMessage_node_def split: option.split field_note.split)

lemma controls_cells [simp]: "controls (map Cell_node cs) = []"
  by (induction cs) simp_all

lemma controls_Chip [simp]: "controls (Chip l b e # ns) = (False, e) # controls ns"
  by (simp add: Chip_def plain_class_def)

lemma presses_map_node: "presses (map_node f n) = map (map_prod id f) (presses n)"
  by (induction n) (auto simp: map_concat comp_def intro!: arg_cong [where f = concat] split: option.split)

lemma controls_map_node [simp]: "controls (map_node f n # ns) = map (map_prod id f) (controls [n]) @ controls ns"
  by (simp add: controls_def presses_map_node)

lemma controls_in: "n \<in> set ns \<Longrightarrow> c \<in> set (controls [n]) \<Longrightarrow> c \<in> set (controls ns)"
  by (auto simp: controls_def)

lemma controls_enumerate:
  assumes "x \<in> set xs" "\<And>i. c \<in> set (controls [f i x])"
  shows "c \<in> set (controls (map (\<lambda>(i, x). f i x) (enumerate n xs)))"
proof -
  have "x \<in> snd ` set (enumerate n xs)" using assms(1) by (simp flip: set_map)
  then obtain i where "(i, x) \<in> set (enumerate n xs)" by force
  then have "f i x \<in> set (map (\<lambda>(i, x). f i x) (enumerate n xs))" by force
  then show ?thesis using assms(2) by (rule controls_in)
qed

lemma blocked_simps [simp]:
  "blocked [] = []" "blocked (ns @ ms) = blocked ns @ blocked ms"
  "blocked (Btn b l e # ns) = (if bt_disabled b then [e] else []) @ blocked ns" "blocked (Block c k ns # ms) = blocked ns @ blocked ms"
  "blocked (Div d ns # ms) = blocked ns @ blocked ms" "blocked (Words c x # ns) = blocked ns"
  "blocked (Span d x # ns) = blocked ns" "blocked (Inp ty p v f # ns) = blocked ns" "blocked (Sel dis os v g # ns) = blocked ns"
  "blocked (Anchor c l h # ns) = blocked ns"
  "blocked (show_if b' ns) = (if b' then blocked ns else [])"
  by (simp_all add: blocked_def split: option.split)

lemma blocked_components [simp]:
  "blocked (LedgerRow k acts dm ns # ms) = blocked ns @ blocked ms" "blocked (Segment_node opts v f # ns) = blocked ns"
  "blocked (Toggle_node b g lb p # ns) = blocked ns" "blocked (Chip l b e # ns) = blocked ns"
  "blocked (SectionHeader i l gl r c # ns) = blocked gl @ blocked r @ blocked ns" "blocked (LedgerHeader ns # ms) = blocked ns @ blocked ms"
  "blocked (EmptyState_node l ns # ms) = blocked ns @ blocked ms" "blocked (Field l rq h er ns # ms) = blocked ns @ blocked ms"
  "blocked (StatusMessage_node s) = []" "blocked (StatusGlyph_view gy # ns) = blocked ns" "blocked (MetricCluster n ns # ms) = blocked ns @ blocked ms" "blocked (Cell_node cl # ns) = blocked ns"
  by (simp_all add: blocked_def filter_map comp_def split: option.split)

lemma blocked_map: "(\<And>x. x \<in> set xs \<Longrightarrow> blocked [f x] = []) \<Longrightarrow> blocked (map f xs) = []"
  by (auto simp: blocked_def controls_map filter_concat)

lemma blocked_map_node [simp]: "blocked (map_node f n # ns) = map f (blocked [n]) @ blocked ns"
  by (simp add: blocked_def filter_map comp_def)

lemma Button_disabled [simp]: "bt_disabled (Button v sm c r d t) \<longleftrightarrow> d \<or> nullish r [] \<noteq> []"
  by (simp add: Button_def Let_def)

lemma plain_enabled [simp]: "\<not> bt_disabled (plain_class c)"
  by (simp add: plain_class_def)

lemma blocked_Modal [simp]: "blocked (Modal t e ns ms # rest) = blocked ns @ blocked ms @ blocked rest"
  by (simp add: Modal_def)

lemma reason_given: "nullish r [] \<noteq> [] \<Longrightarrow> r \<noteq> None"
  by (cases r) simp_all

end
