(* ===== verification/DialogViews.thy ===== *)
theory DialogViews imports View FleetPage FileBrowser begin

text \<open>
  What the dialogs of the fleet page render (web/src/AddAppModal.tsx, web/src/ConnectAgentModal.tsx)
  and what the file browser renders (web/src/FileBrowser.tsx) with its dialogs
  (web/src/components/ConfirmDialog.tsx).
\<close>

section \<open>AddAppModal\<close>

definition env_row_view :: "nat \<Rightarrow> env_row \<Rightarrow> fleet_dialog_event node" where
  "env_row_view i r =
     Div ''env-row''
       [Inp (js ''text'') (js ''KEY'') (er_key r) (\<lambda>t. FdAdd (AddEnvKey i t)),
        Inp (js ''text'') (js ''value'') (er_value r) (\<lambda>t. FdAdd (AddEnvValue i t)),
        Btn (plain_class (js ''ctl-btn'')) [0x2715] (FdAdd (AddEnvRemove i))]"

text \<open>The options of a selector that can be picked; the placeholder of the agents cannot.\<close>

definition add_control :: "agent list \<Rightarrow> add_modal \<Rightarrow> form_field \<Rightarrow> fleet_dialog_event node list" where
  "add_control agents m x =
     (let f = am_form m;
          input = (\<lambda>v. [Inp (js ''text'') (nullish (ff_placeholder x) []) v (\<lambda>t. FdAdd (AddField (ff_field x) t))]);
          pick = (\<lambda>os v. [Sel False os v (\<lambda>t. FdAdd (AddField (ff_field x) t))])
      in case ff_field x of
           FAgent \<Rightarrow>
             if connected_names agents = [] then [Span ''hint'' (js ''no agents connected'')]
             else pick (map (\<lambda>n. (n, n)) (connected_names agents)) (af_agent f)
         | FSource \<Rightarrow> [Segment_node [(TCommand, js ''command''), (TGit, js ''from git'')] (af_type f) (\<lambda>t. FdAdd (AddSource t))]
         | FCredential \<Rightarrow>
             pick (([], js ''None (public repo / host auth)'') #
               map (\<lambda>c. (cm_name c, cm_name c @ js '' ('' @ cm_username c @ js '')'')) (am_creds m)) (af_credential f)
         | FEnv \<Rightarrow>
             map (\<lambda>(i, r). env_row_view i r) (enumerate 0 (af_env f)) @
             [Btn (plain_class (js ''ctl-btn'')) (js ''+ env var'') (FdAdd AddEnvRow)]
         | FRestart \<Rightarrow> pick (map (\<lambda>v. (v, v)) RESTART_VALUES) (af_restart f)
         | FName \<Rightarrow> input (af_name f) | FRepo \<Rightarrow> input (af_repo f) | FRef \<Rightarrow> input (af_ref f) | FBuild \<Rightarrow> input (af_build f)
         | FCmd \<Rightarrow> input (af_cmd f) | FArgs \<Rightarrow> input (af_args f) | FCwd \<Rightarrow> input (af_cwd f) | FInstances \<Rightarrow> input (af_instances f)
         | FSubdir \<Rightarrow> input (af_subdir f) | FMaxRestarts \<Rightarrow> input (af_max_restarts f)
         | FKillTimeout \<Rightarrow> input (af_kill_timeout f) | FMaxMemory \<Rightarrow> input (af_max_memory f))"

definition add_field_view :: "agent list \<Rightarrow> add_modal \<Rightarrow> form_field \<Rightarrow> fleet_dialog_event node" where
  "add_field_view agents m x = Field (ff_label x) (ff_required x) (ff_hint x) None (add_control agents m x)"

text \<open>The advanced part is a toggle between the fields that are always there and the others.\<close>

definition AddAppModal_view :: "agent list \<Rightarrow> add_modal \<Rightarrow> fleet_dialog_event node" where
  "AddAppModal_view agents m =
     (let f = am_form m; always = add_fields (af_type f) False; all = add_fields (af_type f) (am_adv m)
      in Modal (js ''Add application'') (FdPage (OvAdd False))
           (show_if (af_error f \<noteq> []) [Span ''modal-error'' (af_error f)]
            @ map (add_field_view agents m) always
            @ [Btn (plain_class (js ''adv-toggle'')) ((if am_adv m then [0x25BE] else [0x25B8]) @ js '' advanced'') (FdAdd AddAdvanced)]
            @ show_if (am_adv m) [Div ''adv'' (map (add_field_view agents m) (drop (length always) all))])
           [Btn (Button (Some VGhost) False None None False None) (js ''cancel'') (FdPage (OvAdd False)),
            Btn (Button None False None (disabledReason f) False None) (add_label m) FdSubmit])"

section \<open>ConnectAgentModal\<close>

definition ConnectAgentModal_view :: "connect_modal \<Rightarrow> fleet_page_event node" where
  "ConnectAgentModal_view c =
     (let f = cn_form c; close = FlDialog (FdPage (OvConnect False))
      in Modal (js ''Connect agent'') close
           ([Field (js ''agent name'') False None None [Inp (js ''text'') [] (co_name f) (\<lambda>t. FlConnect (ConnectName t))],
             Field (js ''server address'') False None None
               [Inp (js ''text'') (js ''auto (host:fleet-port)'') (co_address f) (\<lambda>t. FlConnect (ConnectAddress t))],
             Btn (Button None False None None (co_busy f) None) (js ''generate connect command'') (FlConnect Generate)]
            @ show_if (co_error f \<noteq> []) [Span ''error'' (co_error f)]
            @ show_if (co_cmd f \<noteq> [])
                [Span ''warn'' (js ''Shown once. Generating rotated the enroll token '' @ em_dash @
                   js '' any previously generated, unused command no longer works. Already-connected agents are unaffected.''),
                 Span ''connect-cmd'' (co_cmd f)])
           [if co_cmd f \<noteq> [] then Btn (Button None False None None False None) (connect_title c) (FlConnect CopyCommand)
            else Btn (Button (Some VGhost) False None None False None) (connect_title c) close])"

section \<open>ConfirmDialog, PromptDialog\<close>

definition ConfirmDialog_view :: "jstr \<Rightarrow> jstr \<Rightarrow> jstr \<Rightarrow> bool \<Rightarrow> 'e \<Rightarrow> 'e \<Rightarrow> 'e node" where
  "ConfirmDialog_view title body confirmLabel danger onConfirm onCancel =
     Modal title onCancel [Span ''dialog-body'' body]
       [Btn (fst (ConfirmDialog danger)) (js ''Cancel'') onCancel, Btn (snd (ConfirmDialog danger)) confirmLabel onConfirm]"

definition PromptDialog_view :: "jstr \<Rightarrow> jstr \<Rightarrow> jstr \<Rightarrow> prompt \<Rightarrow> (jstr \<Rightarrow> 'e) \<Rightarrow> (jstr \<Rightarrow> 'e) \<Rightarrow> 'e \<Rightarrow> 'e node" where
  "PromptDialog_view title label confirmLabel p onType onConfirm onCancel =
     Modal title onCancel [Span ''dialog-label'' label, Inp (js ''text'') [] (pr_value p) onType]
       [Btn (Button (Some VGhost) False None None False None) (js ''Cancel'') onCancel,
        Btn (Button None False None (prompt_reason p) False None) confirmLabel (onConfirm (pr_value p))]"

section \<open>FileBrowser\<close>

datatype files_click = FilesEv browser_event | TypePrompt jstr

definition files_crumbs :: "file_browser \<Rightarrow> files_click node" where
  "files_crumbs b =
     Div ''fbcrumb''
       ([Btn (plain_class []) (fb_app b) (FilesEv ClickRoot)] @
        map (\<lambda>(i, c). Div '''' [Span ''s'' (js ''/''), Btn (plain_class []) c (FilesEv (ClickCrumb i))]) (enumerate 0 (crumbs (fb_path b))) @
        [Btn \<lparr>bt_class = js ''btn ghost sm'', bt_disabled = fb_busy b, bt_title = None\<rparr> (js ''+ new file'') (FilesEv ClickNew)])"

definition files_row :: "file_browser \<Rightarrow> dir_entry \<Rightarrow> files_click node" where
  "files_row b e =
     Block (js ''fbrow'' @ (if row_selected b e then js '' sel'' else [])) None
       ([Span '''' (if de_is_dir e then [0xD83D, 0xDCC1] else [0xD83D, 0xDCC4]),
         Btn (plain_class (js ''nm2'' @ (if de_is_dir e then js '' sky'' else []))) (de_name e) (FilesEv (ClickEntry e))] @
        show_if (\<not> de_is_dir e) [Span ''sz'' (dec_int (de_size e) @ js '' B'')] @
        [Div ''fb-rowactions''
          ([Btn \<lparr>bt_class = js ''btn ghost sm'', bt_disabled = fb_busy b, bt_title = None\<rparr> (js ''rename'') (FilesEv (ClickRename e))] @
           show_if (\<not> de_is_dir e)
             [Btn \<lparr>bt_class = js ''btn ghost sm'', bt_disabled = fb_busy b, bt_title = None\<rparr> (js ''delete'') (FilesEv (ClickDelete e))])])"

definition files_list :: "file_browser \<Rightarrow> files_click node" where
  "files_list b =
     Div ''fblist''
       (show_if (fb_path b \<noteq> [])
          [Block (js ''fbrow'') (Some (FilesEv ClickUp)) [Span '''' [0xD83D, 0xDCC1], Span ''nm2 sky'' (js ''../'')]] @
        map (files_row b) (fb_entries b))"

text \<open>\<open>url\<close> is the address of the download.\<close>

definition files_open :: "jstr \<Rightarrow> file_browser \<Rightarrow> files_click node" where
  "files_open url b =
     Div ''fbview''
       (case fb_open b of
          None \<Rightarrow> [Span ''fb-empty'' (js ''Select a file to view or edit.'')]
        | Some f \<Rightarrow>
            if fc_binary f
            then [Div ''fb-empty'' [Span '''' (js ''Binary file ('' @ dec_int (fc_size f) @ js '' B). ''), Anchor [] (js ''Download'') url]]
            else show_if (fc_truncated f)
                   [Div ''fbnote''
                      [Span '''' (js ''Showing first 1 MiB of '' @ dec_int (fc_size f) @ js '' B '' @ em_dash @ js '' too large to edit. ''),
                       Anchor [] (js ''Download first 1 MiB'') url]]
                 @ [if editable b then Inp (js ''code'') [] (nullish (shown_text b) []) (\<lambda>t. FilesEv (Edit t))
                    else Span ''code'' (nullish (shown_text b) [])]
                 @ show_if (editable b)
                     [Div ''saverow''
                        [Inp (js ''text'') (js ''Commit message'') (fb_msg b) (\<lambda>t. FilesEv (EditMsg t)),
                         Btn (Button None False None (save_reason b) False None) (js ''save & push'') (FilesEv ClickSave)]])"

definition files_dialog :: "prompt \<Rightarrow> file_browser \<Rightarrow> files_click node list" where
  "files_dialog p b =
     (case fb_dialog b of
        None \<Rightarrow> []
      | Some (DeleteDialog e) \<Rightarrow>
          [ConfirmDialog_view (js ''Delete file'') (delete_question b e) (js ''Delete'') True
             (FilesEv (DialogConfirm [])) (FilesEv DialogCancel)]
      | Some (RenameDialog e) \<Rightarrow>
          [PromptDialog_view (js ''Rename file'') (js ''Rename to'') (js ''Rename'') p TypePrompt
             (\<lambda>v. FilesEv (DialogConfirm v)) (FilesEv DialogCancel)]
      | Some NewFileDialog \<Rightarrow>
          [PromptDialog_view (js ''New file'') (js ''New file path (relative to current folder)'') (js ''Create'') p TypePrompt
             (\<lambda>v. FilesEv (DialogConfirm v)) (FilesEv DialogCancel)])"

definition files_tree :: "jstr \<Rightarrow> prompt \<Rightarrow> file_browser \<Rightarrow> files_click node list" where
  "files_tree url p b =
     [Span ''fbnote'' (js ''Editing commits & pushes to origin per change. Redeploy to apply changes to the running app.''),
      files_crumbs b]
     @ (case fb_err b of None \<Rightarrow> [] | Some t \<Rightarrow> show_if (t \<noteq> []) [Span ''fb-err'' t])
     @ StatusMessage_node (fb_status b)
     @ [Div ''fbbody'' [files_list b, files_open url b]]
     @ files_dialog p b"

text \<open>The address is built while rendering: a path that cannot be encoded makes the browser throw.\<close>

definition FileBrowser_view :: "prompt \<Rightarrow> file_browser \<Rightarrow> files_click node list result" where
  "FileBrowser_view p b =
     (case fb_open b of
        None \<Rightarrow> Inr (files_tree [] p b)
      | Some f \<Rightarrow>
          if fc_binary f \<or> fc_truncated f
          then map_result (\<lambda>url. files_tree url p b) (fileDownloadURL (fb_agent b) (fb_app b) (fc_path f))
          else Inr (files_tree [] p b))"

section \<open>What is greyed out does nothing\<close>

lemma add_fields_free: "blocked (map (add_field_view agents m) xs) = []"
proof (rule blocked_map)
  fix x
  have "blocked (map (\<lambda>(i, r). env_row_view i r) rs) = []" for rs by (rule blocked_map) (simp add: env_row_view_def split: prod.split)
  then show "blocked [add_field_view agents m x] = []"
    by (simp add: add_field_view_def add_control_def Let_def split: add_field.split)
qed

lemma add_blocked:
  assumes "e \<in> set (blocked [AddAppModal_view (ov_agents (fd_page s)) (fd_add s ! present s)])"
  shows "fd_step s e = s"
proof -
  have "e = FdSubmit \<and> \<not> canSubmit (am_form (fd_add s ! present s))"
    using assms by (auto simp: AddAppModal_view_def Let_def add_fields_free canSubmit_reason split: if_splits dest: reason_given)
  then show ?thesis by (simp add: submit_cases Let_def)
qed

lemma connect_blocked: "e \<in> set (blocked [ConnectAgentModal_view c]) \<Longrightarrow> e = FlConnect Generate \<and> connect_step c Generate = c"
  by (auto simp: ConnectAgentModal_view_def Let_def split: if_splits)

lemma prompt_eta [simp]: "\<lparr>pr_value = pr_value p\<rparr> = p"
  by simp

lemma files_blocked:
  assumes "FilesEv e \<in> set (blocked (files_tree url p b))"
  shows "browser_step b e = b"
proof -
  have crumbs: "blocked (map (\<lambda>(i, c). Div '''' [Span ''s'' (js ''/''), Btn (plain_class []) c (FilesEv (ClickCrumb i))]) xs) = []" for xs
    by (rule blocked_map) (simp split: prod.split)
  have "\<exists>x \<in> set es. FilesEv e \<in> set (blocked [files_row b x])" if "FilesEv e \<in> set (blocked (map (files_row b) es))" for es
    using that by (auto simp: in_blocked controls_map)
  then have rows: "fb_busy b \<and> (\<exists>x. e = ClickRename x \<or> e = ClickDelete x)" if "FilesEv e \<in> set (blocked (map (files_row b) es))" for es
    using that by (fastforce simp: files_row_def split: if_splits)
  consider "fb_busy b" "\<exists>x. e = ClickNew \<or> e = ClickRename x \<or> e = ClickDelete x" | "e = ClickSave" "save_reason b \<noteq> None"
    | v where "e = DialogConfirm v" "prompt_confirm \<lparr>pr_value = v\<rparr> = None" "\<And>x. fb_dialog b \<noteq> Some (DeleteDialog x)"
    using assms rows
    by (auto simp: files_tree_def files_crumbs_def files_list_def files_open_def files_dialog_def crumbs ConfirmDialog_view_def
        PromptDialog_view_def ConfirmDialog_def prompt_confirm_def split: option.splits dialog.splits if_splits dest: reason_given)
  then show ?thesis
    by cases (auto simp: dialog_confirm_def split: option.split dialog.split)
qed

end
