(* ===== verification/FleetView.thy ===== *)
theory FleetView imports View Application begin

text \<open>
  What the fleet page renders (web/src/Overview.tsx with RestartAllButton.tsx, StatusGlyph.tsx and
  Sparkline.tsx): the actions, the cells, and for each agent its section with a row per process.
  The controls carry the events of the page. The dialogs are those of \<open>FleetDialogs\<close> and
  \<open>LiveDialog\<close>.
\<close>

section \<open>Parts\<close>

definition page_ev :: "overview_event \<Rightarrow> fleet_page_event" where
  "page_ev e = FlDialog (FdPage e)"

definition restart_all_view :: "restart_all \<Rightarrow> restart_event node" where
  "restart_all_view b =
     (if ra_busy b then Div ''ctl'' [Span ''ctl-msg'' ellipsis]
      else if ra_pending b
      then Div ''ctl'' [Btn (plain_class (js ''ctl-confirm'')) (js ''confirm restart all'') RConfirm,
             Btn (plain_class (js ''ctl-btn'')) [0x2715] RCancel]
      else Div ''ctl'' (Btn \<lparr>bt_class = js ''ctl-btn'', bt_disabled = (\<not> ra_connected b), bt_title = None\<rparr> (js ''restart all'') RAsk #
             show_if (ra_msg b \<noteq> []) [Span ''ctl-msg'' (ra_msg b)]))"

text \<open>A line through the points, or an empty drawing.\<close>

definition Sparkline_view :: "rat list \<Rightarrow> 'e node" where
  "Sparkline_view points = Span ''sparkline'' (nullish (Sparkline 120 22 points) [])"

section \<open>Rows\<close>

definition row_actions :: "jstr \<Rightarrow> jstr \<Rightarrow> fleet_page_event quick_action list" where
  "row_actions a p =
     [\<lparr>qk_icon = [0x25A4], qk_label = js ''Log'', qk_variant = None, qk_title = None, qk_event = page_ev (OvClick a p (OnAction 0))\<rparr>,
      \<lparr>qk_icon = [0x25B8], qk_label = js ''Restart'', qk_variant = None, qk_title = None, qk_event = page_ev (OvClick a p (OnAction 1))\<rparr>,
      \<lparr>qk_icon = [0x27F2], qk_label = js ''Reload'', qk_variant = Some QWarn, qk_title = None, qk_event = page_ev (OvClick a p (OnAction 2))\<rparr>,
      \<lparr>qk_icon = [0x25A0], qk_label = js ''Stop'', qk_variant = Some QDanger, qk_title = None, qk_event = page_ev (OvClick a p (OnAction 3))\<rparr>]"

definition process_row_view :: "rat \<Rightarrow> series \<Rightarrow> agent \<Rightarrow> nat \<Rightarrow> proc \<Rightarrow> fleet_page_event node" where
  "process_row_view now m a k p =
     (let r = process_row_of now m a k p; errored = (sr_kind (statusOf (p_state p)) = Errored);
          val = (\<lambda>c t. Div ''rr'' [Words (js (if errored then ''v d'' else c)) t])
      in LedgerRow (Some (page_ev (OvClick (a_name a) (p_name p) OnRow))) (Some (row_actions (a_name a) (p_name p))) False
           [Span ''ix'' (pr_index r), Div '''' [Span ''nm'' (pr_name r), Span ''sub'' (pr_sub r)], StatusGlyph_view (pr_glyph r),
            Div ''rr'' [Div ''v'' [Span (if errored then ''d'' else '''') (pr_pid r)]],
            val ''v teal'' (pr_cpu r), val ''v indigo'' (pr_mem r), val ''v olive'' (pr_uptime r),
            Div ''rr'' [Span (if 0 < p_restarts_24h p then ''v amber'' else ''v'') (pr_restarts r)],
            Sparkline_view (pr_trend r)])"

definition process_header :: "fleet_page_event node" where
  "process_header =
     LedgerHeader [Span '''' [], Span '''' (js ''Process''), Span '''' (js ''Status''), Span ''rr'' (js ''PID''), Span ''rr'' (js ''CPU''),
       Span ''rr'' (js ''MEM''), Span ''rr'' (js ''Uptime''), Span ''rr'' [0x21BB], Span '''' (js ''Trend'')]"

section \<open>The page\<close>

definition agent_section :: "rat \<Rightarrow> fleet_page \<Rightarrow> nat \<Rightarrow> agent \<Rightarrow> fleet_page_event node" where
  "agent_section now s ai a =
     Div ''''
       ([SectionHeader (padStart 2 0x30 (dec_nat (ai + 1))) (a_name a) [Words (snd (section_header ai a)) []]
           (case fl_restart s (a_name a) of None \<Rightarrow> [] | Some b \<Rightarrow> [map_node (FlRestart (a_name a)) (restart_all_view b)])
           (Some (dec_nat (length (a_procs a)) @ js '' proc''))]
        @ show_if (metaLine now a \<noteq> []) [Span ''d'' (metaLine now a)]
        @ show_if (a_procs a = []) [Span ''empty'' (js ''no processes.'')]
        @ show_if (a_procs a \<noteq> [])
            (process_header # map (\<lambda>(k, p). process_row_view now (ov_metrics (fl_overview s)) a k p) (enumerate 0 (a_procs a))))"

definition fleet_view :: "rat \<Rightarrow> fleet_page \<Rightarrow> fleet_page_event node list" where
  "fleet_view now s =
     (let agents = ov_agents (fl_overview s)
      in [Div ''actions''
            [Btn (Button (Some VGhost) True None None False None) (js ''+ add app'') (page_ev (OvAdd True)),
             Btn (Button (Some VGhost) True None None False None) (js ''+ connect agent'') (page_ev (OvConnect True))],
          MetricCluster 6 (map Cell_node (overview_cells agents))]
         @ show_if (agents = [])
             [EmptyState_node (js ''No agents connected.'')
               [Span '''' (js ''Use '' @ [0x201C] @ js ''+ connect agent'' @ [0x201D] @ js '' above to enroll your first agent.'')]]
         @ map (\<lambda>(ai, a). agent_section now s ai a) (enumerate 0 agents))"

section \<open>What can be clicked\<close>

lemma row_controls: "controls [process_row_view now m a k p] =
    map (\<lambda>t. (False, page_ev (OvClick (a_name a) (p_name p) t))) [OnRow, OnAction 0, OnAction 1, OnAction 2, OnAction 3]"
  by (simp add: process_row_view_def Let_def row_actions_def Sparkline_view_def)

text \<open>Every process of the fleet has a row that can be clicked, and so has each of its actions.\<close>

lemma row_offered:
  assumes "a \<in> set (ov_agents (fl_overview s))" "p \<in> set (a_procs a)" "t \<in> {OnRow, OnAction 0, OnAction 1, OnAction 2, OnAction 3}"
  shows "page_ev (OvClick (a_name a) (p_name p) t) \<in> set (clicks (fleet_view now s))"
proof -
  let ?c = "(False, page_ev (OvClick (a_name a) (p_name p) t))"
  have "?c \<in> set (controls [process_row_view now (ov_metrics (fl_overview s)) a k p])" for k using assms(3) by (auto simp: row_controls)
  then have "?c \<in> set (controls (map (\<lambda>(k, p). process_row_view now (ov_metrics (fl_overview s)) a k p) (enumerate 0 (a_procs a))))"
    by (intro controls_enumerate [OF assms(2)])
  then have "?c \<in> set (controls [agent_section now s ai a])" for ai
    using assms(2) by (auto simp: agent_section_def process_header_def)
  then have "?c \<in> set (controls (map (\<lambda>(ai, a). agent_section now s ai a) (enumerate 0 (ov_agents (fl_overview s)))))"
    by (intro controls_enumerate [OF assms(1)])
  then show ?thesis by (simp add: in_clicks fleet_view_def Let_def)
qed

section \<open>Properties\<close>

lemma hash_route: "parseHash h = Inr r \<Longrightarrow> fr_authed fr = Some True \<Longrightarrow> \<not> fr_boundary fr \<Longrightarrow> router_ok fr \<Longrightarrow>
    App (frame_step fr (Hash h)) = Shell (shell_ctx r) (Some r)"
  by (auto simp: go_hash_def navigate_def on_hashchange_def App_def render_boundary_def router_ok_def split: if_splits)

lemma open_process_mounts:
  assumes "app_ok a" "procHref ag p = Inr h" "ag \<noteq> []" "p \<noteq> []" "ap_page a = Some m"
  shows "App (ap_frame (open_process (ag, p) a)) = Shell (js ''Fleet'') (Some (RDetail ag p))"
proof -
  obtain ctx r where "App (ap_frame a) = Shell ctx (Some r)"
    using assms(1,5) by (auto simp: app_ok_def split: page.splits option.splits)
  then have "fr_authed (ap_frame a) = Some True" "\<not> fr_boundary (ap_frame a)"
    by (auto simp: App_def render_boundary_def split: option.splits bool.splits if_splits)
  moreover have "parseHash h = Inr (RDetail ag p)" using assms(2-4) by (rule parse_proc)
  moreover have "router_ok (ap_frame a)" using assms(1) by (simp add: app_ok_def)
  ultimately have "App (frame_step (ap_frame a) (Hash h)) = Shell (js ''Fleet'') (Some (RDetail ag p))"
    using hash_route [of h "RDetail ag p" "ap_frame a"] by (simp add: shell_ctx_def)
  then show ?thesis using assms(2) by (simp add: open_process_def app_frame_def show_frame_def Let_def del: frame_step.simps split: option.split)
qed

text \<open>C10. Every process on the fleet page can be opened: whatever happened before, the page has a
  clickable row for each process of each agent it shows, and the click mounts the page of
  exactly this process of this agent, whatever characters the names hold.\<close>

theorem rows_open_their_process:
  assumes "boot hash cookie = Inr fr" "ap_page (foldl app_step (app_mount fr) es) = Some (MFleet s)"
    and "ag \<in> set (ov_agents (fl_overview s))" "p \<in> set (a_procs ag)"
    and "well_formed (a_name ag)" "well_formed (p_name p)" "a_name ag \<noteq> []" "p_name p \<noteq> []"
  shows "\<exists>e. e \<in> set (clicks (fleet_view now s)) \<and>
    App (ap_frame (foldl app_step (app_mount fr) (es @ [AppPage (EvFleet e)]))) = Shell (js ''Fleet'') (Some (RDetail (a_name ag) (p_name p))) \<and>
    (\<exists>d. ap_page (foldl app_step (app_mount fr) (es @ [AppPage (EvFleet e)])) = Some (MDetail d) \<and>
       dp_agent (pp_page d) = a_name ag \<and> dp_proc (pp_page d) = p_name p)"
proof (intro exI [of _ "page_ev (OvClick (a_name ag) (p_name p) OnRow)"] conjI)
  let ?e = "page_ev (OvClick (a_name ag) (p_name p) OnRow)" and ?a = "foldl app_step (app_mount fr) es"
  show "?e \<in> set (clicks (fleet_view now s))" using assms(3,4) by (rule row_offered) simp
  have ok: "app_ok ?a" by (rule app_run_ok) (rule app_mount_ok [OF assms(1)])
  obtain h where h: "procHref (a_name ag) (p_name p) = Inr h" using procHref_total assms(5,6) by blast
  define t where "t = fleet_page_step s ?e"
  have t: "opened (MFleet s) (MFleet t) = Some (a_name ag, p_name p)" "\<not> called_logout (MFleet s) (MFleet t)"
    by (simp_all add: t_def page_ev_def opened_def called_logout_def fl_overview_def click_process_def LedgerRow_click_def Let_def)
  have step: "app_step ?a (AppPage (EvFleet ?e)) = open_process (a_name ag, p_name p) (?a\<lparr>ap_page := Some (MFleet t)\<rparr>)"
    using t by (simp add: assms(2) page_did_def page_ev_def t_def del: fleet_page_step.simps)
  have "page_step (MFleet s) (EvFleet ?e) = MFleet t" by (simp add: t_def page_ev_def)
  then have "app_ok (?a\<lparr>ap_page := Some (MFleet t)\<rparr>)"
    using ok assms(2) page_step_live [where m = "MFleet s" and e = "EvFleet ?e"] by (auto simp: app_ok_def split: page.splits option.splits)
  then have app: "App (ap_frame (app_step ?a (AppPage (EvFleet ?e)))) = Shell (js ''Fleet'') (Some (RDetail (a_name ag) (p_name p)))"
    unfolding step by (rule open_process_mounts [OF _ h assms(7,8)]) simp
  then show "App (ap_frame (foldl app_step (app_mount fr) (es @ [AppPage (EvFleet ?e)]))) = Shell (js ''Fleet'') (Some (RDetail (a_name ag) (p_name p)))"
    by simp
  have "app_ok (app_step ?a (AppPage (EvFleet ?e)))" using ok by (rule app_step_ok)
  then show "\<exists>d. ap_page (foldl app_step (app_mount fr) (es @ [AppPage (EvFleet ?e)])) = Some (MDetail d) \<and>
       dp_agent (pp_page d) = a_name ag \<and> dp_proc (pp_page d) = p_name p"
    using app by (auto simp: app_ok_def page_of_def split: option.splits mounted.splits elim!: same_page.elims)
qed

definition fleet_frame :: frame where
  "fleet_frame = \<lparr>fr_authed = None, fr_router = \<lparr>location_hash = js ''#/'', current = ROverview\<rparr>, fr_login = login_mount, fr_boundary = False,
     fr_cookie = Some (js ''admin'')\<rparr>"

definition fleet_events :: "app_event list" where
  "fleet_events = signed_in @ [AppPage (EvFleet (page_ev (OvFleet 0 (Response (answered [sample_agent])))))]"

lemma fleet_signed_in: "ap_page (foldl app_step (app_mount fleet_frame) signed_in) = Some (MFleet fleet_page_mount)"
  by (simp add: signed_in_def app_mount_def app_frame_def show_frame_def session_answered_def session_endpoint_def getSession_res_def
      map_result_def fleet_frame_def App_def render_boundary_def mount_page_def)

lemma fleet_answered_overview: "overview_fleet 0 (Response (answered [sample_agent])) overview_mount =
    overview_mount\<lparr>ov_fleet := \<lparr>pl_runs = pl_runs (ov_fleet overview_mount), pl_flight = []\<rparr>, ov_agents := [sample_agent]\<rparr>"
  by (simp add: overview_mount_def overview_fleet_def poll_start_def poll_cleanup_def poll_send_def no_polls_def poll_take_def
      poll_stopped_def getFleet_res_def json_or_401_def answered_def)

lemma fleet_events_page: "\<exists>s. ap_page (foldl app_step (app_mount fleet_frame) fleet_events) = Some (MFleet s) \<and> ov_agents (fl_overview s) = [sample_agent]"
proof -
  let ?e = "page_ev (OvFleet 0 (Response (answered [sample_agent])))"
  define s where "s = fleet_page_step fleet_page_mount ?e"
  have over: "fl_overview s = overview_step overview_mount (OvFleet 0 (Response (answered [sample_agent])))"
    by (simp add: s_def page_ev_def fleet_page_mount_def fd_mount_def fl_overview_def Let_def add_open_def overview_mount_def del: overview_step.simps)
  moreover have "fl_overview fleet_page_mount = overview_mount" by (simp add: fl_overview_def fleet_page_mount_def fd_mount_def)
  ultimately have "\<not> called_logout (MFleet fleet_page_mount) (MFleet s)" "opened (MFleet fleet_page_mount) (MFleet s) = None"
    by (simp_all add: called_logout_def opened_def fleet_answered_overview)
  moreover have "page_step (MFleet fleet_page_mount) (EvFleet ?e) = MFleet s" by (simp add: s_def page_ev_def)
  ultimately have "ap_page (foldl app_step (app_mount fleet_frame) fleet_events) = Some (MFleet s)"
    by (simp add: fleet_events_def fleet_signed_in page_did_def del: fleet_page_step.simps page_step.simps)
  then show ?thesis using over by (simp add: fleet_answered_overview)
qed

theorem rows_open_their_process_witness:
  "let a = foldl app_step (app_mount fleet_frame) fleet_events
   in \<exists>s e. ap_page a = Some (MFleet s) \<and> e \<in> set (clicks (fleet_view 0 s)) \<and>
        App (ap_frame (app_step a (AppPage (EvFleet e)))) = Shell (js ''Fleet'') (Some (RDetail (js ''dev'') (js ''web'')))"
proof -
  have boot: "boot (js ''#/'') (Some (js ''admin'')) = Inr fleet_frame" unfolding fleet_frame_def by (rule boot_overview)
  obtain s where s: "ap_page (foldl app_step (app_mount fleet_frame) fleet_events) = Some (MFleet s)" "ov_agents (fl_overview s) = [sample_agent]"
    using fleet_events_page by blast
  have "sample_agent \<in> set (ov_agents (fl_overview s))" "sample_proc \<in> set (a_procs sample_agent)" "well_formed (a_name sample_agent)"
    "well_formed (p_name sample_proc)" "a_name sample_agent \<noteq> []" "p_name sample_proc \<noteq> []"
    using s(2) by (simp_all add: sample_simps)
  from rows_open_their_process [OF boot s(1) this, of 0] s(1) show ?thesis
    unfolding sample_simps foldl_append foldl_Cons foldl_Nil Let_def by blast
qed

end
