(* ===== verification/PageViews.thy ===== *)
theory PageViews imports DialogViews ProcessPage ErrorsPage LogsPage begin

text \<open>
  What the process page (web/src/ProcessDetail.tsx with MetricChart.tsx), the errors page
  (web/src/Errors.tsx with BarSparkline.tsx), the log page (web/src/Logs.tsx, LogPanel.tsx,
  LogView.tsx) and the live log dialog (web/src/LiveLogModal.tsx) render.
\<close>

section \<open>Charts\<close>

definition MetricChart_view :: "(int \<Rightarrow> jstr) \<Rightarrow> bucket list \<Rightarrow> metric \<Rightarrow> nat option \<Rightarrow> 'e node" where
  "MetricChart_view time buckets m hover =
     (case MetricChart buckets m hover of
        None \<Rightarrow> Span ''chart-empty'' (js ''No history yet.'')
      | Some c \<Rightarrow>
          Div ''mc-wrap''
            ((case ch_readout c of None \<Rightarrow> []
               | Some (avg, high) \<Rightarrow>
                   [Div ''mc-readout''
                      [Span '''' avg, Span '''' (js '' '' @ middle_dot @ js '' peak ''), Span '''' high,
                       Span '''' (js '' '' @ middle_dot @ js '' ''), Span '''' (time (b_ts (buckets ! nullish hover 0)))]]) @
             [Span ''axis'' (fst (ch_labels c)), Span ''axis'' (snd (ch_labels c)),
              Span ''polyline'' (ch_area c), Span ''polyline'' (ch_max c), Span ''polyline'' (ch_avg c)]))"

section \<open>The process page\<close>

datatype detail_click =
    DetailEv detail_event | GoTo "jstr result" | FilesClick files_click | LiveInput live_event

definition detail_crumb :: "detail_page \<Rightarrow> detail_click node" where
  "detail_crumb s =
     Div ''crumb''
       [Btn (plain_class []) (js ''fleet'') (GoTo (Inr (js ''#/''))), Span ''s'' (js ''/''),
        Btn (plain_class []) (dp_agent s) (GoTo (Inr (js ''#/''))), Span ''s'' (js ''/''), Span '''' (dp_proc s)]"

text \<open>\<open>yes\<close> is the answer to the question that reload asks.\<close>

definition detail_header :: "bool \<Rightarrow> detail_page \<Rightarrow> detail_click node" where
  "detail_header yes s =
     Div ''detail-hd''
       ((case dp_p s of None \<Rightarrow> [] | Some q \<Rightarrow> [StatusGlyph_view (StatusGlyph (sp_state q))]) @
        [Span ''detail-name mono'' (dp_proc s), Span ''detail-meta'' (headerMeta (dp_p s)),
         Div ''detail-actions''
           [Btn (plain_class (js ''btn'')) ([0x25A4] @ js '' live log'') (DetailEv (ShowLive True)),
            Btn (Button None False None (offline_reason s) False None) ([0x25B8] @ js '' restart'') (DetailEv (Press BtnRestart)),
            Btn (Button (Some VWarn) False None (offline_reason s) False None) ([0x27F2] @ js '' reload'') (DetailEv (Press (BtnReload yes))),
            Btn (Button (Some VDgr) False None (offline_reason s) False None) ([0x25A0] @ js '' stop'') (DetailEv (Press BtnStop))]])"

definition detail_subtabs :: "detail_page \<Rightarrow> detail_click node" where
  "detail_subtabs s =
     Div ''subtabs''
       ([Btn (plain_class (subtab_class s SubOver)) (js ''Overview'') (DetailEv (OpenSub SubOver))] @
        show_if (showFiles s) [Btn (plain_class (subtab_class s SubFiles)) (js ''Files'') (DetailEv (OpenSub SubFiles))] @
        [Btn (plain_class (js ''subtab'')) (js ''Logs '' @ [0x203A]) (GoTo (logsHref (Some (dp_agent s)) (Some (dp_proc s))))])"

text \<open>A line of the recent logs; \<open>time\<close> is the browser's clock time of a timestamp.\<close>

definition recent_line :: "(int \<Rightarrow> jstr) \<Rightarrow> log_line \<Rightarrow> 'e node" where
  "recent_line time l =
     Div '''' [Span ''ts'' (time (l_ts l)), Span '''' (js '' ''), Span (if l_stderr l then ''er'' else ''tx'') (l_text l)]"

definition detail_overview ::
  "(int \<Rightarrow> jstr) \<Rightarrow> (int \<Rightarrow> jstr) \<Rightarrow> rat \<Rightarrow> nat option \<Rightarrow> nat option \<Rightarrow> detail_page \<Rightarrow> detail_click node" where
  "detail_overview date time nowSec cpu_hover mem_hover s =
     Div ''subview''
       [MetricCluster 6 (map Cell_node (detail_cells date nowSec s)),
        SectionHeader (js ''01'') (js ''Metrics'') []
          [Segment_node (map (\<lambda>(l, w). (w, l)) WINDOWS) (dp_window s) (\<lambda>w. DetailEv (SetWindow w))] None,
        Div ''charts''
          [Div ''chart'' [Div ''cap'' [Span '''' (js ''CPU %'')], MetricChart_view time (dp_detail s) Cpu cpu_hover],
           Div ''chart'' [Div ''cap'' [Span '''' (js ''Memory MB'')], MetricChart_view time (dp_detail s) Mem mem_hover]],
        SectionHeader (js ''02'') (js ''Recent logs'') []
          [Span ''sub'' (js ''last 8 lines''),
           Btn (plain_class (js ''lnk'')) (js ''live '' @ [0x203A]) (GoTo (logsHref (Some (dp_agent s)) (Some (dp_proc s))))] None,
        Div ''logbox''
          (if dp_lines s = [] then [EmptyState_node (js ''No recent logs.'') []] else map (recent_line time) (recent_lines s))]"

text \<open>The page; \<open>files\<close> is what the file browser renders.\<close>

definition detail_view ::
  "(int \<Rightarrow> jstr) \<Rightarrow> (int \<Rightarrow> jstr) \<Rightarrow> rat \<Rightarrow> nat option \<Rightarrow> nat option \<Rightarrow> bool \<Rightarrow> files_click node list \<Rightarrow> detail_page \<Rightarrow>
   detail_click node list" where
  "detail_view date time nowSec cpu_hover mem_hover yes files s =
     [detail_crumb s, detail_header yes s, detail_subtabs s] @
     (case detail_body_of s of
        OverBody \<Rightarrow> [detail_overview date time nowSec cpu_hover mem_hover s]
      | FilesBody _ _ _ \<Rightarrow> [Div ''subview'' (map (map_node FilesClick) files)]
      | EmptyBody \<Rightarrow> [])"

section \<open>The errors page\<close>

datatype errors_click = ErrorsEv errors_event | OpenProc jstr jstr

definition RANGE_OPTIONS :: "(err_range \<times> jstr) list" where
  "RANGE_OPTIONS = [(AllTime, js ''all''), (Day, js ''24h''), (Week, js ''7d'')]"

definition BarSparkline_view :: "rat list \<Rightarrow> 'e node" where
  "BarSparkline_view points =
     (case BarSparkline points of
        None \<Rightarrow> Span '''' []
      | Some bars \<Rightarrow> Div '''' (map (\<lambda>b. Span ''rect'' (point_text (bar_x b, bar_y b) @ js '' '' @ point_text (bar_w b, of_int (bar_h b)))) bars))"

definition errors_cluster :: "rat \<Rightarrow> errors_page \<Rightarrow> 'e node" where
  "errors_cluster now s =
     (let v = errors_view_of now s
      in MetricCluster 4
           (map Cell_node
             [Cell (ev_title v) (ev_errors v) None (Some (ev_sub v)) (Some Rose),
              Cell (js ''Unacked'') (ev_unacked v) None (Some (ev_unacked_sub v)) (Some Amber),
              Cell (js ''Affected procs'') (ev_affected v) None (Some (js ''processes'')) None,
              Cell (js ''Last error'') (ev_last v) None (if ep_data s = None then None else Some (lastSub s)) (Some Sky)]))"

definition errors_section :: "rat \<Rightarrow> errors_page \<Rightarrow> errors_click node" where
  "errors_section now s =
     (let v = errors_view_of now s
      in SectionHeader (js ''01'') (js ''Exceptions'') []
           [Div ''secctl''
              [Btn \<lparr>bt_class = js ''ackbtn'', bt_disabled = ev_ack_all_disabled v,
                    bt_title = Some (js ''Acknowledge every unacknowledged exception in this window'')\<rparr>
                 (ev_ack_all v) (ErrorsEv ClickAckAll),
               Segment_node RANGE_OPTIONS (ep_range s) (\<lambda>r. ErrorsEv (ChangeRange r))]]
           (ev_count v))"

definition errors_row_view :: "rat \<Rightarrow> nat \<Rightarrow> err_signature \<Rightarrow> errors_click node" where
  "errors_row_view now i g =
     (let r = errors_row_of now i g
      in LedgerRow (Some (OpenProc (es_agent g) (es_proc g))) None (ew_dim r)
           [Span ''ix'' (ew_index r), Div '''' [Span ''nm rose'' (ew_sample r), Span ''sub'' (ew_source r)],
            Span ''v clip'' (ew_where r), BarSparkline_view (map of_int (es_buckets g)), Span ''rr v rose'' (ew_count r), Span ''rr v'' (ew_last r),
            Div ''rr''
              [Btn \<lparr>bt_class = js ''ackbtn'' @ (if es_acknowledged g then js '' on'' else []), bt_disabled = False,
                    bt_title = Some (if es_acknowledged g then js ''Un-acknowledge''
                      else js ''Acknowledge '' @ em_dash @ js '' stops this error from nagging'')\<rparr>
                 (ew_button r) (ErrorsEv (ClickAck i))]])"

definition errors_header :: "'e node" where
  "errors_header =
     LedgerHeader [Span '''' [], Span '''' (js ''Message''), Span '''' (js ''Source''), Span '''' (js ''Occurrences''), Span ''rr'' (js ''Count''),
       Span ''rr'' (js ''Last''), Span ''rr'' []]"

definition errors_tree :: "rat \<Rightarrow> errors_page \<Rightarrow> errors_click node list" where
  "errors_tree now s =
     (let v = errors_view_of now s
      in [errors_cluster now s, errors_section now s]
         @ (case ev_failed v of None \<Rightarrow> [] | Some t \<Rightarrow> [Span ''sub'' t])
         @ show_if (ev_loading v) [Span ''sub'' (js ''Loading'' @ ellipsis)]
         @ (case ep_data s of None \<Rightarrow> []
            | Some d \<Rightarrow>
                show_if (ev_partial v) [Span ''sub'' (js ''Showing a partial window '' @ em_dash @ js '' scan cap reached.'')]
                @ (if er_signatures d = [] then [Span ''sub'' (js ''No errors in this window.'')]
                   else errors_header # map (\<lambda>(i, g). errors_row_view now i g) (enumerate 0 (er_signatures d)))))"

section \<open>The log page\<close>

text \<open>\<open>LogView\<close>; \<open>time\<close> is the browser's clock time of a timestamp.\<close>

datatype panel_click = PanelEv panel_event | ViewEv view_event

definition log_row :: "jstr \<times> jstr \<times> jstr \<Rightarrow> 'e node" where
  "log_row x = (case x of (t, c, l) \<Rightarrow> Div '''' [Span ''ts'' t, Span '''' (js '' ''), Words c l])"

definition LogView_view :: "(int \<Rightarrow> jstr) \<Rightarrow> bool \<Rightarrow> log_line list \<Rightarrow> panel_click node" where
  "LogView_view time stick ls =
     Div ''logview-wrap''
       ([Div ''logbox'' (case log_view_box time ls of EmptyBox t \<Rightarrow> [Span ''tx'' t] | Rows rs \<Rightarrow> map log_row rs)] @
        show_if (\<not> stick) [Btn (plain_class (js ''jump'')) (js ''Jump to latest '' @ [0x2193]) (ViewEv Jump)])"

definition LogPanel_view ::
  "(jstr \<Rightarrow> jstr) \<Rightarrow> (jstr \<Rightarrow> (jstr \<Rightarrow> bool) option) \<Rightarrow> (int \<Rightarrow> jstr) \<Rightarrow> bool \<Rightarrow> log_panel \<Rightarrow> panel_click node" where
  "LogPanel_view lower compile time stick q =
     Div ''''
       [Div ''logbar''
          [Segment_node STREAM_OPTIONS (lp_stream q) (\<lambda>v. PanelEv (PanelStream v)),
           Inp (js ''text'') (js ''filter'' @ ellipsis @ js '' (text or /regex/)'') (db_raw (lp_filter q)) (\<lambda>t. PanelEv (PanelKey (Type t))),
           Segment_node LIMIT_OPTS (lp_limit q) (\<lambda>n. PanelEv (PanelLimit n)),
           Anchor (js ''btn ghost'') ([0x2913] @ js '' download'') (panel_download q)],
        LogView_view time stick (panel_lines lower compile q)]"

datatype logs_click = LogsEv logs_page_event | PanelClick panel_click

definition logs_selectors :: "logs_page \<Rightarrow> logs_click node" where
  "logs_selectors s =
     Div ''logbar''
       [Sel False (map (\<lambda>a. (a_name a, agent_option a)) (lg_fleet s)) (lg_agent s) (\<lambda>t. LogsEv (SelectAgent t)),
        Sel (logs_procs s = []) (if logs_procs s = [] then [([], em_dash)] else map (\<lambda>p. (p_name p, p_name p)) (logs_procs s))
          (lg_proc s) (\<lambda>t. LogsEv (SelectProc t))]"

definition Logs_view ::
  "(jstr \<Rightarrow> jstr) \<Rightarrow> (jstr \<Rightarrow> (jstr \<Rightarrow> bool) option) \<Rightarrow> (int \<Rightarrow> jstr) \<Rightarrow> bool \<Rightarrow> logs_view \<Rightarrow> logs_click node list" where
  "Logs_view lower compile time stick w =
     (let s = lw_page w;
          head = [Div ''crumb'' ([Span '''' (js ''Logs'')] @
                    show_if (logs_title s \<noteq> []) [Span ''s'' middle_dot, Span '''' (js '' ''), Span '''' (logs_title s)]),
                  logs_selectors s, SectionHeader (js ''01'') (js ''Live log'') [] [] None]
      in case logs_body_of s of
           LogsLoading \<Rightarrow> [Span ''chart-empty'' (js ''Loading'' @ ellipsis)]
         | NoAgents \<Rightarrow> [Span ''chart-empty'' (js ''No agents connected.'')]
         | SelectFirst \<Rightarrow> head @ [Span ''chart-empty'' (js ''Select an agent and process to view logs.'')]
         | Panel _ _ \<Rightarrow> head @ (case lw_panel w of None \<Rightarrow> []
             | Some q \<Rightarrow> [map_node PanelClick (LogPanel_view lower compile time stick q)]))"

section \<open>The live log dialog\<close>

fun level_text :: "level \<Rightarrow> jstr" where
  "level_text LInfo = js ''info''"
| "level_text LWarn = js ''warn''"
| "level_text LError = js ''error''"

definition LiveLogModal_view ::
  "(jstr \<Rightarrow> jstr) \<Rightarrow> (jstr \<Rightarrow> (jstr \<Rightarrow> bool) option) \<Rightarrow> (int \<Rightarrow> nat \<times> nat \<times> nat) \<Rightarrow> live_modal \<Rightarrow> live_event node" where
  "LiveLogModal_view lower compile clock s =
     Modal (live_title s) LiveClose
       [Div '''' [Segment_node PAUSE_OPTIONS (lv_paused s) LivePause],
        Div ''logbar''
          [Inp (js ''text'') (js ''filter'' @ ellipsis @ js '' (text or /regex/)'') (db_raw (lv_filter s)) (\<lambda>t. LiveKey (Type t)),
           Segment_node STREAM_OPTIONS (lv_stream s) LiveStream,
           Div '''' (map (\<lambda>l. Chip (level_text l) (l \<in> set (lv_levels s)) (LiveLevel l)) ALL_LEVELS),
           Anchor (js ''btn ghost'') [0x2913] (live_download s)],
        Div ''logbox''
          (case live_box clock lower compile (lv_levels s) (db_filter (lv_filter s)) (ls_lines (lv_hook s)) of
             EmptyBox t \<Rightarrow> [Span ''tx'' t] | Rows rs \<Rightarrow> map log_row rs @ [Span ''cur'' []])]
       []"

section \<open>What is greyed out does nothing\<close>

lemma charts_free [simp]:
  "blocked (MetricChart_view time bs m h # ns) = blocked ns" "blocked (BarSparkline_view pts # ns) = blocked ns"
  by (simp_all add: MetricChart_view_def BarSparkline_view_def blocked_map split: option.split prod.split)

lemma blocked_maps [simp]: "blocked (map (map_node f) ns) = map f (blocked ns)"
  by (simp add: blocked_def controls_def presses_map_node map_concat comp_def filter_map filter_concat)

lemma detail_blocked:
  assumes "DetailEv e \<in> set (blocked (detail_view date time now ch mh yes files s))"
  shows "detail_step s e = s"
proof -
  have "blocked [detail_overview date time now ch mh s] = []"
    by (auto simp: detail_overview_def blocked_map recent_line_def)
  then have "(\<exists>b. e = Press b) \<and> \<not> dp_connected s"
    using assms by (auto simp: detail_view_def detail_crumb_def detail_header_def detail_subtabs_def offline_reason_def
        split: detail_body.splits option.splits if_splits)
  then show ?thesis by (auto simp: detail_click_def)
qed

lemma errors_blocked: "ErrorsEv e \<in> set (blocked (errors_tree now s)) \<Longrightarrow> errors_step s e = s"
proof -
  have rows: "blocked [errors_row_view now i g] = []" for i g by (simp add: errors_row_view_def Let_def)
  then have "blocked (map (\<lambda>(i, g). errors_row_view now i g) xs) = []" for xs by (intro blocked_map) (simp add: case_prod_unfold)
  moreover assume "ErrorsEv e \<in> set (blocked (errors_tree now s))"
  ultimately have "e = ClickAckAll \<and> (ep_acking s \<or> length (unacked s) = 0)"
    by (auto simp: errors_tree_def errors_cluster_def errors_section_def errors_header_def errors_view_of_def Let_def blocked_map
        split: option.splits if_splits)
  then show ?thesis by (auto simp: onAckAll_def)
qed

end
