(* ===== verification/FormViews.thy ===== *)
theory FormViews imports View Credentials Notifications begin

text \<open>
  What the two form pages render: the credentials page (web/src/Credentials.tsx) and the three
  sections of the notifications page (web/src/Notifications.tsx). A click runs an event of the
  page, asks the clipboard to take a text, or calls the API for a row.
\<close>

section \<open>Credentials\<close>

datatype cred_click = CredEv cred_event | CopyText jstr

definition small_button :: "button_variant option \<Rightarrow> button" where
  "small_button v = Button v True None None False None"

definition cred_row_view :: "cred_row \<Rightarrow> cred_click node" where
  "cred_row_view r =
     Div ''''
       (LedgerRow None None False
          [Span ''nm'' (cred_row.cw_name r), Words (cw_class r) (cred_row.cw_type r), Span ''v'' (cw_added r),
           Div ''rr''
             (if cw_confirming r
              then [Div '''' [Btn (small_button (Some VDgr)) (js ''confirm'') (CredEv (ClickConfirmCred (cred_row.cw_name r))),
                              Btn (small_button None) (js ''cancel'') (CredEv (ClickCancelCred (cred_row.cw_name r)))]]
              else [Btn (small_button (Some VDgr)) (js ''delete'') (CredEv (ClickDeleteCred (cred_row.cw_name r)))])]
        # (case cw_key r of
             None \<Rightarrow> []
           | Some k \<Rightarrow> [Div '''' [Span ''sub'' (js ''public key (deploy key)''), Span ''pre'' k,
                                 Btn (small_button None) (js ''copy'') (CopyText k)]]))"

definition cred_list_view :: "(int \<Rightarrow> jstr) \<Rightarrow> cred_page \<Rightarrow> cred_click node list" where
  "cred_list_view date c =
     SectionHeader (js ''01'') (js ''Stored'') [] [] (cred_count c) #
     (case cred_body_of date c of
        CredsLoading \<Rightarrow> [Span ''sub'' (js ''loading'' @ ellipsis)]
      | CredsNone \<Rightarrow> [Span ''sub'' (js ''no credentials stored.'')]
      | CredsRows rows \<Rightarrow>
          LedgerHeader [Span '''' (js ''Name''), Span '''' (js ''Type''), Span '''' (js ''Added''), Span ''rr'' []] # map cred_row_view rows)"

text \<open>The inputs of the fields \<open>cred_fields\<close> names, with their values and events.\<close>

definition cred_inputs :: "cred_page \<Rightarrow> cred_click node list" where
  "cred_inputs c =
     [Field (js ''name'') False None None [Inp (js ''text'') (js ''my-github'') (cp_name c) (\<lambda>t. CredEv (TypeName t))]]
     @ show_if (cp_kind c = HttpsToken)
         [Field (js ''username'') False None None [Inp (js ''text'') (js ''github-user'') (cp_username c) (\<lambda>t. CredEv (TypeUsername t))],
          Field (js ''token'') False None None [Inp (js ''password'') (js ''ghp_'' @ ellipsis) (cp_token c) (\<lambda>t. CredEv (TypeToken t))]]"

definition cred_form_view :: "cred_page \<Rightarrow> cred_click node list" where
  "cred_form_view c =
     [SectionHeader (js ''02'') (js ''Add credential'') [] [] None,
      Div ''''
        ([Field (js ''type'') False (Some (cred_hint (cp_kind c))) None
            [Segment_node [(HttpsToken, js ''https token''), (SshKey, js ''ssh key'')] (cp_kind c) (\<lambda>k. CredEv (ChangeKind k))]]
         @ cred_inputs c
         @ show_if (cp_error c \<noteq> []) [Span ''sub'' (cp_error c)]
         @ show_if (cp_new_key c \<noteq> [])
             [Div '''' [Span ''sub'' (js ''generated public key '' @ em_dash @ js '' add this as a deploy key on your repo (e.g. GitHub '' @
                           [0x2192] @ js '' Settings '' @ [0x2192] @ js '' Deploy keys '' @ [0x2192] @ js '' Add deploy key).''),
                        Span ''textarea'' (cp_new_key c),
                        Btn (small_button None) (js ''copy'') (CopyText (cp_new_key c))]]),
      Div ''actions''
        (Btn (Button None False None (cred_disabledReason c) False None) (cred_submit_label c) (CredEv Create) #
         StatusMessage_node (cp_status c))]"

definition Credentials_view :: "(int \<Rightarrow> jstr) \<Rightarrow> cred_page \<Rightarrow> cred_click node list" where
  "Credentials_view date c = cred_list_view date c @ cred_form_view c"

section \<open>Channels\<close>

datatype notif_click = NotifEv notif_event | TestChannel jstr | DeleteChannel jstr | DeleteRule jstr

definition channel_row_view :: "notif_channel \<Rightarrow> notif_click node" where
  "channel_row_view c =
     (let r = channel_row_of c; (sq, cl, word) = cw_state r
      in LedgerRow None
           (Some [\<lparr>qk_icon = [0x25CE], qk_label = js ''test'', qk_variant = None, qk_title = None, qk_event = TestChannel (nc_name c)\<rparr>,
                  \<lparr>qk_icon = [0x2715], qk_label = js ''delete'', qk_variant = Some QDanger, qk_title = None, qk_event = DeleteChannel (nc_name c)\<rparr>])
           False
           [Span ''nm'' (channel_row.cw_name r), Words (fst (channel_row.cw_type r)) (snd (channel_row.cw_type r)),
            Div ''st'' [Words sq [], Words cl word], Words (fst (cw_secret r)) (snd (cw_secret r))])"

definition channel_field_view :: "channel_form \<Rightarrow> jstr \<Rightarrow> notif_click node" where
  "channel_field_view c f =
     (let (ty, v, _) = field_input c f in Field f False None None [Inp ty f v (\<lambda>t. NotifEv (TypeField f t))])"

text \<open>The type is picked by its name.\<close>

definition channel_of_text :: "jstr \<Rightarrow> channel_type" where
  "channel_of_text t = nullish (find_first (\<lambda>ty. channel_text ty = t) CHANNEL_TYPES) Webhook"

definition ChannelSection :: "notif_config \<Rightarrow> channel_form \<Rightarrow> notif_click node list" where
  "ChannelSection cfg c =
     [SectionHeader (js ''01'') (js ''Channels'') [] [] (Some (channels_count cfg))]
     @ (if ng_channels cfg = []
        then [EmptyState_node (js ''No channels yet '' @ em_dash @ js '' fill the form below and click Add channel.'') []]
        else LedgerHeader [Span '''' (js ''Name''), Span '''' (js ''Type''), Span '''' (js ''State''), Span '''' (js ''Secret''), Span ''rr'' (js ''Actions'')] #
             map channel_row_view (ng_channels cfg))
     @ [Div ''actions''
          ([Div ''''
              [Field (js ''type'') False None None
                 [Sel False (map (\<lambda>ty. (channel_text ty, channel_text ty)) CHANNEL_TYPES) (channel_text (cf_type c))
                    (\<lambda>t. NotifEv (PickType (channel_of_text t)))],
               Field (js ''name'') True (Some (js ''A label for this channel, e.g. tgbot '' @ em_dash @ js '' separate from the bot token'')) None
                 [Inp (js ''text'') (js ''channel-name'') (cf_name c) (\<lambda>t. NotifEv (TypeChannelName t))]],
            Div '''' [Toggle_node (cf_enabled c) (\<lambda>b. NotifEv (SetEnabled b)) (Some (js ''Enabled'')) None]]
           @ show_if (allFields c \<noteq> []) [Div '''' (map (channel_field_view c) (allFields c))]),
        Div ''actions''
          (Btn (Button None False None (name_reason ''Enter a channel name first'' (cf_name c)) False None) (js ''Add channel'') (NotifEv AddChannel) #
           StatusMessage_node (cf_status c))]"

section \<open>Rules\<close>

definition rule_row_view :: "notif_rule \<Rightarrow> notif_click node" where
  "rule_row_view x =
     (let r = rule_row_of x
      in LedgerRow None
           (Some [\<lparr>qk_icon = [0x2715], qk_label = js ''delete'', qk_variant = Some QDanger, qk_title = None, qk_event = DeleteRule (nr_name x)\<rparr>])
           False
           [Span ''nm'' (rw_name r), Div '''' (map (\<lambda>(c, t). Words c t) (rw_events r)), Span ''v'' (rw_target r), Span ''v teal'' (rw_channels r)])"

definition RuleSection :: "notif_config \<Rightarrow> rule_form \<Rightarrow> notif_click node list" where
  "RuleSection cfg r =
     [SectionHeader (js ''02'') (js ''Rules'') [] [] (Some (rules_count cfg))]
     @ (if ng_rules cfg = []
        then [EmptyState_node (js ''No rules yet '' @ em_dash @ js '' events won'' @ [0x27] @ js ''t notify until a rule routes them to a channel.'') []]
        else LedgerHeader [Span '''' (js ''Name''), Span '''' (js ''Events''), Span '''' (js ''Target''), Span '''' (js ''Channels''), Span ''rr'' []] #
             map rule_row_view (ng_rules cfg))
     @ [Div ''''
          ([Div ''''
              [Field (js ''rule name'') False None None [Inp (js ''text'') (js ''my-rule'') (rf_name r) (\<lambda>t. NotifEv (TypeRuleName t))],
               Field (js ''target (agent / process)'') False None None
                 [Inp (js ''text'') (js ''agent (*)'') (rf_agent r) (\<lambda>t. NotifEv (TypeTarget t (rf_process r))),
                  Inp (js ''text'') (js ''process (*)'') (rf_process r) (\<lambda>t. NotifEv (TypeTarget (rf_agent r) t))]],
            Div '''' [Span '''' (js ''events''), Div '''' (map (\<lambda>ev. Chip ev (ev \<in> set (rf_events r)) (NotifEv (ToggleEvent ev))) EVENT_TYPES)]]
           @ show_if (ng_channels cfg \<noteq> [])
               [Div '''' [Span '''' (js ''channels''),
                  Div '''' (map (\<lambda>c. Chip (nc_name c) (nc_name c \<in> set (rf_chans r)) (NotifEv (ToggleChannel (nc_name c)))) (ng_channels cfg))]]),
        Div ''actions''
          (Btn (Button None False None (name_reason ''Enter a rule name first'' (rf_name r)) False None) (js ''Add rule'') (NotifEv AddRule) #
           StatusMessage_node (rf_status r))]"

section \<open>Settings\<close>

text \<open>\<open>num\<close> is the text of a number, as the browser writes it.\<close>

definition SettingsSection :: "(jsnum \<Rightarrow> jstr) \<Rightarrow> notif_config \<Rightarrow> settings_form \<Rightarrow> notif_click node list" where
  "SettingsSection num cfg f =
     [SectionHeader (js ''03'') (js ''Settings'') [] [] None,
      Div ''''
        [Toggle_node (sf_recovery f) (\<lambda>b. NotifEv (SetRecovery b)) (Some (js ''Send recovery notices''))
           (Some (js ''Notify when a crashed process or downed agent comes back.'')),
         Div ''''
           [Field (js ''Global cooldown (seconds)'') False None None
              [Inp (js ''number'') [] (num (sf_cooldown f)) (\<lambda>t. NotifEv (SetCooldown t))],
            Field (js ''Coalesce window (sec '' @ middle_dot @ js '' 0 = off)'') False None None
              [Inp (js ''number'') [] (num (sf_coalesce f)) (\<lambda>t. NotifEv (SetCoalesce t))]],
         Div '''' [Span '''' (js ''Per-event cooldown overrides'')],
         Div ''''
           (map (\<lambda>ev. Field ev False None None
                   [Inp (js ''number'') (num (sf_cooldown f) @ js '' (global)'') (nullish (map_of (sf_overrides f) ev) [])
                      (\<lambda>t. NotifEv (TypeOverride ev t))]) EVENT_TYPES)],
      Div ''actions''
        ([Btn (Button None False None None False None) (js ''save settings'') (NotifEv SaveSettings),
          Btn (fst (test_button cfg f)) (snd (test_button cfg f)) (NotifEv SendTest)]
         @ StatusMessage_node (sf_status f))]"

definition Notifications_view :: "(jsnum \<Rightarrow> jstr) \<Rightarrow> notif_page \<Rightarrow> notif_click node list" where
  "Notifications_view num s =
     (case (np_cfg s, np_settings s) of
        (Some cfg, Some f) \<Rightarrow>
          show_if (np_err s \<noteq> []) [Span ''sub'' (page_notice s)] @
          ChannelSection cfg (np_channel s) @ RuleSection cfg (np_rule s) @ SettingsSection num cfg f
      | _ \<Rightarrow> [Span ''sub'' (page_notice s)])"

section \<open>What is greyed out does nothing\<close>

lemma rows_free [simp]:
  "blocked (map cred_row_view rs) = []" "blocked (map channel_row_view cs) = []" "blocked (map (channel_field_view c) fs) = []"
  "blocked (map rule_row_view us) = []" "blocked (map (\<lambda>y. Chip (l y) (b y) (g y)) ys) = []"
  "blocked (map (\<lambda>ev. Field (l ev) rq h er [Inp (ty ev) (ph ev) (v ev) (k ev)]) evs) = []"
  by (rule blocked_map; simp add: cred_row_view_def small_button_def channel_row_view_def channel_field_view_def rule_row_view_def Let_def
      split: option.split prod.split)+

lemma cred_blocked: "CredEv e \<in> set (blocked (Credentials_view date c)) \<Longrightarrow> cred_step c e = c"
proof -
  have "blocked (cred_list_view date c) = []" by (simp add: cred_list_view_def split: cred_body.split)
  moreover assume "CredEv e \<in> set (blocked (Credentials_view date c))"
  ultimately have "e = Create" "nullish (cred_disabledReason c) [] \<noteq> []"
    by (simp_all add: Credentials_view_def cred_form_view_def cred_inputs_def small_button_def split: if_splits)
  then show ?thesis
    by (auto simp: handleCreate_def cred_canSubmit_def cred_disabledReason_def split: if_splits)
qed

lemma notif_blocked: "NotifEv e \<in> set (blocked (Notifications_view num s)) \<Longrightarrow> notif_step s e = s"
proof -
  assume b: "NotifEv e \<in> set (blocked (Notifications_view num s))"
  then obtain cfg f where s: "np_cfg s = Some cfg" "np_settings s = Some f"
    by (auto simp: Notifications_view_def split: option.splits)
  have "e = AddChannel \<and> nullish (name_reason ''Enter a channel name first'' (cf_name (np_channel s))) [] \<noteq> [] \<or>
      e = AddRule \<and> nullish (name_reason ''Enter a rule name first'' (rf_name (np_rule s))) [] \<noteq> [] \<or>
      e = SendTest \<and> bt_disabled (fst (test_button cfg f))"
    using b by (simp add: Notifications_view_def s ChannelSection_def RuleSection_def SettingsSection_def split: if_splits)
  then show ?thesis
    by (auto simp: submit_channel_def submit_rule_def s test_button_def on_settings_def Let_def split: if_splits)
qed

end
