(* ===== verification/ShellView.thy ===== *)
theory ShellView imports View Session begin

text \<open>
  What the application renders around its pages: the login form (web/src/Login.tsx), the rail and
  the top of the shell (web/src/AppShell.tsx), the update notice (web/src/UpdateBanner.tsx), the
  fallback of the boundary (web/src/ErrorBoundary.tsx), and the choice between them (web/src/App.tsx).
\<close>

section \<open>Login\<close>

datatype 'e shell_click = FrameEv frame_event | DismissBanner | PageClick 'e

text \<open>The form is submitted by its button, which is disabled while an answer is awaited.\<close>

definition Login_view :: "login_form \<Rightarrow> 'e shell_click node" where
  "Login_view f =
     Div ''loginwrap''
       [Div ''loginbox''
          ([Span ''wm'' (js ''mar$hal''), Span ''tagline'' (js ''self-hosted process fleet''),
            Field (js ''password'') False None None
              [Inp (js ''password'') (replicate 8 0x2022) (lf_pass f) (\<lambda>t. FrameEv (TypePass t))]] @
           show_if (lf_error f \<noteq> []) [Span ''error'' (lf_error f)] @
           [Btn (Button None False None None (lf_busy f) None) (if lf_busy f then js ''signing in'' @ ellipsis else js ''sign in'')
              (FrameEv Submit)])]"

section \<open>The shell\<close>

fun rail_label :: "nav_item \<Rightarrow> jstr" where
  "rail_label NavFleet = js ''Fleet''"
| "rail_label NavErrors = js ''Errors''"
| "rail_label NavLogs = js ''Logs''"
| "rail_label NavNotif = js ''Notify''"
| "rail_label NavCreds = js ''Creds''"

fun rail_icon :: "nav_item \<Rightarrow> jstr" where
  "rail_icon NavFleet = [0x25A6]"
| "rail_icon NavErrors = [0x26A0, 0xFE0E]"
| "rail_icon NavLogs = [0x25A4]"
| "rail_icon NavNotif = [0x25D4]"
| "rail_icon NavCreds = [0x26BF, 0xFE0E]"

definition RAIL :: "nav_item list" where
  "RAIL = [NavFleet, NavErrors, NavLogs, NavNotif, NavCreds]"

text \<open>A button of the rail reads its badge, if it is that of the errors, its icon and its label.\<close>

definition rail_button :: "route \<Rightarrow> int \<Rightarrow> nav_item \<Rightarrow> 'e shell_click node" where
  "rail_button r badge i =
     Btn (plain_class (rail_class r i))
       ((if i = NavErrors then nullish (badge_text badge) [] else []) @ rail_icon i @ rail_label i)
       (FrameEv (Hash (rail_hash i)))"

definition RELEASES_URL :: jstr where
  "RELEASES_URL = js ''https://github.com/REDDE4D/marshal-pm/releases''"

definition UpdateBanner_view :: "update_status \<Rightarrow> bool \<Rightarrow> 'e shell_click node list" where
  "UpdateBanner_view u dismissed =
     show_if (banner_shown u dismissed)
       [Div ''updbar''
          [Span ''updbar-dot'' [0x2191], Span ''updbar-txt'' (banner_text u),
           Anchor (js ''updbar-lnk'') (js ''release notes '' @ [0x2197]) RELEASES_URL,
           Btn (plain_class (js ''updbar-x'')) [0x2715] DismissBanner]]"

definition fallback :: "'e node" where
  "fallback =
     Div ''content''
       [Div ''sec'' [Span ''ix'' (js ''!''), Span ''t rose'' (js ''Render error'')],
        Span '''' (js ''Something went wrong rendering this page. Reload.'')]"

definition AppShell_view ::
  "jstr \<Rightarrow> route \<Rightarrow> int \<Rightarrow> (update_status \<times> bool) option \<Rightarrow> 'e node list option \<Rightarrow> 'e shell_click node" where
  "AppShell_view ctx r badge update children =
     Div ''shell''
       [Div ''rail'' (Span ''mk'' (js ''m$'') # map (rail_button r badge) RAIL @ [Span ''sp'' []]),
        Div ''main''
          ([Div ''top''
              [Span ''ctx'' ctx, Div ''rt'' [Btn (plain_class (js ''lnk'')) (js ''sign out'') (FrameEv SignOut)]]] @
           (case update of None \<Rightarrow> [] | Some (u, d) \<Rightarrow> UpdateBanner_view u d) @
           [case children of None \<Rightarrow> fallback | Some ns \<Rightarrow> Div ''content'' (map (map_node PageClick) ns)])]"

text \<open>\<open>render\<close> is what the page of a route renders.\<close>

definition App_view ::
  "int \<Rightarrow> (update_status \<times> bool) option \<Rightarrow> (route \<Rightarrow> 'e node list) \<Rightarrow> frame \<Rightarrow> 'e shell_click node list" where
  "App_view badge update render s =
     (case App s of
        LoadingPage \<Rightarrow> [Span ''loading'' (js ''loading'' @ ellipsis)]
      | LoginPage \<Rightarrow> [Login_view (fr_login s)]
      | Shell ctx p \<Rightarrow> [AppShell_view ctx (current (fr_router s)) badge update (map_option render p)])"

section \<open>What can be done\<close>

lemma controls_pages: "controls (map (map_node f) ns) = map (map_prod id f) (controls ns)"
  by (simp add: controls_def presses_map_node map_concat comp_def)

lemma controls_rail: "controls (map (rail_button r badge) is) = map (\<lambda>i. (False, FrameEv (Hash (rail_hash i)))) is"
  by (induction "is") (simp_all add: rail_button_def plain_class_def)

lemma controls_frame: "(False, FrameEv e) \<in> set (controls (App_view badge update render s)) \<longleftrightarrow>
    (App s = LoginPage \<and> e = Submit \<and> \<not> lf_busy (fr_login s)) \<or>
    (fr_authed s = Some True \<and> (e = SignOut \<or> (\<exists>i. e = Hash (rail_hash i))))"
proof -
  have all: "set RAIL = UNIV" by (auto simp: RAIL_def intro: nav_item.exhaust)
  have map: "(False, FrameEv e) \<notin> set (controls (map (map_node PageClick) ns))" for ns :: "'a node list"
    by (auto simp: controls_pages)
  show ?thesis
    by (auto simp: App_view_def AppShell_view_def Login_view_def App_def controls_rail UpdateBanner_view_def fallback_def plain_class_def
        Button_def Let_def map all show_if_def image_iff map_option_case split: page.split option.split bool.split prod.split)
qed

end
