(* ===== verification/Screens.thy ===== *)
theory Screens imports FleetView PageViews FormViews ShellView begin

text \<open>
  The pages with everything they render, their dialogs included, and what the buttons on them mean:
  the rendered tree offers a button that submits, saves or controls exactly when pressing it has an effect.
\<close>

section \<open>The fleet page with its dialogs\<close>

fun live_click :: "live_event \<Rightarrow> fleet_page_event" where
  "live_click LiveClose = page_ev OvCloseLive"
| "live_click x = FlLive x"

definition fleet_screen ::
  "(jstr \<Rightarrow> jstr) \<Rightarrow> (jstr \<Rightarrow> (jstr \<Rightarrow> bool) option) \<Rightarrow> (int \<Rightarrow> nat \<times> nat \<times> nat) \<Rightarrow> rat \<Rightarrow> fleet_page \<Rightarrow>
   fleet_page_event node list" where
  "fleet_screen lower compile clock now s =
     (let d = fl_dialogs s
      in fleet_view now s
         @ show_if (add_open d) [map_node FlDialog (AddAppModal_view (ov_agents (fd_page d)) (fd_add d ! present d))]
         @ (case fl_connect s of None \<Rightarrow> [] | Some c \<Rightarrow> [ConnectAgentModal_view c])
         @ (case fl_live s of None \<Rightarrow> [] | Some l \<Rightarrow> [map_node live_click (LiveLogModal_view lower compile clock l)]))"

section \<open>The process page with its parts\<close>

fun detail_live_click :: "live_event \<Rightarrow> detail_click" where
  "detail_live_click LiveClose = DetailEv (ShowLive False)"
| "detail_live_click x = LiveInput x"

text \<open>\<open>value\<close> is the text in the prompt of the file browser.\<close>

definition process_screen ::
  "(jstr \<Rightarrow> jstr) \<Rightarrow> (jstr \<Rightarrow> (jstr \<Rightarrow> bool) option) \<Rightarrow> (int \<Rightarrow> nat \<times> nat \<times> nat) \<Rightarrow> (int \<Rightarrow> jstr) \<Rightarrow> (int \<Rightarrow> jstr) \<Rightarrow> rat \<Rightarrow>
   nat option \<Rightarrow> nat option \<Rightarrow> bool \<Rightarrow> prompt \<Rightarrow> process_page \<Rightarrow> detail_click node list result" where
  "process_screen lower compile clock date time nowSec cpu_hover mem_hover yes p s =
     map_result (\<lambda>files. detail_view date time nowSec cpu_hover mem_hover yes files (pp_page s) @
         (case pp_live s of None \<Rightarrow> [] | Some l \<Rightarrow> [map_node detail_live_click (LiveLogModal_view lower compile clock l)]))
       (case pp_files s of None \<Rightarrow> Inr [] | Some b \<Rightarrow> FileBrowser_view p b)"

section \<open>Where the buttons are\<close>

lemma in_controls_map: "c \<in> set (controls (map f xs)) \<longleftrightarrow> (\<exists>x \<in> set xs. c \<in> set (controls [f x]))"
  by (auto simp: controls_map)

lemma controls_maps [simp]: "controls (map (map_node f) ns) = map (map_prod id f) (controls ns)"
  by (simp add: controls_def presses_map_node map_concat comp_def)

lemma controls_spans [simp]: "controls (map (\<lambda>b. Span c (g b)) bs) = []"
  by (induction bs) simp_all

lemma controls_charts [simp]: "controls (MetricChart_view time bs m h # ns) = controls ns" "controls (BarSparkline_view pts # ns) = controls ns"
  by (simp_all add: MetricChart_view_def BarSparkline_view_def split: option.split prod.split)

lemma Press_offered: "(False, DetailEv (Press b)) \<in> set (controls (detail_view date time now ch mh yes files s)) \<longleftrightarrow>
    dp_connected s \<and> b \<in> {BtnRestart, BtnReload yes, BtnStop}"
  by (auto simp: detail_view_def detail_crumb_def detail_header_def detail_subtabs_def detail_overview_def offline_reason_def
      in_controls_map recent_line_def show_if_def split: detail_body.split option.split)

lemma ack_all_offered: "(False, ErrorsEv ClickAckAll) \<in> set (controls (errors_tree now s)) \<longleftrightarrow> \<not> ep_acking s \<and> unacked s \<noteq> []"
  by (auto simp: errors_tree_def errors_cluster_def errors_section_def errors_header_def errors_view_of_def errors_row_view_def Let_def
      in_controls_map split: option.split prod.split)

lemma create_offered: "(False, CredEv Create) \<in> set (controls (Credentials_view date c)) \<longleftrightarrow> cred_canSubmit c"
proof -
  have "(False, CredEv Create) \<notin> set (controls (cred_list_view date c))"
    by (auto simp: cred_list_view_def cred_row_view_def small_button_def in_controls_map split: cred_body.split option.split)
  then show ?thesis
    by (cases "cp_kind c") (simp_all add: Credentials_view_def cred_form_view_def cred_inputs_def small_button_def cred_disabledReason_def cred_canSubmit_def)
qed

lemma notif_rows [simp]:
  "controls [channel_row_view ch] = [(False, TestChannel (nc_name ch)), (False, DeleteChannel (nc_name ch))]"
  "controls [channel_field_view fm x] = []" "controls [rule_row_view r] = [(False, DeleteRule (nr_name r))]"
  by (simp_all add: channel_row_view_def channel_field_view_def rule_row_view_def Let_def in_controls_map controls_map split: prod.split)

lemma notif_offered:
  "(False, NotifEv AddChannel) \<in> set (controls (Notifications_view num s)) \<longleftrightarrow>
     np_cfg s \<noteq> None \<and> np_settings s \<noteq> None \<and> name_reason ''Enter a channel name first'' (cf_name (np_channel s)) = None"
  "(False, NotifEv AddRule) \<in> set (controls (Notifications_view num s)) \<longleftrightarrow>
     np_cfg s \<noteq> None \<and> np_settings s \<noteq> None \<and> name_reason ''Enter a rule name first'' (rf_name (np_rule s)) = None"
  "(False, NotifEv SendTest) \<in> set (controls (Notifications_view num s)) \<longleftrightarrow>
     (\<exists>cfg f. np_cfg s = Some cfg \<and> np_settings s = Some f \<and> enabledCount cfg \<noteq> 0 \<and> \<not> sf_testing f)"
  by (auto simp: Notifications_view_def ChannelSection_def RuleSection_def SettingsSection_def test_button_def name_reason_def in_controls_map show_if_def Let_def split: option.split prod.split)

lemma add_fields_offered: "(False, FdSubmit) \<notin> set (controls (map (add_field_view agents m) xs))"
  by (auto simp: in_controls_map add_field_view_def add_control_def env_row_view_def Let_def split: add_field.splits)

lemma add_offered: "(False, FdSubmit) \<in> set (controls [AddAppModal_view agents m]) \<longleftrightarrow> canSubmit (am_form m)"
proof -
  have "nullish (disabledReason (am_form m)) [] = [] \<longleftrightarrow> canSubmit (am_form m)"
    by (cases "disabledReason (am_form m)") (auto simp: canSubmit_reason disabledReason_def split: if_splits)
  then show ?thesis by (simp add: AddAppModal_view_def Let_def add_fields_offered)
qed

lemma generate_offered: "(False, FlConnect Generate) \<in> set (controls [ConnectAgentModal_view c]) \<longleftrightarrow> \<not> co_busy (cn_form c)"
  by (auto simp: ConnectAgentModal_view_def Let_def)

lemma save_offered: "(False, FilesEv ClickSave) \<in> set (controls (files_tree url p b)) \<longleftrightarrow> editable b \<and> save_reason b = None"
proof -
  have "nullish (save_reason b) [] = [] \<longleftrightarrow> save_reason b = None" by (simp add: save_reason_def split: option.split)
  then show ?thesis
    by (auto simp: files_tree_def files_crumbs_def files_list_def files_row_def files_open_def files_dialog_def ConfirmDialog_view_def
        PromptDialog_view_def editable_def in_controls_map show_if_def split: option.splits dialog.splits)
qed

section \<open>What pressing does\<close>

lemma submit_effect: "frame_step fr Submit \<noteq> fr \<longleftrightarrow> App fr = LoginPage \<and> \<not> lf_busy (fr_login fr)"
  by (auto simp: submit_def dest: arg_cong [where f = "\<lambda>x. lf_busy (fr_login x)"])

lemma add_effect: "length (fd_sent (fd_step d FdSubmit)) = Suc (length (fd_sent d)) \<longleftrightarrow> add_open d \<and> canSubmit (am_form (fd_add d ! present d))"
  by (auto simp: submit_cases Let_def split: if_splits)

lemma generate_effect: "connect_step c Generate \<noteq> c \<longleftrightarrow> \<not> co_busy (cn_form c)"
  by (auto dest: arg_cong [where f = "\<lambda>x. length (cn_sent x)"])

lemma press_effect: "detail_step s (Press b) \<noteq> s \<longleftrightarrow> dp_connected s \<and> b \<noteq> BtnReload False"
  by (auto simp: detail_click_def doControl_def split: detail_button.split dest: arg_cong [where f = "\<lambda>x. length (dp_sent x)"])

lemma save_effect: "browser_step b ClickSave \<noteq> b \<longleftrightarrow> fb_dialog b = None \<and> editable b \<and> save_reason b = None"
proof -
  have "fb_busy (onSave b) \<and> \<not> fb_busy b" if "editable b" "save_reason b = None"
    using that by (auto simp: onSave_def start_mutation_def editable_def save_reason_def split: option.splits if_splits)
  then have "onSave b \<noteq> b" if "editable b" "save_reason b = None" using that by metis
  then show ?thesis by auto
qed

lemma ack_all_effect: "errors_step s ClickAckAll \<noteq> s \<longleftrightarrow> \<not> ep_acking s \<and> unacked s \<noteq> []"
  by (auto simp: onAckAll_def dest: arg_cong [where f = ep_acking])

lemma create_effect: "cred_step c Create \<noteq> c \<longleftrightarrow> cred_canSubmit c"
  by (auto simp: handleCreate_def cred_canSubmit_def dest: arg_cong [where f = cp_busy])

lemma on_settings_eq: "on_settings g s = s \<longleftrightarrow> map_option g (np_settings s) = np_settings s"
  by (cases s) (simp add: on_settings_def)

lemma notif_effect:
  "notif_step s AddChannel \<noteq> s \<longleftrightarrow> name_reason ''Enter a channel name first'' (cf_name (np_channel s)) = None"
  "notif_step s AddRule \<noteq> s \<longleftrightarrow> name_reason ''Enter a rule name first'' (rf_name (np_rule s)) = None"
  "notif_step s SendTest \<noteq> s \<longleftrightarrow> (\<exists>cfg f. np_cfg s = Some cfg \<and> np_settings s = Some f \<and> enabledCount cfg \<noteq> 0 \<and> \<not> sf_testing f)"
proof -
  have "(if sf_testing x then x else send_test x) = x \<longleftrightarrow> sf_testing x" for x
    by (auto simp: send_test_def dest: arg_cong [where f = sf_testing])
  then have "on_settings (\<lambda>x. if sf_testing x then x else send_test x) s \<noteq> s \<longleftrightarrow> (\<exists>f. np_settings s = Some f \<and> \<not> sf_testing f)"
    by (cases "np_settings s") (simp_all add: on_settings_eq)
  then show "notif_step s SendTest \<noteq> s \<longleftrightarrow> (\<exists>cfg f. np_cfg s = Some cfg \<and> np_settings s = Some f \<and> enabledCount cfg \<noteq> 0 \<and> \<not> sf_testing f)"
    by (cases "np_cfg s") simp_all
qed (auto simp: submit_channel_def submit_rule_def send_req_def dest: arg_cong [where f = "\<lambda>x. length (np_sent x)"])

section \<open>Properties\<close>


end
