(* ===== verification/Spec2Isabelle.thy ===== *)
theory Spec2Isabelle
  imports Prelude JsString Uri Router JsNumber Format ApiTypes Api FleetSummary LogStore LogStream Logs
    Widgets ControlActions FileBrowser Session AddApp Credentials Charts Polling Ledger ErrorsPage
    ProcessDetail Notifications LogViews LogsPage Overview FleetDialogs LiveDialog FleetPage ProcessPage
    Application ErrorStore MetricStore RateLimit SessionStore SignIn
    View DialogViews FleetView PageViews FormViews ShellView Screens
begin

text \<open>
  Marshal's dashboard, verified.

  Marshal is a process manager: an agent on each machine supervises its processes and reports to
  a server, whose dashboard is the browser application under src/web/src. This development
  models that application (TypeScript and React) and, for the protocols where correctness
  depends on both sides (logs, error signatures, metrics, sessions), the Go code that answers it. The functions of the source are HOL
  functions of the same name, its component states are records, its event handlers are steps on
  these records, and its errors are values of a sum type.

  \<^bold>\<open>Parts and how they interact.\<close> \<open>App\<close> asks the server for the session, then shows the login form
  or the shell with the page the location hash names. The pages poll the server through the API
  client and send it control, file, credential and notification requests. Answers arrive late and
  in any order: a handler that awaits an answer is split into the step that sends the request and
  the step that takes the answer, and the requests in flight are part of the state, so every
  order of clicks, timers and answers is a sequence of events.

  \<^bold>\<open>Theories.\<close>
  \<^item> \<open>Prelude\<close>: UTF-16 strings (lists of 16-bit words), \<open>??\<close> and \<open>||\<close>, results, list lemmas.
    \<open>JsString\<close>, \<open>JsNumber\<close>: the string and number operations the source uses (trim, split, join,
    padStart, toFixed, Number, Math.round), over exact rationals where the source has doubles.
  \<^item> \<open>Uri\<close>: encodeURIComponent, decodeURIComponent and URLSearchParams on code units with the
    errors they throw; the locale \<open>component_codec\<close> with an interpretation for each encoding; the
    alphabet of encoded texts.
  \<^item> \<open>Router\<close> (router.ts, lib/nav.ts): parseHash, the link builders, useRoute, navItemFor.
  \<^item> \<open>Format\<close> (lib/format.ts), \<open>FleetSummary\<close> (lib/status.ts, lib/fleet.ts, StatusGlyph.tsx),
    \<open>Charts\<close> (Sparkline.tsx, BarSparkline.tsx, MetricChart.tsx).
  \<^item> \<open>ApiTypes\<close>, \<open>Api\<close> (api.ts): every function as the request it sends and the handling of its
    response; a fetch either rejects or gives a response.
  \<^item> \<open>LogStore\<close> (internal/logstore/store.go, internal/server/logstores.go,
    internal/dashboard/logs.go): the log table, its queries and the two handlers; the locale
    \<open>log_source\<close> is the contract a polling client relies on, interpreted on the table.
    \<open>LogStream\<close> (hooks/useLogStream.ts): the polling hook with its effects, closures and requests in
    flight, alone (an inductive step relation) and against the server (\<open>watch\<close>).
    \<open>Logs\<close> (lib/logs.ts, LogPanel.tsx, LiveLogModal.tsx, LogView.tsx): levels, filters, scrolling.
    \<open>LogViews\<close>: the log panel and the live log dialog as machines around the hook, with the locale
    \<open>log_client\<close> interpreted for both.
  \<^item> \<open>Widgets\<close> (Controls.tsx, ConfirmDialog.tsx, Modal.tsx), \<open>Ledger\<close> (Cluster.tsx, Ledger.tsx,
    EmptyState.tsx): what the shared components show and which handlers they run.
  \<^item> \<open>ControlActions\<close> (ControlButtons.tsx, RestartAllButton.tsx, StatusMessage.tsx): the
    confirm-then-fire machines; their locale is also interpreted for the deletion of credentials.
  \<^item> \<open>FileBrowser\<close>, \<open>AddApp\<close> (AddAppModal.tsx, ConnectAgentModal.tsx), \<open>Credentials\<close>,
    \<open>FleetDialogs\<close> (the add and connect dialogs as machines inside the fleet page),
    \<open>Session\<close> (App.tsx, AppShell.tsx, Login.tsx, ErrorBoundary.tsx, UpdateBanner.tsx).
  \<^item> \<open>Polling\<close>: the effect with a stop flag which the pages share, with the locale \<open>guarded_poll\<close>,
    interpreted by each page that uses it: \<open>Overview\<close>, \<open>ProcessDetail\<close>, \<open>ErrorsPage\<close>. Further pages are
    \<open>LogsPage\<close>, composed with the log panel it mounts, and \<open>Notifications\<close>.
  \<^item> \<open>LiveDialog\<close>: the scroll box of the live log dialog and the dialog as a part of a page, with the
    locale \<open>live_host\<close>; \<open>LogWatch\<close>: the dialog and the log panel polling a growing log of \<open>LogStore\<close>, with
    the locale \<open>log_viewer\<close>, which \<open>live_server\<close> gives every host of the dialog; \<open>FleetPage\<close> and
    \<open>ProcessPage\<close> interpret it: the fleet page with its dialogs and restart buttons, the process page with
    the file browser of its Files tab, each part mounted, handed props and unmounted by the page.
  \<^item> \<open>Application\<close> (App.tsx with everything it renders): the frame, the shell, the page mounted and the
    pages left with answers under way, as one machine; the locale \<open>mounted_page\<close> of \<open>Polling\<close>, interpreted
    by every page with effects, says what a page owes it while mounted and after it was left.
  \<^item> \<open>ErrorStore\<close> (internal/errsig, internal/ackstore, internal/dashboard/errors.go, and the query of error lines
    in internal/logstore/store.go): the counterpart of the errors page.
  \<^item> \<open>MetricStore\<close> (internal/metricstore/store.go, internal/server/stores.go,
    internal/dashboard/metrics.go): the table of samples, its bucketed query, the merging of instances and the
    handler: the counterpart of the charts.
  \<^item> \<open>RateLimit\<close> (internal/ratelimit/limiter.go): the lockout, with the 64-bit doubling of its locks; the
    locale \<open>lockout\<close> bounds the failures of a key, interpreted for the policy of the dashboard.
    \<open>SessionStore\<close> (internal/dashboard/session.go, the log-in handlers of internal/dashboard/handlers.go, the
    dashboard users of internal/server/auth.go): users, sessions with their file, and the server as a machine
    of log-ins, log-outs, requests, sweeps, password changes and restarts. \<open>SignIn\<close>: this server together
    with the frame of \<open>Session\<close> and the cookie of the browser.
  \<^item> \<open>View\<close>: what the shared components render, as trees of texts, fields, and buttons that carry the event
    of their handler; \<open>DialogViews\<close> (AddAppModal.tsx, ConnectAgentModal.tsx, ConfirmDialog.tsx, FileBrowser.tsx),
    \<open>FleetView\<close> (Overview.tsx, RestartAllButton.tsx), \<open>PageViews\<close> (ProcessDetail.tsx, MetricChart.tsx, Errors.tsx,
    Logs.tsx, LogPanel.tsx, LogView.tsx, LiveLogModal.tsx), \<open>FormViews\<close> (Credentials.tsx, Notifications.tsx) and
    \<open>ShellView\<close> (Login.tsx, AppShell.tsx, UpdateBanner.tsx, ErrorBoundary.tsx, App.tsx) give the trees of the
    pages for the states of the theories above; \<open>Screens\<close> puts the dialogs on their pages.
  \<^item> This theory: results that span components.

  \<^bold>\<open>What the lemmas show.\<close>
  \<^item> Log stream: what is held is bounded and of the current selection, a paused view is frozen, and
    a view polling the server shows a contiguous run of the table's rows, completely when each
    interval's rows fit an answer, and catches up in finitely many polls otherwise;
    the same for the dialog opened on the fleet page or the process page, whatever else happens there.
    A log box follows its end until the reader scrolls up or pauses.
  \<^item> Actions: no control request without its confirmation, when the buttons become free again, and
    what a click sends; the same for credentials, files, the add form and notifications.
  \<^item> Pages: late answers never replace newer ones, what is shown belongs to the selection shown,
    and the figures shown are those of the data.
  \<^item> Codecs: links, request URLs and query strings decode to the texts they were built from and use
    printable ASCII only.
  \<^item> Across components: the error count of a process equals the error lines its log serves, a form's
    button explains exactly when it sends nothing, a failed fleet poll signs out, and what an
    acknowledgement changes in the errors served next; the peaks shown for a process are the largest samples
    stored for it.
  \<^item> Sign-in: a page is only shown, and a request only served, on a token issued against a password; when
    tokens stop working; how many passwords can be tried; the right password lets in.
  \<^item> Application: the page mounted is always the one the route names and only with a session, and
    exactly which events show the login form; no late answer to a page left does. Fleet and
    process page: every part they render works for the agent and process their state names.
  \<^item> Screens: a button that submits, saves or controls is offered exactly when pressing it has an effect, any
    control of the pages and dialogs that is greyed out would do nothing, every process of the fleet can be opened from its row, and without a session nothing but the
    login form is offered (\<open>controls_frame\<close>).
  \<^item> Where the code does something its authors would not want, a lemma states that behaviour: among
    others \<open>use_route_init_throws\<close>, \<open>resume_repeats\<close>, \<open>overlap_repeats\<close>, \<open>prune_silences\<close>,
    \<open>sign_out_keeps_session\<close>, \<open>save_race\<close>, \<open>stale_rows\<close>, \<open>errors_mislabelled\<close>, \<open>detail_stale\<close>,
    \<open>rule_keeps_deleted\<close>, \<open>row_actions_unconfirmed\<close>, \<open>late_add_closes\<close>, \<open>agent_shown_differs\<close>,
    \<open>prompt_focus_stolen\<close>, \<open>recurrence_hidden\<close>, \<open>errors_row_unfound\<close>,
    \<open>draft_follows_route\<close>, \<open>peak_below_average\<close>, \<open>agents_share_store\<close>, \<open>streak_evicted\<close>,
    \<open>logout_undone\<close>, \<open>ip_user_resets\<close>, \<open>lockout_looks_wrong\<close>, \<open>only_admin\<close>.

  \<^bold>\<open>Bounds and fuel.\<close> No definition needs fuel: recursions are structural or have a measure (the
  percent decoder). The bounds are the source's own: 5000 lines in a log view, 500 or at most 5000
  lines in an answer, 120 bars, five minutes of error counts, locks of one to fifteen minutes, sessions of a day. The theorem on catching up gives the
  number of polls in the length of the log and the limit.

  \<^bold>\<open>Abstractions.\<close> Doubles are rationals, with NaN and the infinities where the source can meet
  them (number fields). JSON values are the typed views the API declares; a body that does not
  parse is an error value. SQLite's LIKE, the browser's texts of dates and times, the layout that gives a row of a
  log box its height, and on the server lower-casing,
  the signature of an error text and the source location in a trace are parameters, and so are base64, PBKDF2
  and SHA-256, the random bytes of salts and tokens, and whether a write to disk succeeds. Times of the
  server are exact (milliseconds for logs and metrics, nanoseconds for sessions and locks). Browser
  events that React cannot deliver (a click on a button that is not rendered) are steps that
  change nothing; once a page is left its pending answers are taken by stopped runs.

  \<^bold>\<open>Not modelled.\<close> Inline styles, fonts and the attributes for screen readers; drawings beyond their points; main.tsx and Logo.tsx, which hold no operation;
  React's scheduling inside one event (batched updates are applied at once); the clipboard; and
  the Go programs other than the stores and handlers named above. Of those, what is left out is said in each
  theory: SQLite connections and files, downloads, the log-in of agents, and the regular expressions that
  bring an error text into its normal form, which the browser never sees. The remaining Go packages
  (command line, daemon, supervision, fleet connection, notification delivery, deployment) run on other
  machines or behind the API; the application reaches them only over HTTP, where every answer the
  types allow is covered.
\<close>

section \<open>The error count of a process and its log\<close>

text \<open>The page and the server match the same labels.\<close>

lemma count_label_match: "count_label = label_match"
  by (intro ext) (simp add: count_label_def label_match_def)

lemma count_errors_sum: "count_errors proc counts = sum_list (map snd (filter (\<lambda>(l, c). label_match proc l) counts))"
proof -
  have "foldl (\<lambda>n (l, c). if label_match proc l then n + c else n) n counts =
      n + sum_list (map snd (filter (\<lambda>(l, c). label_match proc l) counts))" for n
    by (induction counts arbitrary: n) auto
  then show ?thesis by (simp add: count_errors_def count_label_match)
qed

lemma logstats_counts:
  "agent \<noteq> [] \<Longrightarrow> map_of stores agent = Some t \<Longrightarrow>
   reply (logstats_handler stores now agent) getLogStats_res = Inr (ErrorCounts t (now - 5 * 60 * 1000))"
  by (simp add: logstats_handler_def stores_error_counts_def getLogStats_res_def json_or_401_def map_result_def nullish_def)

text \<open>C14. The error count of the process page counts log lines: when the server answers the request
  for the error counts of a live run of the fleet effect, the figure in the cell "Errors 5m" is
  the number of lines of the last five minutes which the error log of that process, over all
  its instances, serves from the same store.\<close>

theorem errors_count_lines:
  assumes "k < length (dp_stats s)" "\<not> poll_stopped (dp_stats s ! k) (dp_fleet s)"
    "ef_key (pl_runs (dp_fleet s) ! (dp_stats s ! k)) = (agent, proc)"
    "agent \<noteq> []" "map_of stores agent = Some t"
  shows "cell_value (detail_cells date now_s (stats_answered k (logstats_handler stores now agent) s) ! 4) =
    dec_int (int (length (filter (\<lambda>l. now - 5 * 60 * 1000 \<le> sl_ts l) (source_rows like proc StreamStderr [] t))))"
  using assms logstats_counts [OF assms(4,5), of now] error_counts_sum [of proc t "now - 5 * 60 * 1000" like]
  by (simp add: stats_answered_def Let_def count_errors_sum detail_cells_def Cell_def)

theorem errors_count_lines_witness:
  "cell_value (detail_cells (\<lambda>_. []) 0 (stats_answered 0
      (logstats_handler [(js ''dev'', append_lines [] [\<lparr>nl_ts = 9, nl_label = js ''web#0'', nl_stderr = True, nl_text = js ''boom''\<rparr>])] 10 (js ''dev''))
      ((detail_mount (js ''dev'') (js ''web''))\<lparr>dp_stats := [0]\<rparr>)) ! 4) = js ''1''"
proof -
  let ?s = "(detail_mount (js ''dev'') (js ''web''))\<lparr>dp_stats := [0]\<rparr>"
  let ?t = "append_lines [] [\<lparr>nl_ts = 9, nl_label = js ''web#0'', nl_stderr = True, nl_text = js ''boom''\<rparr>]"
  have run: "pl_runs (dp_fleet ?s) = [\<lparr>ef_key = (js ''dev'', js ''web''), ef_local = (), ef_stop = False\<rparr>]"
    by (simp add: detail_mount_def poll_start_runs poll_cleanup_def no_polls_def)
  have rows: "length (filter (\<lambda>l. 10 - 5 * 60 * 1000 \<le> sl_ts l) (source_rows (\<lambda>_ _. True) (js ''web'') StreamStderr [] ?t)) = 1"
    by (simp add: source_rows_def append_lines_def insert_line_def label_match_def startsWith_def js_def unit_of_def)
  show ?thesis
    using errors_count_lines [of 0 ?s "js ''dev''" "js ''web''" "[(js ''dev'', ?t)]" ?t "\<lambda>_. []" 0 10 "\<lambda>_ _. True"] run rows
    by (simp add: poll_stopped_def dec_int_def dec_nat.simps digit_unit_def js_def unit_of_def)
qed

section \<open>The peaks of a process and its samples\<close>

lemma metrics_served:
  fixes stores :: metric_stores and now_ms w :: int
  assumes "agent \<noteq> []" "proc \<noteq> []" "map_of stores (sanitizeAgent agent) = Some t" "0 \<le> w"
  defines "rows \<equiv> app_rows proc (now_ms - w) t"
  shows "\<exists>d. reply (metrics_handler stores fleet now_ms agent proc (Some w) (Some 0)) getMetricsForProc_res = Inr d \<and>
    peak cpu_max (first_buckets d) = (if rows = [] then None else Some (Max (set (map sm_cpu rows)))) \<and>
    peak mem_max (first_buckets d) = (if rows = [] then None else Some (of_int (Max (set (map sm_mem rows)))))"
proof -
  from history_peaks [OF assms(3), of now_ms proc w 0] obtain bs where
    bs: "metric_history stores now_ms agent proc w 0 = Some bs" "if rows = [] then bs = []
     else bs \<noteq> [] \<and> Max (set (map cpu_max bs)) = Max (set (map sm_cpu rows)) \<and>
       Max (set (map mem_max bs)) = of_int (Max (set (map sm_mem rows)))"
    unfolding rows_def by blast
  then show ?thesis
    using assms(1,2,4)
    by (auto simp: metrics_handler_def parseMs_def metrics_ok_def getMetricsForProc_res_def json_or_401_def first_buckets_def
        peak_def split: if_splits)
qed

text \<open>C15. The peaks on the process page are those of the samples: when the server answers the metrics
  request of a live run of the page's effect, the note under "CPU" gives the largest CPU share
  and the note under "Memory" the largest memory of all samples of the window, over all
  instances of the app, which the store holds, however it cut them into buckets and merged the
  instances; without a sample both notes are empty.\<close>

theorem peaks_are_samples:
  fixes stores :: metric_stores and fleet :: "(jstr \<times> jstr list) list" and now_ms :: int and now_s :: rat
    and date :: "int \<Rightarrow> jstr"
  assumes "poll_take j (dp_metrics s) = Some (i, (), p)" "\<not> poll_stopped i p"
    "ef_key (pl_runs p ! i) = (agent, proc, dp_window s)"
    "agent \<noteq> []" "proc \<noteq> []" "map_of stores (sanitizeAgent agent) = Some t" "0 \<le> dp_window s"
  defines "rows \<equiv> app_rows proc (now_ms - dp_window s) t"
  defines "cells \<equiv> detail_cells date now_s
      (metrics_answered j (metrics_handler stores fleet now_ms agent proc (Some (dp_window s)) (Some 0)) s)"
  shows "cell_sub (cells ! 0) = (if rows = [] then None
      else Some (js ''peak '' @ toFixed 1 (Max (set (map sm_cpu rows))) @ js ''% '' @ middle_dot @ js '' '' @ windowLabel (dp_window s))) \<and>
    cell_sub (cells ! 1) = (if rows = [] then None
      else Some (js ''peak '' @ dec_int (Math_round (of_int (Max (set (map sm_mem rows))) / 1048576)) @ js '' MB''))"
proof -
  from metrics_served [OF assms(4-7), of fleet now_ms] obtain d where
    d: "reply (metrics_handler stores fleet now_ms agent proc (Some (dp_window s)) (Some 0)) getMetricsForProc_res = Inr d"
      "peak cpu_max (first_buckets d) = (if rows = [] then None else Some (Max (set (map sm_cpu rows))))"
      "peak mem_max (first_buckets d) = (if rows = [] then None else Some (of_int (Max (set (map sm_mem rows)))))"
    unfolding rows_def by blast
  show ?thesis
    unfolding cells_def metrics_answered_def assms(1) using assms(2) d
    by (simp add: detail_cells_def Let_def Cell_def if_shown_def)
qed

theorem peaks_are_samples_witness:
  "cell_sub (detail_cells (\<lambda>_. []) 0 (metrics_answered 0
      (metrics_handler [(js ''dev'', append_samples [] 9 [(js ''web#0'', 12, 1048576), (js ''web#1'', 7, 2097152)])] [] 10
        (js ''dev'') (js ''web'') (Some 900000) (Some 0))
      (detail_mount (js ''dev'') (js ''web''))) ! 1) = Some (js ''peak 2 MB'')"
proof -
  let ?s = "detail_mount (js ''dev'') (js ''web'')"
  let ?t = "append_samples [] 9 [(js ''web#0'', 12, 1048576), (js ''web#1'', 7, 2097152)]"
  have run: "poll_take 0 (dp_metrics ?s) =
      Some (0, (), (dp_metrics ?s)\<lparr>pl_flight := []\<rparr>)"
    "pl_runs (dp_metrics ?s) = [\<lparr>ef_key = (js ''dev'', js ''web'', 900000), ef_local = (), ef_stop = False\<rparr>]"
    "dp_window ?s = 900000"
    by (simp_all add: detail_mount_def poll_take_def poll_start_runs poll_start_def poll_send_def poll_cleanup_def no_polls_def
        WINDOWS_def Let_def)
  have st: "map_of [(js ''dev'', ?t)] (sanitizeAgent (js ''dev'')) = Some ?t"
    by (simp add: sanitizeAgent_def js_def unit_of_def)
  have rows: "app_rows (js ''web'') (10 - 900000) ?t = ?t"
    by (simp add: app_rows_def append_samples_def label_match_def startsWith_def js_def unit_of_def)
  have "Math_round 2 = 2" using Math_round_of_int [of 2] by simp
  then show ?thesis
    using peaks_are_samples [OF run(1) _ _ _ _ st, where date = "\<lambda>_. []" and now_s = 0 and now_ms = 10 and fleet = "[]"
        and proc = "js ''web''"] run rows
    by (simp add: poll_stopped_def append_samples_def dec_int_def dec_nat.simps digit_unit_def js_def unit_of_def)
qed

section \<open>Forms\<close>

lemma disabled_by_reason: "bt_disabled (Button v small cl reason False title) \<longleftrightarrow> nullish reason [] \<noteq> []"
  by (simp add: Button_def Let_def)

text \<open>A form explains why it cannot be sent: in every state the submit button of the add form, of
  the credentials form and of a prompt is disabled exactly when a submission would send
  nothing, and its tooltip is then the reason shown. The same holds for the save button of the
  file browser while a file is open.\<close>

lemma forms_explained:
  "(bt_disabled (Button v small cl (disabledReason f) False title) \<longleftrightarrow> snd (add_submit f) = None) \<and>
   (bt_disabled (Button v small cl (cred_disabledReason c) False title) \<longleftrightarrow> snd (handleCreate c) = None) \<and>
   (bt_disabled (Button v small cl (prompt_reason p) False title) \<longleftrightarrow> prompt_confirm p = None) \<and>
   (bt_disabled (Button v small cl (save_reason b) False title) \<longleftrightarrow>
      fb_busy b \<or> fb_open b \<noteq> None \<and> map_option fc_content (fb_open b) = Some (fb_draft b))"
proof -
  have "nullish (disabledReason f) [] \<noteq> [] \<longleftrightarrow> disabledReason f \<noteq> None"
    by (simp add: disabledReason_def nullish_def split: option.split)
  moreover have "snd (add_submit f) = None \<longleftrightarrow> disabledReason f \<noteq> None"
    by (simp add: add_submit_def canSubmit_reason)
  moreover have "nullish (cred_disabledReason c) [] \<noteq> [] \<longleftrightarrow> cred_disabledReason c \<noteq> None"
    by (simp add: cred_disabledReason_def nullish_def split: option.split)
  moreover have "snd (handleCreate c) = None \<longleftrightarrow> cred_disabledReason c \<noteq> None"
    by (simp add: handleCreate_def canSubmit_cred_reason)
  moreover have "nullish (prompt_reason p) [] \<noteq> [] \<longleftrightarrow> prompt_confirm p = None"
    by (simp add: prompt_confirm_def disabled_by_reason)
  moreover have "nullish (save_reason b) [] \<noteq> [] \<longleftrightarrow>
      fb_busy b \<or> fb_open b \<noteq> None \<and> map_option fc_content (fb_open b) = Some (fb_draft b)"
    by (auto simp: save_reason_def nullish_def split: option.split)
  ultimately show ?thesis by (simp only: disabled_by_reason)
qed

section \<open>The fleet page inside the application\<close>

text \<open>
  An event of the fleet page while it is shown: a call of \<open>onLogout\<close> signs out, and the page,
  no longer rendered, runs the cleanups of its effects.
\<close>

definition fleet_in_app :: "overview_event \<Rightarrow> frame \<times> overview \<Rightarrow> frame \<times> overview" where
  "fleet_in_app e s =
     (let v = overview_step (snd s) e
      in if ov_logouts (snd s) < ov_logouts v then (sign_out (fst s), overview_step v OvLeave) else (fst s, v))"

lemma overview_fleet_ok: "polls_ok (ov_fleet s) \<Longrightarrow> polls_ok (ov_fleet (overview_step s e))"
  using overview_poll.run_ok [of s "[e]"] by simp

text \<open>A failed fleet poll signs out: while the fleet page is shown the login form replaces it
  exactly when a request of the running effect gets no usable answer, be it a dropped
  connection or a proxy's error page and not only a 401; the session cookie is kept, so the
  user is still signed in on the server, and no later answer changes the page left or signs
  out once more.\<close>

lemma fleet_failure_signs_out:
  fixes es :: "overview_event list"
  assumes "App fr = Shell ctx page"
  defines "ov \<equiv> foldl overview_step overview_mount es"
  shows "(App (fst (fleet_in_app e (fr, ov))) = LoginPage \<longleftrightarrow> fleet_fails e ov) \<and>
    fr_cookie (fst (fleet_in_app e (fr, ov))) = fr_cookie fr \<and>
    (fleet_fails e ov \<longrightarrow>
       ov_logouts (foldl overview_step (snd (fleet_in_app e (fr, ov))) later) = Suc (ov_logouts ov) \<and>
       ov_agents (foldl overview_step (snd (fleet_in_app e (fr, ov))) later) = ov_agents ov)"
proof -
  have authed: "fr_authed fr = Some True" using assms(1) App_shell by blast
  have "polls_ok (ov_fleet ov)"
    unfolding ov_def by (rule overview_poll.run_ok) (rule overview_mount_ok)
  moreover have "polls_ok (ov_polls (overview_step ov e))"
    using overview_polls_ok [of overview_mount "es @ [e]"] by (simp add: ov_def overview_mount_def polls_ok_start)
  ultimately have left: "overview_idle (overview_step (overview_step ov e) OvLeave)"
    using overview_fleet_ok [of ov e] by (simp add: overview_idle_def polls_idle_cleanup)
  show ?thesis
  proof (cases "fleet_fails e ov")
    case True
    then have "fleet_in_app e (fr, ov) = (sign_out fr, overview_step (overview_step ov e) OvLeave)"
      by (simp add: fleet_in_app_def Let_def logout_step)
    with True show ?thesis
      using overview_left_run [OF left, of later] overview_shown_step [of ov e] fleet_fails_takes [OF True]
      by (simp add: App_def sign_out_def logout_step)
  next
    case False
    then have "fleet_in_app e (fr, ov) = (fr, overview_step ov e)" by (simp add: fleet_in_app_def Let_def logout_step)
    with False assms(1) show ?thesis by simp
  qed
qed

section \<open>Acknowledgements on both sides\<close>

text \<open>The answer of a mounted page's newest request is put on the page.\<close>

lemma load_answered:
  assumes "polls_ok (ep_polls s)" "reply f getErrors_res = Inr d"
  shows "errors_loaded (length (pl_flight (ep_polls s))) f (load_errors s) =
    (load_errors s)\<lparr>ep_polls := (ep_polls (load_errors s))\<lparr>pl_flight := pl_flight (ep_polls s)\<rparr>, ep_data := Some d\<rparr>"
  using assms(2)
  by (simp add: errors_loaded_def load_errors_def poll_take_def poll_start_def poll_send_def poll_stopped_def Let_def
      nth_append poll_cleanup_def)

text \<open>C34. An acknowledgement makes the round: a click on the button of a signature asks the server for
  the opposite of the state shown; the server stores it with the time of the request, and the
  page, once it has the success, loads the errors of the range shown anew. What it then shows
  is exactly the signatures of the error lines of the window; the clicked one is
  acknowledged if and only if it was not before and the last of its lines, in the order of the
  query, is not younger than the request, every other one as before; and the number of
  signatures to acknowledge is that of the rows offering it.\<close>

theorem ack_round:
  fixes s :: errors_page and v :: agg_env and stores :: log_stores and fleet :: "jstr list" and acks :: ack_store
    and now ack_ms :: int
  assumes "errors_ok s" "poll_running (ep_polls s)" "ep_data s = Some d" "i < length (er_signatures d)"
    "es_id (er_signatures d ! i) \<noteq> []"
  defines "g \<equiv> er_signatures d ! i"
  defines "served \<equiv> ack_handler ack_ms (es_id g) (\<not> es_acknowledged g) (Some acks)"
  defines "tok \<equiv> range_text (ep_range s)"
  defines "errs \<equiv> window_errors v stores fleet (now - snd (rangeMs tok))"
  defines "t \<equiv> foldl errors_step s [ClickAck i, AckAnswered (length (ep_acks s)) (snd served),
    ErrorsAnswered (length (pl_flight (ep_polls s))) (errors_handler v stores fleet (fst served) now tok [])]"
  shows "ep_sent t = ep_sent s @ [(es_id g, \<not> es_acknowledged g)] \<and>
    (\<exists>u. ep_data t = Some u \<and> er_range u = tok \<and>
      es_id ` set (er_signatures u) = (\<lambda>l. ae_signature v (el_text l)) ` set errs \<and>
      ec_unacknowledged (er_cluster u) = int (length (unacked t)) \<and>
      list_all (\<lambda>h. let newest = el_ts (last (sig_lines v (es_id h) errs)) div 1000 in
        es_acknowledged h = (if es_id h = es_id g then \<not> es_acknowledged g \<and> newest * 1000 \<le> ack_ms
          else acknowledged (acks (es_id h)) newest)) (er_signatures u))"
proof -
  let ?m = "if es_acknowledged g then Unack (es_id g) acks else Ack (es_id g) ack_ms acks"
  have served: "served = (Some ?m, Response (empty_response 200))"
    using assms(5) by (simp add: served_def ack_handler_def g_def)
  let ?a = "s\<lparr>ep_sent := ep_sent s @ [(es_id g, \<not> es_acknowledged g)], ep_tick := ep_tick s + 1\<rparr>"
  have sent: "foldl errors_step s [ClickAck i, AckAnswered (length (ep_acks s)) (snd served)] = load_errors ?a"
    using assms(2-4) by (simp add: served onAck_def g_def [symmetric] ack_answered_def reload_errors_def ackError_res_def
        resp_ok_def)
  obtain u where u: "reply (errors_handler v stores fleet (Some ?m) now tok []) getErrors_res = Inr u"
    using errors_handler_ok by blast
  have "t = errors_step (load_errors ?a) (ErrorsAnswered (length (pl_flight (ep_polls ?a))) (errors_handler v stores fleet (Some ?m) now tok []))"
    unfolding t_def sent [symmetric] by (simp add: served)
  then have t: "ep_data t = Some u" "ep_sent t = ep_sent ?a"
    using load_answered [OF _ u, of ?a] assms(1) by (simp_all add: errors_ok_def load_errors_def)
  note all = errors_served_all [OF u]
  have tok: "fst (rangeMs tok) = tok"
    by (cases "ep_range s") (simp_all add: tok_def rangeMs_def js_def unit_of_def)
  have each: "es_acknowledged h = (if es_id h = es_id g then \<not> es_acknowledged g \<and> el_ts (last (sig_lines v (es_id h) errs)) div 1000 * 1000 \<le> ack_ms
          else acknowledged (acks (es_id h)) (el_ts (last (sig_lines v (es_id h) errs)) div 1000))" if "h \<in> set (er_signatures u)" for h
    using errors_served(6) [OF u that] by (simp add: errs_def acknowledged_def Ack_def Unack_def)
  show ?thesis
    using all each t tok by (simp add: list_all_iff Let_def errs_def unacked_def nullish_def)
qed

definition sample_env :: agg_env where
  "sample_env = \<lparr>ae_lower = (\<lambda>x. x), ae_signature = (\<lambda>_. js ''a1''), ae_source = (\<lambda>_. [])\<rparr>"

definition sample_stores :: log_stores where
  "sample_stores =
     [(js ''dev'', append_lines [] [\<lparr>nl_ts = 5000, nl_label = js ''web#0'', nl_stderr = True, nl_text = js ''boom''\<rparr>])]"

lemma sample_window:
  "window_errors sample_env sample_stores [js ''dev''] (9000 - dayMs) =
    [\<lparr>el_ts = 5000, el_label = js ''web#0'', el_text = js ''boom'', el_agent = js ''dev''\<rparr>]"
  by (simp add: window_errors_def sample_env_def sample_stores_def agent_lines_def stores_stderr_since_def StderrSince_def
      Labels_def append_lines_def insert_line_def dayMs_def errMaxScan_def is_counted_def IsError_def Let_def
      errorMarkers_def infoWarnMarkers_def reLevelPrefix_def startsWith_def js_def unit_of_def go_space_def)

theorem ack_round_witness:
  "\<exists>u. ep_data (foldl errors_step (errors_mount\<lparr>ep_data := Some sample_errors\<rparr>)
      [ClickAck 0, AckAnswered 0 (Response (empty_response 200)),
       ErrorsAnswered 1 (errors_handler sample_env sample_stores [js ''dev''] (Some [js ''a1'' \<mapsto> 6000]) 9000 (js ''24h'') [])]) = Some u \<and>
    es_id ` set (er_signatures u) = {js ''a1''} \<and> list_all es_acknowledged (er_signatures u)"
proof -
  let ?s = "errors_mount\<lparr>ep_data := Some sample_errors\<rparr>"
  have s: "ep_acks errors_mount = []" "length (pl_flight (ep_polls errors_mount)) = 1"
    "range_text (ep_range errors_mount) = js ''24h''" "js ''a1'' \<noteq> []"
    by (simp_all add: errors_mount_def load_errors_def poll_start_def poll_send_def poll_cleanup_def no_polls_def Let_def
        js_def)
  have g: "es_id (er_signatures sample_errors ! 0) = js ''a1''" "\<not> es_acknowledged (er_signatures sample_errors ! 0)"
    "er_signatures sample_errors \<noteq> []"
    by (simp_all add: sample_errors_def)
  have served: "ack_handler 6000 (js ''a1'') True (Some Map.empty) = (Some [js ''a1'' \<mapsto> 6000], Response (empty_response 200))"
    by (simp add: ack_handler_def Ack_def js_def)
  have sign: "ae_signature sample_env x = js ''a1''" for x by (simp add: sample_env_def)
  have single: "es_id ` A = {k} \<Longrightarrow> x \<in> A \<Longrightarrow> es_id x = k" for A k and x :: err_signature by blast
  have window: "snd (rangeMs (js ''24h'')) = dayMs" by (simp add: rangeMs_def js_def unit_of_def)
  show ?thesis
    using ack_round [where s = ?s and d = sample_errors and i = 0 and v = sample_env and stores = sample_stores
        and fleet = "[js ''dev'']" and acks = Map.empty and now = 9000 and ack_ms = 6000] sample_page
    by (simp add: s g served window sample_window sign sig_lines_def list_all_iff Let_def)
      (auto simp: g dest: single)
qed

section \<open>The row of an error\<close>

text \<open>
  A row of the errors page opens the page of the process its signature names. The server names
  the label of the log, the app and the number of its instance, while the fleet lists apps:
  the page opened finds no such process.
\<close>

lemma errors_row_unfound:
  fixes v :: agg_env and stores :: log_stores
  assumes "reply (errors_handler v stores fleet acks now tok agent) getErrors_res = Inr d" "g \<in> set (er_signatures d)"
    and labels: "\<And>a t l. map_of stores a = Some t \<Longrightarrow> l \<in> set t \<Longrightarrow> 0x23 \<in> set (sl_label l)"
    and names: "list_all (\<lambda>a. list_all (\<lambda>p. 0x23 \<notin> set (p_name p)) (a_procs a)) agents"
  shows "find_proc (es_agent g) (es_proc g) agents = None"
proof -
  have "0x23 \<in> set (es_proc g)" using served_label [OF assms(1,2)] labels by auto
  then have "p_name p \<noteq> es_proc g" if "a \<in> set agents" "p \<in> set (a_procs a)" for a p
    using names that unfolding list_all_iff by metis
  then have "find_first (\<lambda>x. p_name x = es_proc g) (a_procs a) = None" if "a \<in> set agents" for a
    using that by (simp add: find_first_def find_None_iff)
  then show ?thesis by (auto simp: find_proc_def dest!: find_first_Some split: bind_splits)
qed

end
